(* ===== verification/Prelude.thy ===== *)
theory Prelude
  imports Main "HOL-Library.Word" "HOL-Library.Char_ord" "HOL-Library.List_Lexorder"
begin

text \<open>
  Shared vocabulary of the development: byte strings, Go's 64-bit integers, decimal
  printing and parsing (package \<^verbatim>\<open>strconv\<close>), and the string functions of the packages
  \<^verbatim>\<open>strings\<close> and \<^verbatim>\<open>bytes\<close> that the proxy calls.

  A Go \<^verbatim>\<open>[]byte\<close> and a Go \<^verbatim>\<open>string\<close> are both a list of bytes, modelled by
  \<^typ>\<open>string\<close>. A Go \<^verbatim>\<open>int\<close> or \<^verbatim>\<open>int64\<close> is an \<^typ>\<open>int\<close>; where the source does
  arithmetic that can leave the range, the two's complement wrap-around \<open>wrap64\<close> is
  written out. A panic of the Go runtime is an ordinary value of an error type.
\<close>

unbundle bit_operations_syntax

type_synonym bytes = string

abbreviation CR :: char where "CR \<equiv> CHR 0x0D"
abbreviation LF :: char where "LF \<equiv> CHR 0x0A"
abbreviation CRLF :: bytes where "CRLF \<equiv> [CR, LF]"

named_theorems go_simps \<open>evaluation rules for the modelled standard library\<close>
named_theorems enc_simps \<open>unfolding rules for encoders\<close>


section \<open>64-bit integers\<close>

definition in_int64 :: "int \<Rightarrow> bool" where
  "in_int64 x \<longleftrightarrow> - (2 ^ 63) \<le> x \<and> x < 2 ^ 63"

definition wrap64 :: "int \<Rightarrow> int" where
  "wrap64 x = (x + 2 ^ 63) mod 2 ^ 64 - 2 ^ 63"

lemma wrap64_id [simp]: "in_int64 x \<Longrightarrow> wrap64 x = x"
  by (simp add: in_int64_def wrap64_def)

lemma in_int64_wrap64 [simp]: "in_int64 (wrap64 x)"
  using pos_mod_bound [of "2 ^ 64" "x + 2 ^ 63"] by (simp add: in_int64_def wrap64_def)

lemma wrap64_wrap64 [simp]: "wrap64 (wrap64 x) = wrap64 x"
  by simp

lemma wrap64_add_left: "wrap64 (wrap64 x + y) = wrap64 (x + y)"
proof -
  have "(wrap64 x + y + 2 ^ 63) mod 2 ^ 64 = ((x + 2 ^ 63) mod 2 ^ 64 + y) mod 2 ^ 64"
    by (simp add: wrap64_def)
  also have "\<dots> = (x + y + 2 ^ 63) mod 2 ^ 64"
    unfolding mod_add_left_eq by (simp add: ac_simps)
  finally show ?thesis by (simp add: wrap64_def)
qed

lemma wrap64_mult_add_left: "wrap64 (wrap64 x * k + y) = wrap64 (x * k + y)"
proof -
  have "(wrap64 x * k + y + 2 ^ 63) mod 2 ^ 64
      = ((x + 2 ^ 63) mod 2 ^ 64 * k + (y + 2 ^ 63 - 2 ^ 63 * k)) mod 2 ^ 64"
    by (simp add: wrap64_def algebra_simps)
  also have "\<dots> = ((x + 2 ^ 63) * k + (y + 2 ^ 63 - 2 ^ 63 * k)) mod 2 ^ 64"
    by (metis mod_add_left_eq mod_mult_left_eq)
  also have "\<dots> = (x * k + y + 2 ^ 63) mod 2 ^ 64"
    by (simp add: algebra_simps)
  finally show ?thesis by (simp add: wrap64_def)
qed

lemma wrap64_minus: "wrap64 (- wrap64 x) = wrap64 (- x)"
  using wrap64_mult_add_left [of x "-1" 0] by simp


section \<open>Decimal digits\<close>

definition is_digit :: "char \<Rightarrow> bool" where
  "is_digit c \<longleftrightarrow> CHR ''0'' \<le> c \<and> c \<le> CHR ''9''"

definition digit_val :: "char \<Rightarrow> nat" where
  "digit_val c = of_char c - 48"

definition digit_char :: "nat \<Rightarrow> char" where
  "digit_char d = char_of (48 + d)"

lemma of_char_digit_char [simp]: "d < 10 \<Longrightarrow> (of_char (digit_char d) :: nat) = 48 + d"
  by (simp add: digit_char_def)

lemma digit_char_simps [simp, go_simps]:
  "digit_char 0 = CHR ''0''" "digit_char (Suc 0) = CHR ''1''" "digit_char 1 = CHR ''1''"
  "digit_char 2 = CHR ''2''" "digit_char 3 = CHR ''3''" "digit_char 4 = CHR ''4''"
  "digit_char 5 = CHR ''5''" "digit_char 6 = CHR ''6''" "digit_char 7 = CHR ''7''"
  "digit_char 8 = CHR ''8''" "digit_char 9 = CHR ''9''"
  by (simp_all add: digit_char_def char_of_eq_iff)

lemma is_digit_digit_char [simp]: "d < 10 \<Longrightarrow> is_digit (digit_char d)"
  by (simp add: is_digit_def less_eq_char_def)

lemma digit_val_digit_char [simp]: "d < 10 \<Longrightarrow> digit_val (digit_char d) = d"
  by (simp add: digit_val_def)

lemma is_digit_iff: "is_digit c \<longleftrightarrow> (48::nat) \<le> of_char c \<and> of_char c \<le> (57::nat)"
  by (simp add: is_digit_def less_eq_char_def)

text \<open>\<^verbatim>\<open>strconv.FormatUint(n, 10)\<close> and \<^verbatim>\<open>strconv.FormatInt(n, 10)\<close>.\<close>

fun fmt_nat :: "nat \<Rightarrow> bytes" where
  "fmt_nat n = (if n < 10 then [digit_char n] else fmt_nat (n div 10) @ [digit_char (n mod 10)])"

declare fmt_nat.simps [simp del]

definition fmt_int :: "int \<Rightarrow> bytes" where
  "fmt_int n = (if n < 0 then CHR ''-'' # fmt_nat (nat (- n)) else fmt_nat (nat n))"

text \<open>The digit loop shared by the decimal parsers; \<^term>\<open>None\<close> at the first non-digit.\<close>

fun digits_val :: "nat \<Rightarrow> bytes \<Rightarrow> nat option" where
  "digits_val acc [] = Some acc"
| "digits_val acc (c # cs) =
     (if is_digit c then digits_val (acc * 10 + digit_val c) cs else None)"

lemma digits_val_append:
  "digits_val acc (xs @ ys) =
     (case digits_val acc xs of None \<Rightarrow> None | Some b \<Rightarrow> digits_val b ys)"
  by (induction xs arbitrary: acc) auto

lemma digits_val_fmt_nat [simp]: "digits_val 0 (fmt_nat n) = Some n"
proof (induction n rule: fmt_nat.induct)
  case (1 n)
  show ?case
  proof (cases "n < 10")
    case True
    then show ?thesis by (simp add: fmt_nat.simps [of n])
  next
    case False
    with "1.IH" have "digits_val 0 (fmt_nat (n div 10)) = Some (n div 10)" by simp
    with False show ?thesis
      by (simp add: fmt_nat.simps [of n] digits_val_append)
  qed
qed

lemma fmt_nat_nonempty [simp]: "fmt_nat n \<noteq> []"
  by (subst fmt_nat.simps) simp

lemma fmt_nat_digits: "c \<in> set (fmt_nat n) \<Longrightarrow> is_digit c"
proof (induction n rule: fmt_nat.induct)
  case (1 n)
  then show ?case
    by (cases "n < 10") (auto simp: fmt_nat.simps [of n])
qed

lemma fmt_nat_inject [simp]: "fmt_nat m = fmt_nat n \<longleftrightarrow> m = n"
  by (metis digits_val_fmt_nat option.inject)

lemma hd_fmt_nat: "is_digit (hd (fmt_nat n))"
  using fmt_nat_digits hd_in_set fmt_nat_nonempty by blast

lemma not_digit_simps [simp]:
  "\<not> is_digit (CHR ''-'')" "\<not> is_digit (CHR ''+'')" "\<not> is_digit LF" "\<not> is_digit CR"
  "\<not> is_digit (CHR '' '')"
  by (simp_all add: is_digit_iff)

lemma fmt_int_digits: "c \<in> set (fmt_int n) \<Longrightarrow> is_digit c \<or> c = CHR ''-''"
  by (auto simp: fmt_int_def dest: fmt_nat_digits split: if_splits)

lemma fmt_int_nonempty [simp]: "fmt_int n \<noteq> []"
  by (simp add: fmt_int_def)

lemma fmt_int_no_control [simp]: "LF \<notin> set (fmt_int n)" "CR \<notin> set (fmt_int n)"
  using fmt_int_digits [of LF n] fmt_int_digits [of CR n] by auto

text \<open>
  \<^verbatim>\<open>strconv.ParseUint(s, 10, 64)\<close> and \<^verbatim>\<open>strconv.ParseInt(s, 10, 64)\<close>; \<^verbatim>\<open>strconv.Atoi\<close> is
  the latter on the 64-bit targets. \<^term>\<open>None\<close> stands for a syntax or a range error.
\<close>

definition parse_uint64 :: "bytes \<Rightarrow> nat option" where
  "parse_uint64 s = (if s = [] then None else
     (case digits_val 0 s of None \<Rightarrow> None | Some n \<Rightarrow> if n < 2 ^ 64 then Some n else None))"

definition parse_int64 :: "bytes \<Rightarrow> int option" where
  "parse_int64 s =
     (let neg = (s \<noteq> [] \<and> hd s = CHR ''-'');
          body = (if s \<noteq> [] \<and> (hd s = CHR ''-'' \<or> hd s = CHR ''+'') then tl s else s)
      in if body = [] then None else
         (case digits_val 0 body of None \<Rightarrow> None
          | Some n \<Rightarrow> (let v = (if neg then - int n else int n)
                       in if in_int64 v then Some v else None)))"

abbreviation Atoi :: "bytes \<Rightarrow> int option" where "Atoi \<equiv> parse_int64"

lemma parse_uint64_fmt_nat [simp]: "n < 2 ^ 64 \<Longrightarrow> parse_uint64 (fmt_nat n) = Some n"
  by (simp add: parse_uint64_def)

lemma parse_uint64_bound: "parse_uint64 s = Some n \<Longrightarrow> n < 2 ^ 64"
  by (auto simp: parse_uint64_def split: if_splits option.splits)

lemma parse_int64_range: "parse_int64 s = Some n \<Longrightarrow> in_int64 n"
  by (auto simp: parse_int64_def Let_def split: if_splits option.splits)

lemma parse_int64_fmt_int [simp]:
  assumes "in_int64 n" shows "parse_int64 (fmt_int n) = Some n"
proof (cases "n < 0")
  case True
  with assms show ?thesis by (simp add: parse_int64_def fmt_int_def)
next
  case False
  have "hd (fmt_nat (nat n)) \<noteq> CHR ''-''" "hd (fmt_nat (nat n)) \<noteq> CHR ''+''"
    using hd_fmt_nat [of "nat n"] by auto
  with False assms show ?thesis by (simp add: parse_int64_def fmt_int_def)
qed

end
