(* ===== verification/Go_Strings.thy ===== *)
theory Go_Strings
  imports Prelude
begin

text \<open>
  The functions of the Go packages \<^verbatim>\<open>bytes\<close> and \<^verbatim>\<open>strings\<close> that the proxy calls. White
  space is what \<^verbatim>\<open>unicode.IsSpace\<close> accepts, in UTF-8. The case conversions act on the
  ASCII letters and leave every other byte alone.
\<close>

section \<open>Searching\<close>

text \<open>\<^verbatim>\<open>bytes.IndexByte\<close>: the first position of a byte; \<^term>\<open>None\<close> stands for -1.\<close>

fun index_byte :: "char \<Rightarrow> bytes \<Rightarrow> nat option" where
  "index_byte c [] = None"
| "index_byte c (x # xs) = (if x = c then Some 0 else map_option Suc (index_byte c xs))"

lemma index_byte_None: "index_byte c xs = None \<longleftrightarrow> c \<notin> set xs"
  by (induction xs) auto

lemma index_byte_notin [simp]: "c \<notin> set xs \<Longrightarrow> index_byte c xs = None"
  by (simp add: index_byte_None)

lemma index_byte_Some:
  "index_byte c xs = Some i \<longleftrightarrow> i < length xs \<and> xs ! i = c \<and> c \<notin> set (take i xs)"
proof (induction xs arbitrary: i)
  case Nil
  then show ?case by simp
next
  case (Cons x xs)
  then show ?case by (cases i) auto
qed

lemma index_byte_append1 [simp]:
  "c \<in> set xs \<Longrightarrow> index_byte c (xs @ ys) = index_byte c xs"
  by (induction xs) auto

lemma index_byte_append2 [simp]:
  "c \<notin> set xs \<Longrightarrow> index_byte c (xs @ ys) =
     (case index_byte c ys of None \<Rightarrow> None | Some i \<Rightarrow> Some (length xs + i))"
  by (induction xs) (auto split: option.splits)

lemma index_byte_ext: "index_byte c xs = Some i \<Longrightarrow> index_byte c (xs @ ys) = Some i"
  by (metis index_byte_None index_byte_append1 option.distinct(1))

definition has_prefix :: "bytes \<Rightarrow> bytes \<Rightarrow> bool" where
  "has_prefix s p \<longleftrightarrow> take (length p) s = p"

definition has_suffix :: "bytes \<Rightarrow> bytes \<Rightarrow> bool" where
  "has_suffix s p \<longleftrightarrow> length p \<le> length s \<and> drop (length s - length p) s = p"

definition trim_suffix :: "bytes \<Rightarrow> bytes \<Rightarrow> bytes" where
  "trim_suffix s p = (if has_suffix s p then take (length s - length p) s else s)"

lemma has_suffix_append [simp]: "has_suffix (s @ p) p"
  by (simp add: has_suffix_def)

lemma trim_suffix_append [simp]: "trim_suffix (s @ p) p = s"
  by (simp add: trim_suffix_def)

lemma has_prefix_append [simp]: "has_prefix (p @ s) p"
  by (simp add: has_prefix_def)


section \<open>Splitting\<close>

text \<open>\<^verbatim>\<open>strings.Split(s, c)\<close> and \<^verbatim>\<open>strings.SplitN(s, c, n)\<close> for a one-byte separator.\<close>

fun split_char :: "char \<Rightarrow> bytes \<Rightarrow> bytes list" where
  "split_char c [] = [[]]"
| "split_char c (x # xs) =
     (if x = c then [] # split_char c xs
      else (case split_char c xs of [] \<Rightarrow> [[x]] | p # ps \<Rightarrow> (x # p) # ps))"

fun splitN :: "char \<Rightarrow> nat \<Rightarrow> bytes \<Rightarrow> bytes list" where
  "splitN c 0 xs = []"
| "splitN c (Suc 0) xs = [xs]"
| "splitN c (Suc (Suc n)) [] = [[]]"
| "splitN c (Suc (Suc n)) (x # xs) =
     (if x = c then [] # splitN c (Suc n) xs
      else (case splitN c (Suc (Suc n)) xs of [] \<Rightarrow> [[x]] | p # ps \<Rightarrow> (x # p) # ps))"

lemma split_char_nonempty [simp]: "split_char c xs \<noteq> []"
  by (induction xs) (auto split: list.splits)

lemma split_char_no_sep: "p \<in> set (split_char c xs) \<Longrightarrow> c \<notin> set p"
  by (induction xs arbitrary: p) (auto split: list.splits if_splits)

lemma split_char_append:
  "c \<notin> set xs \<Longrightarrow> split_char c (xs @ c # ys) = xs # split_char c ys"
  by (induction xs) auto

lemma split_char_none: "c \<notin> set xs \<Longrightarrow> split_char c xs = [xs]"
  by (induction xs) auto

lemma splitN_Suc_append:
  "c \<notin> set xs \<Longrightarrow> splitN c (Suc (Suc n)) (xs @ c # ys) = xs # splitN c (Suc n) ys"
  by (induction xs) auto

lemma splitN_none: "c \<notin> set xs \<Longrightarrow> splitN c (Suc n) xs = [xs]"
  by (induction xs; cases n) auto

lemma splitN_length: "length (splitN c n xs) \<le> n"
  by (induction c n xs rule: splitN.induct) (auto split: list.splits)


section \<open>White space\<close>

text \<open>The UTF-8 forms of the runes that \<^verbatim>\<open>unicode.IsSpace\<close> accepts.\<close>

definition space_runes :: "bytes list" where
  "space_runes =
     [[CHR 0x20], [CHR 0x0D], [CHR 0x0A], [CHR 0x09], [CHR 0x0B], [CHR 0x0C],
      [CHR 0xC2, CHR 0x85], [CHR 0xC2, CHR 0xA0], [CHR 0xE1, CHR 0x9A, CHR 0x80],
      [CHR 0xE2, CHR 0x80, CHR 0x80], [CHR 0xE2, CHR 0x80, CHR 0x81],
      [CHR 0xE2, CHR 0x80, CHR 0x82], [CHR 0xE2, CHR 0x80, CHR 0x83],
      [CHR 0xE2, CHR 0x80, CHR 0x84], [CHR 0xE2, CHR 0x80, CHR 0x85],
      [CHR 0xE2, CHR 0x80, CHR 0x86], [CHR 0xE2, CHR 0x80, CHR 0x87],
      [CHR 0xE2, CHR 0x80, CHR 0x88], [CHR 0xE2, CHR 0x80, CHR 0x89],
      [CHR 0xE2, CHR 0x80, CHR 0x8A], [CHR 0xE2, CHR 0x80, CHR 0xA8],
      [CHR 0xE2, CHR 0x80, CHR 0xA9], [CHR 0xE2, CHR 0x80, CHR 0xAF],
      [CHR 0xE2, CHR 0x81, CHR 0x9F], [CHR 0xE3, CHR 0x80, CHR 0x80]]"

text \<open>
  The number of bytes of the white space rune at the head of a byte string, 0 when there is
  none. The lead bytes of the multi-byte ones are never continuation bytes, so a match is a
  rune of the string wherever it stands.
\<close>

definition space_len :: "bytes \<Rightarrow> nat" where
  "space_len xs = (case List.find (has_prefix xs) space_runes of None \<Rightarrow> 0 | Some p \<Rightarrow> length p)"

lemma space_runes_nonempty: "p \<in> set space_runes \<Longrightarrow> p \<noteq> []"
  by (auto simp: space_runes_def)

lemma space_len_eq_0: "space_len xs = 0 \<longleftrightarrow> (\<forall>p \<in> set space_runes. \<not> has_prefix xs p)"
proof (cases "List.find (has_prefix xs) space_runes")
  case None
  moreover from None have "\<forall>p \<in> set space_runes. \<not> has_prefix xs p"
    by (auto simp: find_None_iff)
  ultimately show ?thesis by (simp add: space_len_def)
next
  case (Some p)
  then have "p \<in> set space_runes" "has_prefix xs p" by (auto simp: find_Some_iff)
  with Some show ?thesis by (auto simp: space_len_def dest: space_runes_nonempty)
qed

lemma space_len_Nil [simp]: "space_len [] = 0"
  by (auto simp: space_len_eq_0 has_prefix_def dest: space_runes_nonempty)

text \<open>\<^verbatim>\<open>strings.Fields\<close>; the first argument counts bytes of a white space rune still to skip.\<close>

fun Fields_go :: "nat \<Rightarrow> bytes \<Rightarrow> bytes \<Rightarrow> bytes list" where
  "Fields_go k cur [] = (if cur = [] then [] else [cur])"
| "Fields_go (Suc k) cur (x # xs) = Fields_go k cur xs"
| "Fields_go 0 cur (x # xs) =
     (case space_len (x # xs) of
        0 \<Rightarrow> Fields_go 0 (cur @ [x]) xs
      | Suc k \<Rightarrow> (if cur = [] then Fields_go k [] xs else cur # Fields_go k [] xs))"

definition Fields :: "bytes \<Rightarrow> bytes list" where
  "Fields xs = Fields_go 0 [] xs"

fun trim_left_go :: "nat \<Rightarrow> bytes \<Rightarrow> bytes" where
  "trim_left_go k [] = []"
| "trim_left_go (Suc k) (x # xs) = trim_left_go k xs"
| "trim_left_go 0 (x # xs) =
     (case space_len (x # xs) of 0 \<Rightarrow> x # xs | Suc k \<Rightarrow> trim_left_go k xs)"

fun trim_right :: "bytes \<Rightarrow> bytes" where
  "trim_right [] = []"
| "trim_right (x # xs) = (if trim_left_go 0 (x # xs) = [] then [] else x # trim_right xs)"

definition trim_space :: "bytes \<Rightarrow> bytes" where
  "trim_space xs = trim_right (trim_left_go 0 xs)"

text \<open>\<^verbatim>\<open>bytes.TrimRight(s, cutset)\<close> for an ASCII cut set.\<close>

definition trim_right_set :: "char list \<Rightarrow> bytes \<Rightarrow> bytes" where
  "trim_right_set cs xs = rev (dropWhile (\<lambda>c. c \<in> set cs) (rev xs))"

lemma Fields_go_nonempty: "p \<in> set (Fields_go k cur xs) \<Longrightarrow> p \<noteq> []"
  by (induction k cur xs rule: Fields_go.induct) (auto split: nat.splits if_splits)

lemma Fields_nonempty: "p \<in> set (Fields xs) \<Longrightarrow> p \<noteq> []"
  by (simp add: Fields_def Fields_go_nonempty)

lemma trim_left_go_head:
  "trim_left_go k xs \<noteq> [] \<Longrightarrow> space_len (trim_left_go k xs) = 0"
  by (induction k xs rule: trim_left_go.induct) (auto split: nat.splits)

lemma trim_left_go_id: "space_len xs = 0 \<Longrightarrow> trim_left_go 0 xs = xs"
  by (cases xs) auto

lemma Fields_go_cur: "cur \<noteq> [] \<Longrightarrow> Fields_go k cur xs \<noteq> []"
  by (induction k cur xs rule: Fields_go.induct) (auto split: nat.splits)

lemma trim_right_empty: "trim_right xs = [] \<Longrightarrow> trim_left_go 0 xs = []"
  by (cases xs) (auto split: if_splits)

lemma Fields_space_len_0: "xs \<noteq> [] \<Longrightarrow> space_len xs = 0 \<Longrightarrow> Fields xs \<noteq> []"
  by (cases xs) (auto simp: Fields_def Fields_go_cur)

lemma space_len_append_0:
  "space_len (xs @ ys) = 0 \<Longrightarrow> xs \<noteq> [] \<Longrightarrow> space_len xs = 0"
  by (auto simp: space_len_eq_0 has_prefix_def)

lemma trim_right_prefix: "\<exists>ys. xs = trim_right xs @ ys"
  by (induction xs) auto

text \<open>A line that is not blank has at least one field.\<close>

lemma trim_space_Fields: "trim_space xs \<noteq> [] \<Longrightarrow> Fields (trim_space xs) \<noteq> []"
proof -
  assume ne: "trim_space xs \<noteq> []"
  let ?l = "trim_left_go 0 xs"
  obtain ys where split: "?l = trim_right ?l @ ys" using trim_right_prefix by blast
  have "?l \<noteq> []" using ne by (auto simp: trim_space_def)
  then have "space_len ?l = 0" by (rule trim_left_go_head)
  then have "space_len (trim_space xs) = 0"
    using split ne by (metis space_len_append_0 trim_space_def)
  with ne show ?thesis by (rule Fields_space_len_0)
qed


text \<open>Printable ASCII other than the blank: never part of a white space rune.\<close>

definition plain :: "char \<Rightarrow> bool" where
  "plain c \<longleftrightarrow> CHR ''!'' \<le> c \<and> c \<le> CHR ''~''"

lemma plain_digit: "is_digit c \<Longrightarrow> plain c"
  by (auto simp: is_digit_iff plain_def less_eq_char_def)

lemma plain_minus [simp]: "plain (CHR ''-'')"
  by (simp add: plain_def less_eq_char_def)

lemma space_runes_not_plain: "p \<in> set space_runes \<Longrightarrow> c \<in> set p \<Longrightarrow> \<not> plain c"
  by (auto simp: space_runes_def plain_def less_eq_char_def)

lemma space_len_plain [simp]: "plain c \<Longrightarrow> space_len (c # xs) = 0"
  unfolding space_len_eq_0
proof (rule ballI)
  fix p assume c: "plain c" and p: "p \<in> set space_runes"
  show "\<not> has_prefix (c # xs) p"
  proof
    assume "has_prefix (c # xs) p"
    then have "c \<in> set p" using space_runes_nonempty [OF p] by (cases p) (auto simp: has_prefix_def)
    with space_runes_not_plain [OF p] c show False by blast
  qed
qed

lemma space_len_blank [simp]: "space_len (CHR '' '' # xs) = Suc 0"
  by (simp add: space_len_def space_runes_def has_prefix_def)

lemma space_len_le:
  assumes "space_len xs = Suc k" "plain (last xs)" shows "Suc k < length xs"
proof -
  from assms(1) obtain p where p: "p \<in> set space_runes" "has_prefix xs p" "length p = Suc k"
    by (force simp: space_len_def find_Some_iff split: option.splits)
  have t: "take (Suc k) xs = p" using p(2,3) by (simp add: has_prefix_def)
  show ?thesis
  proof (rule ccontr)
    assume "\<not> ?thesis"
    then have "xs = p" using t by simp
    moreover have "p \<noteq> []" using p(3) by auto
    ultimately show False using space_runes_not_plain [OF p(1)] assms(2) last_in_set [of p] by blast
  qed
qed

lemma trim_left_go_plain: "k < length xs \<Longrightarrow> plain (last xs) \<Longrightarrow> trim_left_go k xs \<noteq> []"
proof (induction k xs rule: trim_left_go.induct)
  case (2 k x xs)
  then show ?case by (cases xs) auto
next
  case (3 x xs)
  show ?case
  proof (cases "space_len (x # xs)")
    case 0
    then show ?thesis by simp
  next
    case (Suc k)
    from space_len_le [OF Suc 3(3)] have "k < length xs" by simp
    moreover from this have "plain (last xs)" using 3(3) by (cases xs) auto
    ultimately show ?thesis using Suc 3(1) by simp
  qed
qed auto

lemma trim_right_plain: "xs \<noteq> [] \<Longrightarrow> plain (last xs) \<Longrightarrow> trim_right xs = xs"
proof (induction xs)
  case (Cons x xs)
  then have "trim_left_go 0 (x # xs) \<noteq> []" by (intro trim_left_go_plain) auto
  with Cons show ?case by (cases xs) auto
qed simp

lemma trim_space_plain:
  assumes "xs \<noteq> []" "plain (hd xs)" "plain (last xs)" shows "trim_space xs = xs"
proof -
  have "trim_left_go 0 xs = xs" using assms by (cases xs) auto
  with trim_right_plain assms show ?thesis by (simp add: trim_space_def)
qed

text \<open>\<^verbatim>\<open>strings.Join\<close>.\<close>

fun join :: "bytes \<Rightarrow> bytes list \<Rightarrow> bytes" where
  "join sep [] = []"
| "join sep [x] = x"
| "join sep (x # y # ys) = x @ sep @ join sep (y # ys)"

lemma Fields_go_word:
  "\<forall>c \<in> set w. plain c \<Longrightarrow> Fields_go 0 cur (w @ rest) = Fields_go 0 (cur @ w) rest"
  by (induction w arbitrary: cur) auto

lemma Fields_join:
  "\<forall>w \<in> set ws. w \<noteq> [] \<and> (\<forall>c \<in> set w. plain c) \<Longrightarrow> Fields (join '' '' ws) = ws"
proof (induction "'' ''" ws rule: join.induct)
  case (2 x)
  then show ?case using Fields_go_word [of x "[]" "[]"] by (simp add: Fields_def)
next
  case (3 x y ys)
  then show ?case
    using Fields_go_word [of x "[]" "'' '' @ join '' '' (y # ys)"] by (simp add: Fields_def)
qed (simp add: Fields_def)

lemma split_char_join:
  "\<forall>w \<in> set ws. c \<notin> set w \<Longrightarrow> ws \<noteq> [] \<Longrightarrow> split_char c (join [c] ws) = ws"
  by (induction "[c]" ws rule: join.induct) (auto simp: split_char_none split_char_append)

lemma hd_join: "x \<noteq> [] \<Longrightarrow> hd (join sep (x # xs)) = hd x"
  by (cases xs) auto

lemma last_join: "\<forall>w \<in> set ws. w \<noteq> [] \<Longrightarrow> ws \<noteq> [] \<Longrightarrow> last (join sep ws) = last (last ws)"
proof (induction sep ws rule: join.induct)
  case (3 sep x y ys)
  moreover have "join sep (y # ys) \<noteq> []" using 3 by (cases ys) auto
  ultimately show ?case by auto
qed auto

lemma join_nonempty: "x \<noteq> [] \<Longrightarrow> join sep (x # xs) \<noteq> []"
  by (cases xs) auto

lemma set_join: "set (join sep ws) \<subseteq> set sep \<union> \<Union> (set ` set ws)"
  by (induction sep ws rule: join.induct) auto


section \<open>Letter case\<close>

definition upper_char :: "char \<Rightarrow> char" where
  "upper_char c = (if CHR ''a'' \<le> c \<and> c \<le> CHR ''z'' then char_of (of_char c - 32 :: nat) else c)"

definition lower_char :: "char \<Rightarrow> char" where
  "lower_char c = (if CHR ''A'' \<le> c \<and> c \<le> CHR ''Z'' then char_of (of_char c + 32 :: nat) else c)"

definition to_upper :: "bytes \<Rightarrow> bytes" where
  "to_upper s = map upper_char s"

definition to_lower :: "bytes \<Rightarrow> bytes" where
  "to_lower s = map lower_char s"

definition equal_fold :: "bytes \<Rightarrow> bytes \<Rightarrow> bool" where
  "equal_fold s t \<longleftrightarrow> to_upper s = to_upper t"

lemma length_to_upper [simp]: "length (to_upper s) = length s"
  by (simp add: to_upper_def)

lemma to_upper_Nil [simp]: "to_upper [] = []" "to_upper s = [] \<longleftrightarrow> s = []"
  by (simp_all add: to_upper_def)

lemma upper_char_upper_char [simp]: "upper_char (upper_char c) = upper_char c"
  by (auto simp: upper_char_def less_eq_char_def)

lemma to_upper_to_upper [simp]: "to_upper (to_upper s) = to_upper s"
  by (simp add: to_upper_def)

lemmas case_defs = to_upper_def to_lower_def upper_char_def lower_char_def

end
