(* ===== verification/Crc16.thy ===== *)
theory Crc16
  imports Go_Strings
begin

text \<open>
  Key hashing, \<^verbatim>\<open>src/pkg/proto/crc16.go\<close>: the table-driven \<open>CRC16\<close>, the hash tag scan
  \<open>hashTag\<close> and \<open>HashSlot\<close>, which maps a key to one of the 16384 cluster slots.
  The byte loop is compared with the bit-serial CRC-16/XMODEM that Redis Cluster uses: the
  table agrees with it except in the entries 64 to 119, and the checksum agrees on every input
  whose lookups avoid these. The hash tag scan is compared with the rule of the Redis Cluster
  specification.
\<close>

type_synonym u16 = "16 word"

definition ClusterSlots :: nat where
  "ClusterSlots = 16384"

definition crc16tab :: "u16 list" where
  "crc16tab =
     [0x0000, 0x1021, 0x2042, 0x3063, 0x4084, 0x50A5, 0x60C6, 0x70E7,
      0x8108, 0x9129, 0xA14A, 0xB16B, 0xC18C, 0xD1AD, 0xE1CE, 0xF1EF,
      0x1231, 0x0210, 0x3273, 0x2252, 0x52B5, 0x4294, 0x72F7, 0x62D6,
      0x9339, 0x8318, 0xB37B, 0xA35A, 0xD3BD, 0xC39C, 0xF3FF, 0xE3DE,
      0x2462, 0x3443, 0x0420, 0x1401, 0x64E6, 0x74C7, 0x44A4, 0x5485,
      0xA56A, 0xB54B, 0x8528, 0x9509, 0xE5EE, 0xF5CF, 0xC5AC, 0xD58D,
      0x3653, 0x2672, 0x1611, 0x0630, 0x76D7, 0x66F6, 0x5695, 0x46B4,
      0xB75B, 0xA77A, 0x9719, 0x8738, 0xF7DF, 0xE7FE, 0xD79D, 0xC7BC,
      0x4864, 0x5845, 0x6826, 0x7807, 0x08E0, 0x18C1, 0x28A2, 0x38C3,
      0xC92C, 0xD90D, 0xE96E, 0xF94F, 0x89A8, 0x99C9, 0xA9AA, 0xB98B,
      0x5A75, 0x4A54, 0x7A37, 0x6A16, 0x1AF1, 0x0AD0, 0x3AB3, 0x2A92,
      0xDB6D, 0xCB4C, 0xFB2F, 0xEB0E, 0x9BE9, 0x8BC8, 0xBBAB, 0xAB8A,
      0x6C66, 0x7C47, 0x4C24, 0x5C05, 0x2CE2, 0x3CC3, 0x0CA0, 0x1C81,
      0xED6E, 0xFD4F, 0xCD2C, 0xDD0D, 0xAD6A, 0xBD4B, 0x8D28, 0x9D09,
      0x7EF7, 0x6ED6, 0x5EB5, 0x4E94, 0x3E73, 0x2E52, 0x1E31, 0x0E10,
      0xFF9F, 0xEFBE, 0xDFDD, 0xCFFC, 0xBF1B, 0xAF3A, 0x9F59, 0x8F78,
      0x9188, 0x81A9, 0xB1CA, 0xA1EB, 0xD10C, 0xC12D, 0xF14E, 0xE16F,
      0x1080, 0x00A1, 0x30C2, 0x20E3, 0x5004, 0x4025, 0x7046, 0x6067,
      0x83B9, 0x9398, 0xA3FB, 0xB3DA, 0xC33D, 0xD31C, 0xE37F, 0xF35E,
      0x02B1, 0x1290, 0x22F3, 0x32D2, 0x4235, 0x5214, 0x6277, 0x7256,
      0xB5EA, 0xA5CB, 0x95A8, 0x8589, 0xF56E, 0xE54F, 0xD52C, 0xC50D,
      0x34E2, 0x24C3, 0x14A0, 0x0481, 0x7466, 0x6447, 0x5424, 0x4405,
      0xA7DB, 0xB7FA, 0x8799, 0x97B8, 0xE75F, 0xF77E, 0xC71D, 0xD73C,
      0x26D3, 0x36F2, 0x0691, 0x16B0, 0x6657, 0x7676, 0x4615, 0x5634,
      0xD94C, 0xC96D, 0xF90E, 0xE92F, 0x99C8, 0x89E9, 0xB98A, 0xA9AB,
      0x5844, 0x4865, 0x7806, 0x6827, 0x18C0, 0x08E1, 0x3882, 0x28A3,
      0xCB7D, 0xDB5C, 0xEB3F, 0xFB1E, 0x8BF9, 0x9BD8, 0xABBB, 0xBB9A,
      0x4A75, 0x5A54, 0x6A37, 0x7A16, 0x0AF1, 0x1AD0, 0x2AB3, 0x3A92,
      0xFD2E, 0xED0F, 0xDD6C, 0xCD4D, 0xBDAA, 0xAD8B, 0x9DE8, 0x8DC9,
      0x7C26, 0x6C07, 0x5C64, 0x4C45, 0x3CA2, 0x2C83, 0x1CE0, 0x0CC1,
      0xEF1F, 0xFF3E, 0xCF5D, 0xDF7C, 0xAF9B, 0xBFBA, 0x8FD9, 0x9FF8,
      0x6E17, 0x7E36, 0x4E55, 0x5E74, 0x2E93, 0x3EB2, 0x0ED1, 0x1EF0]"

definition byte :: "char \<Rightarrow> 8 word" where
  "byte c = word_of_nat (of_char c)"

definition crc16_index :: "u16 \<Rightarrow> char \<Rightarrow> nat" where
  "crc16_index crc b = unat ((ucast (drop_bit 8 crc) :: 8 word) XOR byte b)"

fun crc16_loop :: "u16 \<Rightarrow> bytes \<Rightarrow> u16" where
  "crc16_loop crc [] = crc"
| "crc16_loop crc (b # bs) = crc16_loop (push_bit 8 crc XOR crc16tab ! crc16_index crc b) bs"

definition CRC16 :: "bytes \<Rightarrow> u16" where
  "CRC16 buf = crc16_loop 0 buf"

text \<open>The loop of \<^verbatim>\<open>hashTag\<close> at position \<open>i\<close>; \<open>s\<close> is the last open brace, \<^term>\<open>None\<close> for -1.\<close>

fun hash_tag_go :: "bytes \<Rightarrow> nat \<Rightarrow> nat option \<Rightarrow> bytes \<Rightarrow> bytes option" where
  "hash_tag_go key i s [] = None"
| "hash_tag_go key i s (b # bs) =
     (if b = CHR ''{'' then hash_tag_go key (Suc i) (Some i) bs
      else if b = CHR ''}'' \<and> s \<noteq> None then
        (if the s + 1 < i then Some (take (i - (the s + 1)) (drop (the s + 1) key))
         else hash_tag_go key (Suc i) None bs)
      else hash_tag_go key (Suc i) s bs)"

definition hashTag :: "bytes \<Rightarrow> bytes option" where
  "hashTag key = hash_tag_go key 0 None key"

definition HashSlot :: "bytes \<Rightarrow> nat" where
  "HashSlot key =
     (case hashTag key of
        Some s \<Rightarrow> if 0 < length s then unat (CRC16 s) mod ClusterSlots
                  else unat (CRC16 key) mod ClusterSlots
      | None \<Rightarrow> unat (CRC16 key) mod ClusterSlots)"


section \<open>The checksum against CRC-16/XMODEM\<close>

text \<open>The bit-serial definition: polynomial 0x1021, most significant bit first, initial value 0.\<close>

definition crc_bit :: "u16 \<Rightarrow> u16" where
  "crc_bit c = (if bit c 15 then push_bit 1 c XOR 0x1021 else push_bit 1 c)"

definition crc_byte :: "u16 \<Rightarrow> char \<Rightarrow> u16" where
  "crc_byte crc b = (crc_bit ^^ 8) (crc XOR push_bit 8 (ucast (byte b)))"

definition crc_xmodem :: "bytes \<Rightarrow> u16" where
  "crc_xmodem bs = foldl crc_byte 0 bs"

lemma crc_bit_xor: "crc_bit (a XOR b) = crc_bit a XOR crc_bit b"
  by (auto simp: crc_bit_def bit_xor_iff push_bit_xor ac_simps)

lemma crc_bit_funpow_xor: "(crc_bit ^^ n) (a XOR b) = (crc_bit ^^ n) a XOR (crc_bit ^^ n) b"
  by (induction n) (auto simp: crc_bit_xor)

text \<open>A value whose leading bits are clear is only shifted.\<close>

lemma crc_bit_funpow_shift:
  assumes "\<And>k. 16 - n \<le> k \<Longrightarrow> k < 16 \<Longrightarrow> \<not> bit c k" and "n \<le> 16"
  shows "(crc_bit ^^ n) c = push_bit n c"
  using assms
proof (induction n)
  case 0
  then show ?case by simp
next
  case (Suc n)
  then have IH: "(crc_bit ^^ n) c = push_bit n c" by simp
  have "\<not> bit c (15 - n)" using Suc.prems by simp
  then have "\<not> bit (push_bit n c) 15"
    using Suc.prems by (simp add: bit_push_bit_iff)
  then have "crc_bit (push_bit n c) = push_bit (Suc n) c"
    by (simp add: crc_bit_def)
  with IH show ?case by simp
qed

lemma crc_bit_8:
  "(crc_bit ^^ 8) c =
     crc_bit (crc_bit (crc_bit (crc_bit (crc_bit (crc_bit (crc_bit (crc_bit c)))))))"
  by (simp add: eval_nat_numeral)

definition crc_entry :: "nat \<Rightarrow> u16" where
  "crc_entry i = (crc_bit ^^ 8) (push_bit 8 (word_of_nat i))"

text \<open>The entries of the table that agree with the polynomial.\<close>

definition crc16tab_good :: "nat \<Rightarrow> bool" where
  "crc16tab_good i \<longleftrightarrow> i < 64 \<or> 120 \<le> i"

lemma crc16tab_low: "take 64 crc16tab = map crc_entry [0..<64]"
proof -
  have "[0..<64] = 0 # 1 # [2..<64]" by (simp add: upt_conv_Cons)
  then show ?thesis by (simp add: crc16tab_def crc_entry_def crc_bit_8 crc_bit_def)
qed

lemma crc16tab_high: "drop 120 crc16tab = map crc_entry [120..<256]"
  by (simp add: crc16tab_def crc_entry_def crc_bit_8 crc_bit_def)

lemma crc16tab_mid: "list_all2 (\<noteq>) (take 56 (drop 64 crc16tab)) (map crc_entry [64..<120])"
  by (simp add: crc16tab_def crc_entry_def crc_bit_8 crc_bit_def)

lemma length_crc16tab: "length crc16tab = 256"
  by (simp add: crc16tab_def)

lemma crc16tab_nth_good:
  assumes "i < 256" "crc16tab_good i" shows "crc16tab ! i = crc_entry i"
proof (cases "i < 64")
  case True
  then have "take 64 crc16tab ! i = crc_entry i"
    unfolding crc16tab_low by (subst nth_map_upt) simp_all
  with True show ?thesis by simp
next
  case False
  with assms have "120 \<le> i" by (simp add: crc16tab_good_def)
  then have "crc16tab ! i = drop 120 crc16tab ! (i - 120)" by (simp add: length_crc16tab)
  also have "\<dots> = crc_entry i"
    unfolding crc16tab_high using \<open>120 \<le> i\<close> assms by (subst nth_map_upt) simp_all
  finally show ?thesis .
qed

lemma crc16tab_nth_bad:
  assumes "64 \<le> i" "i < 120" shows "crc16tab ! i \<noteq> crc_entry i"
proof -
  have len: "i - 64 < length (map crc_entry [64..<120])" using assms by simp
  have "map crc_entry [64..<120] ! (i - 64) = crc_entry i"
    using assms by (subst nth_map_upt) simp_all
  moreover have "take 56 (drop 64 crc16tab) ! (i - 64) = crc16tab ! i"
    using assms by (simp add: length_crc16tab)
  ultimately show ?thesis
    using list_all2_nthD2 [OF crc16tab_mid len] by simp
qed

text \<open>One byte of the loop is eight bits of the polynomial division, at a good entry.\<close>

lemma crc16_index_less: "crc16_index crc b < 256"
  using unsigned_less [of "(ucast (drop_bit 8 crc) :: 8 word) XOR byte b"]
  by (simp add: crc16_index_def)

lemma crc16_step:
  assumes "crc16tab_good (crc16_index crc b)"
  shows "push_bit 8 crc XOR crc16tab ! crc16_index crc b = crc_byte crc b"
proof -
  let ?h = "ucast (drop_bit 8 crc) :: 8 word"
  have "crc XOR push_bit 8 (ucast (byte b)) = push_bit 8 (ucast (?h XOR byte b)) XOR take_bit 8 crc"
    by (rule bit_word_eqI) (auto simp: bit_simps)
  moreover have "(crc_bit ^^ 8) (take_bit 8 crc) = push_bit 8 (take_bit 8 crc)"
    by (rule crc_bit_funpow_shift) (auto simp: bit_simps)
  moreover have "push_bit 8 (take_bit 8 crc) = push_bit 8 crc"
    by (rule bit_word_eqI) (auto simp: bit_simps)
  moreover have "crc16tab ! crc16_index crc b = (crc_bit ^^ 8) (push_bit 8 (ucast (?h XOR byte b)))"
    using crc16tab_nth_good [OF crc16_index_less assms]
    by (simp add: crc_entry_def crc16_index_def)
  ultimately show ?thesis
    by (simp add: crc_byte_def crc_bit_funpow_xor xor.commute)
qed

text \<open>Every table lookup of the loop hits a good entry.\<close>

fun crc16_good_run :: "u16 \<Rightarrow> bytes \<Rightarrow> bool" where
  "crc16_good_run crc [] = True"
| "crc16_good_run crc (b # bs) =
     (crc16tab_good (crc16_index crc b) \<and>
      crc16_good_run (push_bit 8 crc XOR crc16tab ! crc16_index crc b) bs)"

lemma crc16_loop_xmodem:
  "crc16_good_run crc bs \<Longrightarrow> crc16_loop crc bs = foldl crc_byte crc bs"
  by (induction bs arbitrary: crc) (auto simp: crc16_step)


section \<open>Hash tags\<close>

text \<open>
  The scan without positions: \<open>cur\<close> is the text after the last open brace, if any. The loop
  of the source computes the same.
\<close>

fun tag_scan :: "bytes option \<Rightarrow> bytes \<Rightarrow> bytes option" where
  "tag_scan cur [] = None"
| "tag_scan cur (b # bs) =
     (if b = CHR ''{'' then tag_scan (Some []) bs
      else (case cur of
              None \<Rightarrow> tag_scan None bs
            | Some t \<Rightarrow> (if b = CHR ''}'' then (if t \<noteq> [] then Some t else tag_scan None bs)
                        else tag_scan (Some (t @ [b])) bs)))"

lemma hash_tag_go_scan:
  "\<forall>k. s = Some k \<longrightarrow> k < length pre \<Longrightarrow>
   hash_tag_go (pre @ rest) (length pre) s rest = tag_scan (map_option (\<lambda>k. drop (Suc k) pre) s) rest"
proof (induction rest arbitrary: pre s)
  case Nil
  then show ?case by simp
next
  case (Cons b rest)
  have step: "hash_tag_go (pre @ b # rest) (Suc (length pre)) s' rest
      = tag_scan (map_option (\<lambda>k. drop (Suc k) (pre @ [b])) s') rest"
    if "\<forall>k. s' = Some k \<longrightarrow> k < length (pre @ [b])" for s'
    using Cons.IH [OF that] by simp
  show ?case
  proof (cases s)
    case None
    with step [of None] step [of "Some (length pre)"] show ?thesis by auto
  next
    case (Some k)
    with Cons.prems have "k < length pre" by simp
    with Some step [of None] step [of "Some k"] step [of "Some (length pre)"] show ?thesis
      by (auto simp: not_less)
  qed
qed

lemma hashTag_scan: "hashTag key = tag_scan None key"
  using hash_tag_go_scan [of None "[]" key] by (simp add: hashTag_def)

lemma tag_scan_Some:
  "tag_scan cur bs = Some t \<Longrightarrow>
   \<forall>u. cur = Some u \<longrightarrow> CHR ''{'' \<notin> set u \<and> CHR ''}'' \<notin> set u \<Longrightarrow>
   t \<noteq> [] \<and> CHR ''{'' \<notin> set t \<and> CHR ''}'' \<notin> set t"
  by (induction cur bs rule: tag_scan.induct) (auto split: if_splits option.splits)

lemma tag_scan_skip:
  "CHR ''{'' \<notin> set p \<Longrightarrow> tag_scan None (p @ bs) = tag_scan None bs"
  by (induction p) auto

lemma tag_scan_body:
  "CHR ''{'' \<notin> set t \<Longrightarrow> CHR ''}'' \<notin> set t \<Longrightarrow> tag_scan (Some u) (t @ bs) = tag_scan (Some (u @ t)) bs"
  by (induction t arbitrary: u) auto

lemma hashTag_tagged:
  assumes "CHR ''{'' \<notin> set p" "CHR ''{'' \<notin> set t" "CHR ''}'' \<notin> set t" "t \<noteq> []"
  shows "hashTag (p @ CHR ''{'' # t @ CHR ''}'' # s) = Some t"
  using assms by (simp add: hashTag_scan tag_scan_skip tag_scan_body)

lemma hashTag_untagged: "CHR ''{'' \<notin> set key \<Longrightarrow> hashTag key = None"
  using tag_scan_skip [of key "[]"] by (simp add: hashTag_scan)

text \<open>
  The rule of the Redis Cluster specification: the text between the first open brace and the
  first closing brace after it, when there are both and the text is not empty.
\<close>

definition redis_tag :: "bytes \<Rightarrow> bytes option" where
  "redis_tag key =
     (case index_byte (CHR ''{'') key of
        None \<Rightarrow> None
      | Some i \<Rightarrow>
         (case index_byte (CHR ''}'') (drop (Suc i) key) of
            None \<Rightarrow> None
          | Some j \<Rightarrow> if j = 0 then None else Some (take j (drop (Suc i) key))))"

lemma tag_scan_no_open:
  "CHR ''{'' \<notin> set bs \<Longrightarrow> CHR ''}'' \<notin> set u \<Longrightarrow>
   tag_scan (Some u) bs =
     (case index_byte (CHR ''}'') bs of
        None \<Rightarrow> None
      | Some j \<Rightarrow> if u @ take j bs = [] then None else Some (u @ take j bs))"
proof (induction bs arbitrary: u)
  case Nil
  then show ?case by simp
next
  case (Cons b bs)
  then show ?case
    using tag_scan_skip [of bs "[]"] by (auto split: option.splits)
qed

lemma hashTag_redis:
  assumes "count_list key (CHR ''{'') \<le> 1" shows "hashTag key = redis_tag key"
proof (cases "CHR ''{'' \<in> set key")
  case False
  then show ?thesis by (simp add: hashTag_untagged redis_tag_def)
next
  case True
  then obtain p bs where key: "key = p @ CHR ''{'' # bs" and p: "CHR ''{'' \<notin> set p"
    by (meson split_list_first)
  from assms key have "CHR ''{'' \<notin> set bs"
    by (auto simp: count_list_0_iff)
  with key p show ?thesis
    by (auto simp: hashTag_scan tag_scan_skip tag_scan_no_open redis_tag_def take_eq_Nil
        split: option.splits)
qed

lemma HashSlot_less: "HashSlot key < ClusterSlots"
  by (simp add: HashSlot_def ClusterSlots_def split: option.splits)

lemma HashSlot_eq:
  "HashSlot key = unat (CRC16 (case hashTag key of None \<Rightarrow> key | Some t \<Rightarrow> t)) mod ClusterSlots"
proof (cases "hashTag key")
  case None
  then show ?thesis by (simp add: HashSlot_def)
next
  case (Some t)
  then have "t \<noteq> []" using tag_scan_Some [of None key t] by (simp add: hashTag_scan)
  with Some show ?thesis by (simp add: HashSlot_def)
qed


section \<open>Properties\<close>

text \<open>
  Keys with the same hash tag share a slot: the slot of a key with the tag \<open>{t}\<close> is the slot
  of \<open>t\<close> itself, whatever precedes and follows, and it is one of the 16384 cluster slots.
\<close>

theorem HashSlot_tagged:
  assumes "CHR ''{'' \<notin> set p" "CHR ''{'' \<notin> set t" "CHR ''}'' \<notin> set t" "t \<noteq> []"
  shows "HashSlot (p @ CHR ''{'' # t @ CHR ''}'' # s) = HashSlot t \<and> HashSlot t < ClusterSlots"
  using assms by (simp add: HashSlot_eq [of t] HashSlot_eq [of "p @ _"] hashTag_tagged hashTag_untagged
      ClusterSlots_def)

theorem HashSlot_tagged_witness:
  "HashSlot ''a{u1}b'' = HashSlot ''u1'' \<and> HashSlot ''u1'' < ClusterSlots"
  using HashSlot_tagged [of "''a''" "''u1''" "''b''"] by simp

text \<open>
  C37. The lookup table of the checksum holds the CRC-16/XMODEM remainders exactly outside the
  entries 64 to 119: all of these 56 entries are wrong.
\<close>

theorem crc16tab_entries:
  assumes "i < 256" shows "crc16tab ! i = crc_entry i \<longleftrightarrow> i < 64 \<or> 120 \<le> i"
  using crc16tab_nth_good [OF assms] crc16tab_nth_bad [of i]
  unfolding crc16tab_good_def by (meson not_le_imp_less)

theorem crc16tab_entries_witness: "crc16tab ! 3 = crc_entry 3 \<and> crc16tab ! 64 \<noteq> crc_entry 64"
  using crc16tab_entries [of 3] crc16tab_entries [of 64] by simp

text \<open>
  C38. On an input whose table lookups avoid the wrong entries, \<open>CRC16\<close> is the bit-serial
  CRC-16/XMODEM checksum of Redis Cluster.
\<close>

theorem CRC16_xmodem:
  assumes "crc16_good_run 0 buf" shows "CRC16 buf = crc_xmodem buf"
  unfolding CRC16_def crc_xmodem_def using assms by (rule crc16_loop_xmodem)

theorem CRC16_xmodem_witness: "CRC16 ''12'' = crc_xmodem ''12''"
  by (rule CRC16_xmodem)
    (simp add: crc16tab_good_def crc16_index_def byte_def crc16tab_def)

text \<open>
  \<open>hashTag\<close> follows the rule of the Redis Cluster specification on every key with at most
  one open brace.
\<close>

theorem hashTag_redis_tag:
  assumes "count_list key (CHR ''{'') \<le> 1" shows "hashTag key = redis_tag key"
  using assms by (rule hashTag_redis)

theorem hashTag_redis_tag_witness: "hashTag ''x{ab}y}'' = redis_tag ''x{ab}y}'' \<and> redis_tag ''x{ab}y}'' = Some ''ab''"
  using hashTag_redis_tag [of "''x{ab}y}''"] by (simp add: redis_tag_def)

text \<open>The table changes the slots of ordinary keys, and nested braces change the tag.\<close>

lemma HashSlot_foo: "HashSlot ''foo'' = 14042" "unat (crc_xmodem ''foo'') mod ClusterSlots = 12182"
  by (simp_all add: HashSlot_eq hashTag_untagged CRC16_def crc16_index_def byte_def crc16tab_def
      ClusterSlots_def crc_xmodem_def crc_byte_def crc_bit_8 crc_bit_def)

lemma hashTag_nested: "hashTag ''{{a}}'' = Some ''a''" "redis_tag ''{{a}}'' = Some ''{a''"
  "hashTag ''x{}{a}'' = Some ''a''" "redis_tag ''x{}{a}'' = None"
  by (simp_all add: hashTag_def redis_tag_def)

end
