(* ===== verification/Codec.thy ===== *)
theory Codec
  imports Prelude
begin

text \<open>
  The contract between the event loop and the parsers. The traffic handlers read whole messages
  off a connection buffer until the parser asks for more data; \<open>drain\<close> is that loop, as in
  \<^verbatim>\<open>onClientTraffic\<close>, \<^verbatim>\<open>onBackendTraffic\<close> and \<^verbatim>\<open>onSharedBackendTraffic\<close>. A decoder that is
  stable under more input makes the loop independent of how the bytes were cut into reads; a
  codec makes it return exactly the messages that were encoded.
\<close>

fun drain :: "(bytes \<Rightarrow> ('a \<times> nat) option) \<Rightarrow> nat \<Rightarrow> bytes \<Rightarrow> 'a list \<times> bytes" where
  "drain dec 0 buf = ([], buf)"
| "drain dec (Suc fuel) buf =
     (case dec buf of
        None \<Rightarrow> ([], buf)
      | Some (v, n) \<Rightarrow> (case drain dec fuel (drop n buf) of (vs, r) \<Rightarrow> (v # vs, r)))"

locale stable_decoder =
  fixes dec :: "bytes \<Rightarrow> ('a \<times> nat) option"
    and ok :: "bytes \<Rightarrow> bool"
  assumes ok_suffix: "ok (xs @ ys) \<Longrightarrow> ok ys"
    and ok_prefix: "ok (xs @ ys) \<Longrightarrow> ok xs"
    and dec_bound: "ok buf \<Longrightarrow> dec buf = Some (v, n) \<Longrightarrow> 0 < n \<and> n \<le> length buf"
    and dec_stable: "ok (buf @ ext) \<Longrightarrow> dec buf = Some (v, n) \<Longrightarrow> dec (buf @ ext) = Some (v, n)"
begin

lemma ok_drop: "ok buf \<Longrightarrow> ok (drop n buf)"
  using ok_suffix [of "take n buf" "drop n buf"] by simp

text \<open>Enough fuel: one step per byte, and more fuel changes nothing.\<close>

lemma drain_fuel:
  "ok buf \<Longrightarrow> length buf < f \<Longrightarrow> length buf < g \<Longrightarrow> drain dec f buf = drain dec g buf"
proof (induction f arbitrary: g buf)
  case 0
  then show ?case by simp
next
  case (Suc f)
  then obtain g' where g: "g = Suc g'" by (cases g) auto
  show ?case
  proof (cases "dec buf")
    case None
    then show ?thesis by (simp add: g)
  next
    case (Some vn)
    obtain v n where vn: "vn = (v, n)" by (cases vn)
    with Some Suc.prems(1) have "0 < n" "n \<le> length buf" using dec_bound by blast+
    then have "drain dec f (drop n buf) = drain dec g' (drop n buf)"
      using Suc.prems by (intro Suc.IH) (auto simp: g ok_drop)
    with Some vn show ?thesis by (simp add: g)
  qed
qed

lemma drain_rest:
  assumes "ok buf" "length buf < f" "drain dec f buf = (vs, r)"
  shows "dec r = None \<and> (\<exists>k \<le> length buf. r = drop k buf)"
  using assms
proof (induction f arbitrary: buf vs)
  case 0
  then show ?case by simp
next
  case (Suc f)
  show ?case
  proof (cases "dec buf")
    case None
    with Suc.prems show ?thesis by (intro conjI exI [of _ 0]) auto
  next
    case (Some vn)
    obtain v n where vn: "vn = (v, n)" by (cases vn)
    with Some Suc.prems(1) have n: "0 < n" "n \<le> length buf" using dec_bound by blast+
    obtain ws where ws: "drain dec f (drop n buf) = (ws, r)"
      using Suc.prems(3) Some vn by (auto split: prod.splits)
    have "length (drop n buf) < f" using Suc.prems(2) n by simp
    from Suc.IH [OF ok_drop [OF Suc.prems(1)] this ws]
    obtain k where "dec r = None" "k \<le> length (drop n buf)" "r = drop (k + n) buf" by auto
    with n show ?thesis by (intro conjI exI [of _ "k + n"]) auto
  qed
qed

text \<open>Cutting the input into two reads does not change the messages.\<close>

lemma drain_chunks:
  assumes "ok (a @ b)" "length a < f" "length (a @ b) < g" "drain dec f a = (vs, r)"
  shows "drain dec g (a @ b) = (case drain dec g (r @ b) of (ws, r') \<Rightarrow> (vs @ ws, r'))"
  using assms
proof (induction f arbitrary: a g vs)
  case 0
  then show ?case by simp
next
  case (Suc f)
  obtain g' where g: "g = Suc g'" using Suc.prems(3) by (cases g) auto
  show ?case
  proof (cases "dec a")
    case None
    with Suc.prems show ?thesis by (simp split: prod.splits)
  next
    case (Some vn)
    obtain v n where vn: "vn = (v, n)" by (cases vn)
    have oka: "ok a" using Suc.prems(1) by (rule ok_prefix)
    with Some vn have n: "0 < n" "n \<le> length a" using dec_bound by blast+
    have dab: "dec (a @ b) = Some (v, n)" using dec_stable Suc.prems(1) Some vn by blast
    have okd: "ok (drop n a @ b)" using ok_drop [OF Suc.prems(1), of n] n by simp
    obtain ws where ws: "drain dec f (drop n a) = (ws, r)" "vs = v # ws"
      using Suc.prems(4) Some vn by (auto split: prod.splits)
    have "length (drop n a) < f" using Suc.prems(2) n by simp
    from drain_rest [OF ok_drop [OF oka] this ws(1)]
    obtain k where k: "r = drop k (drop n a)" "k \<le> length (drop n a)" by blast
    have "ok (r @ b)" using ok_drop [OF okd, of k] k by simp
    then have "drain dec g (r @ b) = drain dec g' (r @ b)"
      using k n Suc.prems(3) by (intro drain_fuel) (auto simp: g)
    moreover have "drain dec g' (drop n a @ b) = (case drain dec g' (r @ b) of (us, r') \<Rightarrow> (ws @ us, r'))"
      using Suc.IH [OF okd _ _ ws(1)] Suc.prems(2,3) n by (simp add: g)
    ultimately show ?thesis using dab n ws by (simp add: g split: prod.splits)
  qed
qed

end

locale codec = stable_decoder dec ok for dec :: "bytes \<Rightarrow> ('a \<times> nat) option" and ok +
  fixes enc :: "'a \<Rightarrow> bytes"
    and wf :: "'a \<Rightarrow> bool"
  assumes dec_enc: "wf v \<Longrightarrow> ok (enc v @ rest) \<Longrightarrow> dec (enc v @ rest) = Some (v, length (enc v))"
begin

text \<open>Encodings are self-delimiting: no encoding continues another.\<close>

lemma enc_prefix_free:
  assumes "wf v" "wf w" "ok (enc v @ r)" "enc v @ r = enc w @ r'"
  shows "v = w \<and> r = r'"
  using dec_enc [OF assms(1,3)] dec_enc [OF assms(2), of r'] assms by auto

lemma drain_encodings:
  assumes "\<forall>v \<in> set vs. wf v" "ok (concat (map enc vs) @ rest)" "dec rest = None" "length vs < f"
  shows "drain dec f (concat (map enc vs) @ rest) = (vs, rest)"
  using assms
proof (induction vs arbitrary: f)
  case Nil
  then show ?case by (cases f) auto
next
  case (Cons v vs)
  then obtain f' where f: "f = Suc f'" by (cases f) auto
  have ok': "ok (concat (map enc vs) @ rest)"
    using Cons.prems(2) ok_suffix [of "enc v"] by simp
  have "dec (concat (map enc (v # vs)) @ rest) = Some (v, length (enc v))"
    using dec_enc [of v "concat (map enc vs) @ rest"] Cons.prems by simp
  moreover have "drain dec f' (concat (map enc vs) @ rest) = (vs, rest)"
    using Cons ok' by (simp add: f)
  ultimately show ?case by (simp add: f)
qed

end

end
