(* ===== verification/Resp_Correct.thy ===== *)
theory Resp_Correct
  imports Resp_Parse Codec
begin

text \<open>
  Correctness of the incremental parser and of the scanner of \<^verbatim>\<open>src/pkg/proto/resp.go\<close>:
  definite results are stable under more input, the scanner agrees with the parser, parsing
  inverts encoding, and its errors have a cause in the buffer. \<open>ParseValue\<close> is then an instance of the codec contract.
\<close>

section \<open>More input does not change a definite result\<close>

lemma parseBulkAt_ext:
  assumes "parseBulkAt buf pos \<noteq> Inl ErrIncomplete" "go_slice buf" "pos \<le> length buf"
  shows "parseBulkAt (buf @ ext) pos = parseBulkAt buf pos"
proof -
  from assms(1) obtain line e where line: "readLine buf pos = Some (line, e)"
    by (auto simp: parseBulkAt_def split: option.splits)
  have e: "e \<le> length buf" using readLine_Some [OF line assms(3)] by simp
  show ?thesis
  proof (cases "parseIntBytes line")
    case None
    with line readLine_ext [OF line assms(3), of ext] show ?thesis by (simp add: parseBulkAt_def)
  next
    case (Some n)
    let ?need = "wrap64 (wrap64 (int e + n) + 2)"
    show ?thesis
    proof (cases "0 \<le> n \<and> 0 \<le> ?need")
      case True
      then have "?need = int e + n + 2"
        using bulk_need [OF assms(2) e parseIntBytes_range [OF Some]] by simp
      moreover have "?need \<le> int (length buf)"
        using assms(1) line Some True by (auto simp: parseBulkAt_def Let_def split: if_splits)
      ultimately show ?thesis
        using line Some True readLine_ext [OF line assms(3), of ext] by (simp add: parseBulkAt_def)
    next
      case False
      with line Some assms(1) readLine_ext [OF line assms(3), of ext] show ?thesis
        by (auto simp: parseBulkAt_def Let_def)
    qed
  qed
qed

lemma readLine_cases_ext:
  assumes "pos \<le> length buf"
  shows "readLine buf pos = None \<or> readLine (buf @ ext) pos = readLine buf pos"
  using readLine_ext [OF _ assms] by (cases "readLine buf pos") auto

lemma parseArrayAt_ext:
  assumes "\<And>c. p c \<noteq> Inl ErrIncomplete \<Longrightarrow> p' c = p c"
    and "parseArrayAt p buf pos \<noteq> Inl ErrIncomplete" "pos \<le> length buf"
  shows "parseArrayAt p' (buf @ ext) pos = parseArrayAt p buf pos"
proof -
  have "parseArrayAt p' (buf @ ext) pos = parseArrayAt p' buf pos"
    using readLine_cases_ext [OF assms(3), of ext] assms(2)
    by (auto simp: parseArrayAt_def split: option.splits)
  also have "\<dots> = parseArrayAt p buf pos"
    using parseArrayAt_stable [of p ErrIncomplete p'] assms(1,2) by blast
  finally show ?thesis .
qed

lemma parseSimple_ext:
  assumes "pos \<le> length buf"
  shows "parseLineAt mk buf pos \<noteq> Inl ErrIncomplete \<Longrightarrow> parseLineAt mk (buf @ ext) pos = parseLineAt mk buf pos"
    and "parseIntegerAt buf pos \<noteq> Inl ErrIncomplete \<Longrightarrow> parseIntegerAt (buf @ ext) pos = parseIntegerAt buf pos"
    and "parseInlineAt buf pos \<noteq> Inl ErrIncomplete \<Longrightarrow> parseInlineAt (buf @ ext) pos = parseInlineAt buf pos"
  using readLine_cases_ext [OF assms, of ext] by (auto simp: at_defs)

lemma parseValueAt_ext:
  "parseValueAt f buf pos \<noteq> Inl ErrIncomplete \<Longrightarrow> go_slice buf \<Longrightarrow>
   parseValueAt f (buf @ ext) pos = parseValueAt f buf pos"
proof (induction f arbitrary: pos)
  case 0
  then show ?case by simp
next
  case (Suc f)
  have pos: "pos < length buf" using Suc.prems(1) by (auto simp: parseValueAt_Suc split: if_splits)
  then have nth: "(buf @ ext) ! pos = buf ! pos" by (simp add: nth_append)
  have arr: "parseArrayAt (parseValueAt f (buf @ ext)) (buf @ ext) (Suc pos)
      = parseArrayAt (parseValueAt f buf) buf (Suc pos)"
    if "parseArrayAt (parseValueAt f buf) buf (Suc pos) \<noteq> Inl ErrIncomplete"
    using parseArrayAt_ext [of "parseValueAt f buf" "parseValueAt f (buf @ ext)"] Suc that pos by simp
  show ?case
    using Suc.prems pos arr
    by (auto simp: parseValueAt_Suc nth Let_def parseSimple_ext parseBulkAt_ext)
qed


section \<open>The scanner agrees with the parser\<close>

definition value_kind :: "Value \<Rightarrow> ErrorKind" where
  "value_kind v = (if IsError v then scanKind (vStr v) else ErrorKindNone)"

text \<open>
  A complete value has the same end in both, an incomplete one is incomplete in both. The
  scanner does not validate integers and blank lines, so it may pass where the parser rejects.
\<close>

definition scan_agrees :: "perr + (Value \<times> nat) \<Rightarrow> scan_result \<Rightarrow> bool" where
  "scan_agrees r s \<longleftrightarrow>
     (case r of
        Inr (v, n) \<Rightarrow> s = Inr (int n, value_kind v, Error v)
      | Inl ErrIncomplete \<Rightarrow> s = scanNone 0
      | Inl _ \<Rightarrow> True)"

lemma scan_agrees_simps [simp]:
  "scan_agrees (Inr (v, n)) s \<longleftrightarrow> s = Inr (int n, value_kind v, Error v)"
  "scan_agrees (Inl ErrIncomplete) s \<longleftrightarrow> s = scanNone 0"
  "scan_agrees (Inl ErrInvalidProtocol) s" "scan_agrees (Inl Panic) s" "scan_agrees (Inl OutOfFuel) s"
  by (simp_all add: scan_agrees_def)

lemma non_error_kind [simp]:
  "value_kind (SimpleV s) = ErrorKindNone" "value_kind (IntValue n) = ErrorKindNone"
  "value_kind (BulkV s) = ErrorKindNone" "value_kind NilBulk = ErrorKindNone"
  "value_kind NilArray = ErrorKindNone" "value_kind (ArrayV a) = ErrorKindNone"
  "value_kind (ErrValue s) = scanKind s"
  "Error (SimpleV s) = []" "Error (IntValue n) = []" "Error (BulkV s) = []"
  "Error NilBulk = []" "Error NilArray = []" "Error (ArrayV a) = []" "Error (ErrValue s) = s"
  by (simp_all add: value_kind_def Error_def IsError_def value_defs)

text \<open>Element loops agree when the element parsers do.\<close>

definition elems_agree :: "perr + (Value option list \<times> nat) \<Rightarrow> scan_result \<Rightarrow> bool" where
  "elems_agree r s \<longleftrightarrow>
     (case r of
        Inr (arr, n) \<Rightarrow> s = scanNone (int n)
      | Inl ErrIncomplete \<Rightarrow> s = scanNone 0
      | Inl _ \<Rightarrow> True)"

lemma parseElems_scan:
  assumes "\<And>c. scan_agrees (p c) (q (int c))" "\<And>c v n. p c = Inr (v, n) \<Longrightarrow> 0 < n"
  shows "elems_agree (parseElems p k cur arr) (scanElems q k (int cur))"
proof (induction k arbitrary: cur arr)
  case 0
  then show ?case by (simp add: elems_agree_def)
next
  case (Suc k)
  show ?case
  proof (cases "p cur")
    case (Inl e)
    then show ?thesis using assms(1) [of cur] by (cases e) (auto simp: elems_agree_def scanNone_def)
  next
    case (Inr vn)
    then obtain v n where vn: "p cur = Inr (v, n)" by (cases vn) auto
    then have "0 < n" "q (int cur) = Inr (int n, value_kind v, Error v)"
      using assms(1) [of cur] assms(2) by auto
    with vn Suc.IH show ?thesis by simp
  qed
qed

lemma elems_agree_array:
  "elems_agree r s \<Longrightarrow>
   scan_agrees (case r of Inl e \<Rightarrow> Inl e | Inr (arr, cur) \<Rightarrow> Inr (ArrayV arr, cur)) s"
  by (auto simp: elems_agree_def scan_agrees_def scanNone_def split: sum.splits perr.splits prod.splits)

lemma parseArrayAt_scan:
  assumes "\<And>c. scan_agrees (p c) (q (int c))" "\<And>c v n. p c = Inr (v, n) \<Longrightarrow> 0 < n"
  shows "scan_agrees (parseArrayAt p buf pos) (scanArrayAt q buf pos)"
proof -
  have "elems_agree (parseElems p k cur arr) (scanElems q k (int cur))" for k cur arr
    using parseElems_scan [of p q] assms by blast
  note agree = elems_agree_array [OF this]
  show ?thesis
    using agree by (auto simp: parseArrayAt_def scanArrayAt_def scanNone_def split: option.splits)
qed

lemma parseBulkAt_scan: "scan_agrees (parseBulkAt buf pos) (scanBulkAt buf pos)"
  by (auto simp: parseBulkAt_def scanBulkAt_def scanNone_def Let_def split: option.splits)

lemma parseInlineAt_scan: "scan_agrees (parseInlineAt buf pos) (scanInlineAt buf pos)"
  by (auto simp: parseInlineAt_def scanInlineAt_def scanNone_def readLine_def Let_def split: option.splits)

lemma parseValueAt_scan:
  "go_slice buf \<Longrightarrow> scan_agrees (parseValueAt f buf pos) (scanValueAt f buf (int pos))"
proof (induction f arbitrary: pos)
  case 0
  then show ?case by simp
next
  case (Suc f)
  have "0 < n" if "parseValueAt f buf c = Inr (v, n)" for c v n
    using parseValueAt_progress [OF that Suc.prems] by simp
  then have arr: "scan_agrees (parseArrayAt (parseValueAt f buf) buf q) (scanArrayAt (scanValueAt f buf) buf q)" for q
    using parseArrayAt_scan [of "parseValueAt f buf" "scanValueAt f buf"] Suc by blast
  show ?case
    by (auto simp: parseValueAt_Suc Let_def arr parseBulkAt_scan parseInlineAt_scan parseLineAt_def
        parseIntegerAt_def scanLineAt_def scanErrorAt_def scanNone_def split: option.splits)
qed



section \<open>Parsing inverts encoding\<close>

text \<open>
  The values a parse can return: the unused fields are zero, a line holds no newline, an
  integer is in range, and an array can be allocated and has no nil element.
\<close>

inductive wf_value :: "Value \<Rightarrow> bool" where
  wf_simple: "LF \<notin> set s \<Longrightarrow> wf_value (SimpleV s)"
| wf_error: "LF \<notin> set s \<Longrightarrow> wf_value (ErrValue s)"
| wf_int: "in_int64 n \<Longrightarrow> wf_value (IntValue n)"
| wf_bulk: "wf_value (BulkV s)"
| wf_nil_bulk: "wf_value NilBulk"
| wf_nil_array: "wf_value NilArray"
| wf_array: "\<forall>v \<in> set vs. wf_value v \<Longrightarrow> 8 * int (length vs) \<le> maxAlloc \<Longrightarrow>
    wf_value (ArrayV (map Some vs))"

lemma go_slice_in_int64: "go_slice buf \<Longrightarrow> k \<le> length buf \<Longrightarrow> in_int64 (int k)"
  by (simp add: go_slice_def maxAlloc_def in_int64_def)

lemma go_slice_append: "go_slice (xs @ ys) \<Longrightarrow> go_slice xs" "go_slice (xs @ ys) \<Longrightarrow> go_slice ys"
  by (simp_all add: go_slice_def)

lemma fmt_int_minus_1: "fmt_int (- 1) = ''-1''"
  by (simp add: fmt_int_def fmt_nat.simps)

lemma parseIntBytes_minus_1: "parseIntBytes ''-1'' = Some (- 1)"
  using parseIntBytes_fmt_int [of "- 1"] by (simp add: fmt_int_minus_1 in_int64_def)

text \<open>The line of a length or integer prefix, at a position of the buffer.\<close>

lemma readLine_int:
  "readLine (pre @ c # fmt_int n @ CR # LF # rest) (Suc (length pre)) =
     Some (fmt_int n, length pre + length (fmt_int n) + 3)"
  using readLine_append [of "fmt_int n" "pre @ [c]" rest] by simp

lemma readLine_str:
  "LF \<notin> set s \<Longrightarrow> readLine (pre @ c # s @ CR # LF # rest) (Suc (length pre)) =
     Some (s, length pre + length s + 3)"
  using readLine_append [of s "pre @ [c]" rest] by simp

lemma parseBulkAt_encoded:
  assumes "go_slice (pre @ EncodeBulkString d @ rest)"
  shows "parseBulkAt (pre @ EncodeBulkString d @ rest) (Suc (length pre)) =
     Inr (BulkV d, length pre + length (EncodeBulkString d))"
proof -
  let ?n = "int (length d)"
  let ?e = "length pre + length (fmt_int ?n) + 3"
  let ?buf = "pre @ EncodeBulkString d @ rest"
  have "length d \<le> length ?buf" "?e + length d + 2 \<le> length ?buf" by (simp_all add: enc_simps)
  then have n: "in_int64 ?n" and need: "in_int64 (int ?e + ?n + 2)"
    using go_slice_in_int64 [OF assms, of "length d"] go_slice_in_int64 [OF assms, of "?e + length d + 2"]
    by (simp_all add: ac_simps)
  have "readLine ?buf (Suc (length pre)) = Some (fmt_int ?n, ?e)"
    using readLine_int [of pre "CHR ''$''" ?n "d @ CR # LF # rest"] by (simp add: enc_simps)
  moreover have "wrap64 (wrap64 (int ?e + ?n) + 2) = int ?e + ?n + 2"
    using need by (simp only: wrap64_add_left wrap64_id)
  moreover have "take (length d) (drop ?e ?buf) = d"
  proof -
    have "?buf = (pre @ ''$'' @ fmt_int ?n @ CRLF) @ d @ CRLF @ rest" by (simp add: enc_simps)
    moreover have "?e = length (pre @ ''$'' @ fmt_int ?n @ CRLF)" by simp
    ultimately show ?thesis by (metis append_eq_conv_conj)
  qed
  ultimately show ?thesis using n by (simp add: parseBulkAt_def enc_simps)
qed

lemma parseElems_encoded:
  assumes "\<And>v pre rest. v \<in> set vs \<Longrightarrow> buf = pre @ enc v @ rest \<Longrightarrow> b \<le> length pre \<Longrightarrow>
      p (length pre) = Inr (v, length pre + length (enc v))"
  shows "buf = pre @ concat (map enc vs) @ rest \<Longrightarrow> b \<le> length pre \<Longrightarrow>
    parseElems p (length vs) (length pre) arr =
      Inr (arr @ map Some vs, length pre + length (concat (map enc vs)))"
  using assms
proof (induction vs arbitrary: pre arr)
  case Nil
  then show ?case by simp
next
  case (Cons v vs)
  have "p (length pre) = Inr (v, length pre + length (enc v))"
    using Cons.prems(3) [of v pre "concat (map enc vs) @ rest"] Cons.prems(1,2) by simp
  moreover have "parseElems p (length vs) (length (pre @ enc v)) (arr @ [Some v]) =
      Inr ((arr @ [Some v]) @ map Some vs, length (pre @ enc v) + length (concat (map enc vs)))"
    by (rule Cons.IH [OF _ _ Cons.prems(3)]) (use Cons.prems(1,2) in auto)
  ultimately show ?case by simp
qed

lemma parseArrayAt_encoded:
  assumes "\<And>v pre' rest'. v \<in> set vs \<Longrightarrow> buf = pre' @ EncodeValue (Some v) @ rest' \<Longrightarrow>
      Suc (length pre) \<le> length pre' \<Longrightarrow>
      p (length pre') = Inr (v, length pre' + length (EncodeValue (Some v)))"
    and "8 * int (length vs) \<le> maxAlloc" and "buf = pre @ EncodeValue (Some (ArrayV (map Some vs))) @ rest"
  shows "parseArrayAt p buf (Suc (length pre)) =
    Inr (ArrayV (map Some vs), length pre + length (EncodeValue (Some (ArrayV (map Some vs)))))"
proof -
  let ?n = "int (length vs)"
  let ?enc = "\<lambda>v. EncodeValue (Some v)"
  let ?pre = "pre @ ''*'' @ fmt_int ?n @ CRLF"
  have n: "in_int64 ?n" using assms(2) by (simp add: maxAlloc_def in_int64_def)
  have buf: "buf = ?pre @ concat (map ?enc vs) @ rest" using assms(3) by (simp add: enc_simps comp_def)
  have "readLine buf (Suc (length pre)) = Some (fmt_int ?n, length ?pre)"
    using readLine_int [of pre "CHR ''*''" ?n "concat (map ?enc vs) @ rest"] by (simp add: buf)
  moreover have "parseElems p (length vs) (length ?pre) [] =
      Inr ([] @ map Some vs, length ?pre + length (concat (map ?enc vs)))"
  proof (rule parseElems_encoded [where enc = ?enc and b = "Suc (length pre)"])
    show "p (length pre') = Inr (v, length pre' + length (?enc v))"
      if "v \<in> set vs" "buf = pre' @ ?enc v @ rest'" "Suc (length pre) \<le> length pre'" for v pre' rest'
      using that by (rule assms(1))
  qed (use buf in simp_all)
  ultimately show ?thesis
    using n assms(2) by (simp add: parseArrayAt_def enc_simps comp_def)
qed

lemma parseValueAt_Suc_at:
  "parseValueAt (Suc f) (pre @ c # xs) (length pre) =
     (if c = TypeSimpleString then parseLineAt SimpleV (pre @ c # xs) (Suc (length pre))
      else if c = TypeError then parseLineAt ErrValue (pre @ c # xs) (Suc (length pre))
      else if c = TypeInteger then parseIntegerAt (pre @ c # xs) (Suc (length pre))
      else if c = TypeBulkString then parseBulkAt (pre @ c # xs) (Suc (length pre))
      else if c = TypeArray then
        parseArrayAt (parseValueAt f (pre @ c # xs)) (pre @ c # xs) (Suc (length pre))
      else parseInlineAt (pre @ c # xs) (length pre))"
  by (simp add: parseValueAt_Suc)

lemma parseValueAt_encoded:
  assumes "wf_value v" "go_slice buf" "buf = pre @ EncodeValue (Some v) @ rest" "length buf - length pre < f"
  shows "parseValueAt f buf (length pre) = Inr (v, length pre + length (EncodeValue (Some v)))"
  using assms
proof (induction v arbitrary: f pre rest rule: wf_value.induct)
  case (wf_simple s)
  obtain f' where f: "f = Suc f'" using wf_simple.prems(3) by (cases f) simp_all
  then show ?case using wf_simple
    by (simp add: enc_simps EncodeSimpleString_def parseValueAt_Suc_at parseLineAt_def readLine_str)
next
  case (wf_error s)
  obtain f' where f: "f = Suc f'" using wf_error.prems(3) by (cases f) simp_all
  then show ?case using wf_error
    by (simp add: enc_simps EncodeError_def parseValueAt_Suc_at parseLineAt_def readLine_str)
next
  case (wf_int n)
  obtain f' where f: "f = Suc f'" using wf_int.prems(3) by (cases f) simp_all
  then show ?case using wf_int
    by (simp add: enc_simps EncodeInteger_def parseValueAt_Suc_at parseIntegerAt_def readLine_int)
next
  case (wf_bulk s)
  obtain f' where f: "f = Suc f'" using wf_bulk.prems(3) by (cases f) simp_all
  obtain xs where xs: "EncodeBulkString s = CHR ''$'' # xs" by (simp add: enc_simps)
  have b: "buf = pre @ EncodeBulkString s @ rest" using wf_bulk.prems(2) by (simp add: enc_simps(5))
  have "parseBulkAt buf (Suc (length pre)) = Inr (BulkV s, length pre + length (EncodeBulkString s))"
    using wf_bulk.prems(1) unfolding b by (rule parseBulkAt_encoded)
  moreover have "buf = pre @ CHR ''$'' # (xs @ rest)" using b xs by simp
  ultimately show ?case using f by (simp add: parseValueAt_Suc_at enc_simps(5))
next
  case wf_nil_bulk
  obtain f' where f: "f = Suc f'" using wf_nil_bulk.prems(3) by (cases f) simp_all
  then show ?case
    using wf_nil_bulk.prems(2) readLine_int [of pre "CHR ''$''" "-1" rest]
    by (simp add: enc_simps parseValueAt_Suc_at parseBulkAt_def fmt_int_minus_1 parseIntBytes_minus_1)
next
  case wf_nil_array
  obtain f' where f: "f = Suc f'" using wf_nil_array.prems(3) by (cases f) simp_all
  then show ?case
    using wf_nil_array.prems(2) readLine_int [of pre "CHR ''*''" "-1" rest]
    by (simp add: enc_simps parseValueAt_Suc_at parseArrayAt_def fmt_int_minus_1 parseIntBytes_minus_1)
next
  case (wf_array vs)
  obtain f' where f: "f = Suc f'" using wf_array.prems(3) by (cases f) simp_all
  obtain xs where xs: "EncodeValue (Some (ArrayV (map Some vs))) = CHR ''*'' # xs"
    by (simp add: enc_simps)
  have "parseArrayAt (parseValueAt f' buf) buf (Suc (length pre)) =
      Inr (ArrayV (map Some vs), length pre + length (EncodeValue (Some (ArrayV (map Some vs)))))"
  proof (rule parseArrayAt_encoded [OF _ wf_array.hyps(1) wf_array.prems(2)])
    fix v pre' rest'
    assume v: "v \<in> set vs" and b: "buf = pre' @ EncodeValue (Some v) @ rest'"
      and l: "Suc (length pre) \<le> length pre'"
    have "length pre' \<le> length buf" by (simp add: b)
    then have "length buf - length pre' < f'" using l wf_array.prems(3) f by linarith
    then show "parseValueAt f' buf (length pre') = Inr (v, length pre' + length (EncodeValue (Some v)))"
      using wf_array.IH v wf_array.prems(1) b by blast
  qed
  moreover have "buf = pre @ CHR ''*'' # (xs @ rest)" using wf_array.prems(2) xs by simp
  ultimately show ?case using f by (simp add: parseValueAt_Suc_at)
qed


section \<open>Errors\<close>

text \<open>
  What the errors of the parser tell: \<open>hugeCount\<close>, somewhere a bulk string or an array announces a
  length that no allocation can hold, and \<open>badLine\<close>, somewhere a number is not one or an inline
  line is blank.
\<close>

definition hugeCount :: "bytes \<Rightarrow> bool" where
  "hugeCount buf \<longleftrightarrow> (\<exists>i < length buf. \<exists>line e n. buf ! i \<in> {TypeBulkString, TypeArray} \<and>
     readLine buf (Suc i) = Some (line, e) \<and> parseIntBytes line = Some n \<and> maxAlloc < 8 * n)"

definition badLine :: "bytes \<Rightarrow> bool" where
  "badLine buf \<longleftrightarrow> (\<exists>i < length buf. \<exists>line e.
     buf ! i \<in> {TypeInteger, TypeBulkString, TypeArray} \<and> readLine buf (Suc i) = Some (line, e) \<and> parseIntBytes line = None \<or>
     buf ! i \<notin> {TypeSimpleString, TypeError, TypeInteger, TypeBulkString, TypeArray} \<and>
       readLine buf i = Some (line, e) \<and> trim_space line = [])"

fun explained :: "bytes \<Rightarrow> perr \<Rightarrow> bool" where
  "explained buf Panic = hugeCount buf"
| "explained buf ErrInvalidProtocol = badLine buf"
| "explained buf e = True"

lemma bulk_overflow:
  assumes "go_slice buf" "end \<le> length buf" "in_int64 n" "0 \<le> n" "wrap64 (wrap64 (int end + n) + 2) < 0"
  shows "maxAlloc < 8 * n"
proof (rule ccontr)
  assume "\<not> ?thesis"
  then have "in_int64 (int end + n + 2)" using assms(1-4) by (simp add: in_int64_def go_slice_def maxAlloc_def)
  then have "wrap64 (wrap64 (int end + n) + 2) = int end + n + 2" by (simp add: wrap64_add_left)
  with assms(4,5) show False by simp
qed

lemma parseBulkAt_explained:
  assumes "parseBulkAt buf (Suc i) = Inl e" "go_slice buf" "i < length buf" "buf ! i = TypeBulkString"
  shows "explained buf e"
proof (cases "readLine buf (Suc i)")
  case None
  with assms(1) show ?thesis by (auto simp: parseBulkAt_def)
next
  case (Some x)
  then obtain line en where r: "readLine buf (Suc i) = Some (line, en)" by (cases x) simp
  show ?thesis
  proof (cases "parseIntBytes line")
    case None
    then have "badLine buf" using r assms(3,4) unfolding badLine_def by blast
    moreover have "e = ErrInvalidProtocol" using r None assms(1) by (simp add: parseBulkAt_def)
    ultimately show ?thesis by simp
  next
    case (Some n)
    have en: "en \<le> length buf" using readLine_Some [OF r] assms(3) by simp
    have "e = ErrIncomplete \<or> e = Panic \<and> 0 \<le> n \<and> wrap64 (wrap64 (int en + n) + 2) < 0"
      using r Some assms(1) by (auto simp: parseBulkAt_def Let_def split: if_splits)
    then show ?thesis
    proof
      assume p: "e = Panic \<and> 0 \<le> n \<and> wrap64 (wrap64 (int en + n) + 2) < 0"
      then have "maxAlloc < 8 * n" using bulk_overflow [OF assms(2) en parseIntBytes_range [OF Some]] by simp
      then have "hugeCount buf" using r Some assms(3,4) unfolding hugeCount_def by blast
      with p show ?thesis by simp
    qed simp
  qed
qed

lemma parseElems_explained:
  "parseElems p k cur arr = Inl e \<Longrightarrow> (\<And>c e. p c = Inl e \<Longrightarrow> Q e) \<Longrightarrow> Q e"
  by (induction k arbitrary: cur arr) (auto split: sum.splits)

lemma parseArrayAt_explained:
  assumes "parseArrayAt p buf (Suc i) = Inl e" "i < length buf" "buf ! i = TypeArray"
    and "\<And>c e. p c = Inl e \<Longrightarrow> explained buf e"
  shows "explained buf e"
proof (cases "readLine buf (Suc i)")
  case None
  with assms(1) show ?thesis by (auto simp: parseArrayAt_def)
next
  case (Some x)
  then obtain line en where r: "readLine buf (Suc i) = Some (line, en)" by (cases x) simp
  show ?thesis
  proof (cases "parseIntBytes line")
    case None
    then have "badLine buf" using r assms(2,3) unfolding badLine_def by blast
    moreover have "e = ErrInvalidProtocol" using r None assms(1) by (simp add: parseArrayAt_def)
    ultimately show ?thesis by simp
  next
    case (Some n)
    then have "e = Panic \<and> maxAlloc < 8 * n \<or> parseElems p (nat n) en [] = Inl e"
      using r assms(1) by (auto simp: parseArrayAt_def split: if_splits sum.splits)
    then show ?thesis
    proof
      assume h: "e = Panic \<and> maxAlloc < 8 * n"
      then have "hugeCount buf" using r Some assms(2,3) unfolding hugeCount_def by blast
      with h show ?thesis by simp
    qed (rule parseElems_explained [OF _ assms(4)])
  qed
qed

lemma parseIntegerAt_explained:
  assumes "parseIntegerAt buf (Suc i) = Inl e" "i < length buf" "buf ! i = TypeInteger"
  shows "explained buf e"
proof -
  consider "e = ErrIncomplete" | line en where "readLine buf (Suc i) = Some (line, en)" "parseIntBytes line = None" "e = ErrInvalidProtocol"
    using assms(1) by (auto simp: parseIntegerAt_def split: option.splits)
  then show ?thesis
  proof cases
    case 2
    then have "badLine buf" using assms(2,3) unfolding badLine_def by blast
    with 2 show ?thesis by simp
  qed simp
qed

lemma parseInlineAt_explained:
  assumes "parseInlineAt buf i = Inl e" "i < length buf"
    "buf ! i \<notin> {TypeSimpleString, TypeError, TypeInteger, TypeBulkString, TypeArray}"
  shows "explained buf e"
proof -
  consider "e = ErrIncomplete" | line en where "readLine buf i = Some (line, en)" "trim_space line = []" "e = ErrInvalidProtocol"
    using assms(1) by (auto simp: parseInlineAt_def Let_def split: option.splits if_splits)
  then show ?thesis
  proof cases
    case 2
    then have "badLine buf" using assms(2,3) unfolding badLine_def by blast
    with 2 show ?thesis by simp
  qed simp
qed

lemma parseValueAt_explained:
  "parseValueAt f buf i = Inl e \<Longrightarrow> go_slice buf \<Longrightarrow> explained buf e"
proof (induction f arbitrary: i e)
  case 0
  then show ?case by auto
next
  case (Suc f)
  show ?case
  proof (cases "i < length buf")
    case False
    then show ?thesis using Suc.prems(1) by (auto simp: parseValueAt_Suc)
  next
    case True
    have line: "explained buf e" if "parseLineAt mk buf (Suc i) = Inl e" for mk
      using that by (auto simp: parseLineAt_def split: option.splits)
    note parts = parseIntegerAt_explained [OF _ True] parseBulkAt_explained [OF _ Suc.prems(2) True]
      parseArrayAt_explained [OF _ True _ Suc.IH [OF _ Suc.prems(2)]] parseInlineAt_explained [OF _ True]
    show ?thesis
      using Suc.prems(1) True parts line by (auto simp: parseValueAt_Suc Let_def split: if_splits)
  qed
qed


section \<open>\<open>ParseValue\<close> and \<open>ScanValue\<close>\<close>

text \<open>The outcome of \<open>ParseValue\<close> as the traffic loops use it: a message and its length, or stop.\<close>

definition decodeValue :: "bytes \<Rightarrow> (Value \<times> nat) option" where
  "decodeValue buf = (case ParseValue buf of Inr r \<Rightarrow> r | Inl _ \<Rightarrow> None)"

lemma ParseValue_Some:
  "ParseValue buf = Inr (Some (v, n)) \<longleftrightarrow> parseValueAt (Suc (length buf)) buf 0 = Inr (v, n)"
  by (auto simp: ParseValue_def parseValueAt_Suc [of 0] split: sum.splits perr.splits)

lemma decodeValue_Some: "decodeValue buf = Some (v, n) \<longleftrightarrow> parseValueAt (Suc (length buf)) buf 0 = Inr (v, n)"
  by (simp add: decodeValue_def flip: ParseValue_Some split: sum.splits)

lemma decodeValue_stable:
  assumes "go_slice (buf @ ext)" "decodeValue buf = Some (v, n)"
  shows "decodeValue (buf @ ext) = Some (v, n)"
proof -
  let ?f = "Suc (length buf)" and ?g = "Suc (length (buf @ ext))"
  have p: "parseValueAt ?f buf 0 = Inr (v, n)" using assms(2) by (simp only: decodeValue_Some)
  have "parseValueAt ?f (buf @ ext) 0 = Inr (v, n)"
    using parseValueAt_ext [of ?f buf 0 ext] go_slice_append(1) [OF assms(1)] p by simp
  moreover have "parseValueAt ?g (buf @ ext) 0 = parseValueAt ?f (buf @ ext) 0"
    by (rule parseValueAt_fuel_le) (simp_all add: calculation)
  ultimately show ?thesis by (simp only: decodeValue_Some)
qed

lemma decodeValue_encoded:
  assumes "wf_value v" "go_slice (EncodeValue (Some v) @ rest)"
  shows "decodeValue (EncodeValue (Some v) @ rest) = Some (v, length (EncodeValue (Some v)))"
  unfolding decodeValue_Some
  using parseValueAt_encoded [OF assms, of "[]" rest] by simp

interpretation resp: codec decodeValue go_slice "\<lambda>v. EncodeValue (Some v)" wf_value
proof unfold_locales
  show "0 < n \<and> n \<le> length buf" if "go_slice buf" "decodeValue buf = Some (v, n)" for buf v n
    using that parseValueAt_progress by (simp add: decodeValue_Some)
qed (use go_slice_append decodeValue_stable decodeValue_encoded in blast)+

text \<open>
  C11. A reply encoded by \<open>EncodeValue\<close> is parsed back by \<open>ParseValue\<close>: same value, exactly the
  bytes of the encoding consumed, whatever follows in the buffer.
\<close>

theorem ParseValue_EncodeValue:
  assumes "wf_value v" "go_slice (EncodeValue (Some v) @ rest)"
  shows "ParseValue (EncodeValue (Some v) @ rest) = Inr (Some (v, length (EncodeValue (Some v))))"
  unfolding ParseValue_Some using parseValueAt_encoded [OF assms, of "[]" rest] by simp

theorem ParseValue_EncodeValue_witness:
  "ParseValue (EncodeValue (Some (ArrayV (map Some [BulkV ''k'', IntValue (- 7), ErrValue ''E'']))) @ ''+P'') =
     Inr (Some (ArrayV (map Some [BulkV ''k'', IntValue (- 7), ErrValue ''E'']),
       length (EncodeValue (Some (ArrayV (map Some [BulkV ''k'', IntValue (- 7), ErrValue ''E'']))))))"
proof (rule ParseValue_EncodeValue)
  show "wf_value (ArrayV (map Some [BulkV ''k'', IntValue (- 7), ErrValue ''E'']))"
    by (intro wf_array) (auto intro!: wf_value.intros simp: in_int64_def maxAlloc_def)
  show "go_slice (EncodeValue (Some (ArrayV (map Some [BulkV ''k'', IntValue (- 7), ErrValue ''E'']))) @ ''+P'')"
    by (simp add: enc_simps go_slice_def maxAlloc_def EncodeInteger_def EncodeError_def fmt_int_def fmt_nat.simps)
qed



text \<open>
  C25. The messages read off a connection do not depend on how the bytes were cut into reads:
  draining the first part and then the rest together with what was left over gives the same
  messages and the same remainder as draining everything at once.
\<close>

theorem ParseValue_chunks:
  assumes "go_slice (a @ b)" "drain decodeValue (Suc (length a)) a = (vs, r)"
  shows "drain decodeValue (Suc (length (a @ b))) (a @ b) =
    (case drain decodeValue (Suc (length (a @ b))) (r @ b) of (ws, r') \<Rightarrow> (vs @ ws, r'))"
  using assms(1) _ _ assms(2) by (rule resp.drain_chunks) simp_all

theorem ParseValue_chunks_witness:
  "drain decodeValue 7 (''+A'' @ CRLF @ '':1'') = ([SimpleV ''A''], '':1'') \<and>
   drain decodeValue 9 (''+A'' @ CRLF @ '':1'' @ CRLF) = ([SimpleV ''A'', IntValue 1], [])"
proof -
  have a: "drain decodeValue 7 (''+A'' @ CRLF @ '':1'') = ([SimpleV ''A''], '':1'')" by code_simp
  have b: "drain decodeValue 9 ('':1'' @ CRLF) = ([IntValue 1], [])" by code_simp
  show ?thesis
    using ParseValue_chunks [of "''+A'' @ CRLF @ '':1''" CRLF "[SimpleV ''A'']" "'':1''"] a b
    by (simp add: go_slice_def maxAlloc_def eval_nat_numeral del: drain.simps)
qed

text \<open>
  C24. The scanner that the backend connections use finds the boundary of the parser: whatever
  \<open>ParseValue\<close> accepts, \<open>ScanValue\<close> cuts off at the same length, with the kind and the text of
  an error reply; and it asks for more data whenever the parser does.
\<close>

theorem ScanValue_ParseValue:
  assumes "go_slice buf"
  shows "case ParseValue buf of
      Inr (Some (v, n)) \<Rightarrow> ScanValue buf = Inr (int n, value_kind v, Error v)
    | Inr None \<Rightarrow> ScanValue buf = Inr (0, ErrorKindNone, [])
    | Inl _ \<Rightarrow> True"
proof (cases "buf = []")
  case True
  then show ?thesis by (simp add: ParseValue_def ScanValue_def scanNone_def)
next
  case False
  have "scan_agrees (parseValueAt (Suc (length buf)) buf 0) (ScanValue buf)"
    using parseValueAt_scan [OF assms, of "Suc (length buf)" 0]
    by (simp add: ScanValue_def del: scanValueAt.simps)
  with False show ?thesis
    by (auto simp: ParseValue_def scan_agrees_def scanNone_def split: sum.splits perr.splits)
qed

theorem ScanValue_ParseValue_witness:
  "ParseValue (''-MOVED 7 h:1'' @ CRLF @ '':1'') = Inr (Some (ErrValue ''MOVED 7 h:1'', 14)) \<and>
   ScanValue (''-MOVED 7 h:1'' @ CRLF @ '':1'') = Inr (14, ErrorKindMoved, ''MOVED 7 h:1'')"
proof -
  have "ParseValue (''-MOVED 7 h:1'' @ CRLF @ '':1'') = Inr (Some (ErrValue ''MOVED 7 h:1'', 14))"
    by code_simp
  then show ?thesis
    using ScanValue_ParseValue [of "''-MOVED 7 h:1'' @ CRLF @ '':1''"]
    by (simp add: go_slice_def maxAlloc_def scanKind_def has_prefix_def)
qed

end
