(* ===== verification/Request.thy ===== *)
theory Request
  imports Resp_Correct
begin

text \<open>
  Client requests, \<^verbatim>\<open>src/pkg/proto/resp.go\<close>: \<open>ParseRequest\<close> with its direct multibulk parser
  and its inline parser. The arguments of a multibulk request are slices of the copy \<open>Raw\<close> of
  the request, so that upper-casing the command name in place also changes \<open>Raw\<close>; the
  arguments of an inline request are copies. Both are explicit here: an argument is a
  reference into \<open>Raw\<close> or bytes of its own.
\<close>

section \<open>Definitions\<close>

record Request =
  Args :: "bytes list"
  Raw :: bytes
  Cmd :: bytes

definition Name :: "Request \<Rightarrow> bytes" where
  "Name r = Cmd r"

datatype argref = InRaw nat nat | Own bytes

fun deref :: "bytes \<Rightarrow> argref \<Rightarrow> bytes" where
  "deref raw (InRaw start len) = take len (drop start raw)"
| "deref raw (Own b) = b"

text \<open>\<^verbatim>\<open>upperASCIIInPlace\<close> on an argument: the bytes it refers to change where they are.\<close>

fun upperASCIIInPlace :: "bytes \<Rightarrow> argref \<Rightarrow> bytes \<times> argref" where
  "upperASCIIInPlace raw (InRaw start len) =
     (take start raw @ to_upper (take len (drop start raw)) @ drop (start + len) raw, InRaw start len)"
| "upperASCIIInPlace raw (Own b) = (raw, Own (to_upper b))"

text \<open>
  The loop over the \<open>k\<close> bulk strings still to read. An empty argument keeps its slice of the
  input buffer; it has no bytes, so it is an \<open>Own []\<close>.
\<close>

fun parseArgs :: "bytes \<Rightarrow> nat \<Rightarrow> nat \<Rightarrow> argref list \<Rightarrow> perr + (argref list \<times> nat)" where
  "parseArgs buf 0 cur args = Inr (args, cur)"
| "parseArgs buf (Suc k) cur args =
     (if cur \<ge> length buf \<or> buf ! cur \<noteq> TypeBulkString then Inl ErrIncomplete
      else (case readLine buf (cur + 1) of
         None \<Rightarrow> Inl ErrIncomplete
       | Some (bline, bend) \<Rightarrow>
          (case parseIntBytes bline of
             None \<Rightarrow> Inl ErrInvalidProtocol
           | Some blen \<Rightarrow>
              if blen < 0 then Inl ErrInvalidProtocol
              else (let need = wrap64 (wrap64 (int bend + blen) + 2)
                    in if need > int (length buf) then Inl ErrIncomplete
                       else if need < 0 then Inl Panic
                       else parseArgs buf k (nat need)
                         (args @ [if blen = 0 then Own [] else InRaw bend (nat blen)])))))"

definition parseInlineRequest :: "bytes \<Rightarrow> perr + (argref list \<times> bytes \<times> nat)" where
  "parseInlineRequest buf =
     (case index_byte LF buf of
        None \<Rightarrow> Inl ErrIncomplete
      | Some idx \<Rightarrow>
         (let line = trim_space (strip_cr (take idx buf))
          in if line = [] then Inl ErrInvalidProtocol
             else Inr (map Own (Fields line), take (idx + 1) buf, idx + 1)))"

definition parseRequestDirect :: "bytes \<Rightarrow> perr + (argref list \<times> bytes \<times> nat)" where
  "parseRequestDirect buf =
     (if buf = [] then Inl ErrIncomplete
      else if hd buf \<noteq> TypeArray then parseInlineRequest buf
      else (case readLine buf 1 of
         None \<Rightarrow> Inl ErrIncomplete
       | Some (line, pos) \<Rightarrow>
          (case parseIntBytes line of
             None \<Rightarrow> Inl ErrInvalidProtocol
           | Some n \<Rightarrow>
              if n \<le> 0 then Inl ErrInvalidProtocol
              else if 24 * n > maxAlloc then Inl Panic
              else (case parseArgs buf (nat n) pos [] of
                      Inl e \<Rightarrow> Inl e
                    | Inr (args, cur) \<Rightarrow> Inr (args, take cur buf, cur)))))"

definition mkRequest :: "argref list \<Rightarrow> bytes \<Rightarrow> Request" where
  "mkRequest args raw =
     (case args of
        [] \<Rightarrow> \<lparr>Args = [], Raw = raw, Cmd = []\<rparr>
      | a # as \<Rightarrow>
         (case upperASCIIInPlace raw a of
            (raw', a') \<Rightarrow>
              \<lparr>Args = map (deref raw') (a' # as), Raw = raw', Cmd = deref raw' a'\<rparr>))"

definition ParseRequest :: "bytes \<Rightarrow> perr + (Request \<times> nat) option" where
  "ParseRequest buf =
     (if buf = [] then Inr None
      else (case parseRequestDirect buf of
              Inl ErrIncomplete \<Rightarrow> Inr None
            | Inl e \<Rightarrow> Inl e
            | Inr (args, raw, n) \<Rightarrow> Inr (Some (mkRequest args raw, n))))"


section \<open>Progress and stability\<close>

lemma parseArgs_progress:
  "parseArgs buf k cur args = Inr (args', c) \<Longrightarrow> go_slice buf \<Longrightarrow> cur \<le> length buf \<Longrightarrow>
   cur \<le> c \<and> c \<le> length buf \<and> length args' = length args + k"
proof (induction k arbitrary: cur args)
  case 0
  then show ?case by simp
next
  case (Suc k)
  let ?need = "\<lambda>e n. wrap64 (wrap64 (int e + n) + 2)"
  from Suc.prems(1) obtain line e n where
    *: "cur < length buf" "readLine buf (cur + 1) = Some (line, e)" "parseIntBytes line = Some n" "0 \<le> n"
      "0 \<le> ?need e n" "?need e n \<le> int (length buf)"
      "parseArgs buf k (nat (?need e n)) (args @ [if n = 0 then Own [] else InRaw e (nat n)]) = Inr (args', c)"
    by (auto simp: Let_def split: if_splits option.splits)
  have e: "cur < e" "e \<le> length buf" using readLine_Some [OF *(2)] *(1) by auto
  have "?need e n = int e + n + 2"
    using bulk_need [OF Suc.prems(2) e(2) parseIntBytes_range [OF *(3)] *(4) *(5)] .
  with e *(4) have "cur \<le> nat (?need e n)" by simp
  moreover have "nat (?need e n) \<le> length buf" using *(6) by linarith
  ultimately show ?case using Suc.IH [OF *(7) Suc.prems(2)] by auto
qed

lemma parseArgs_ext:
  "parseArgs buf k cur args = Inr r \<Longrightarrow> go_slice buf \<Longrightarrow> parseArgs (buf @ ext) k cur args = Inr r"
proof (induction k arbitrary: cur args)
  case 0
  then show ?case by simp
next
  case (Suc k)
  let ?need = "\<lambda>e n. wrap64 (wrap64 (int e + n) + 2)"
  from Suc.prems(1) obtain line e n where
    *: "cur < length buf" "buf ! cur = TypeBulkString" "readLine buf (cur + 1) = Some (line, e)"
      "parseIntBytes line = Some n" "0 \<le> n" "0 \<le> ?need e n" "?need e n \<le> int (length buf)"
      "parseArgs buf k (nat (?need e n)) (args @ [if n = 0 then Own [] else InRaw e (nat n)]) = Inr r"
    by (auto simp: Let_def split: if_splits option.splits)
  have "readLine (buf @ ext) (cur + 1) = Some (line, e)"
    by (rule readLine_ext [OF *(3)]) (use *(1) in simp)
  moreover have "\<not> length (buf @ ext) \<le> cur" "(buf @ ext) ! cur = TypeBulkString"
    using *(1,2) by (simp_all add: nth_append)
  moreover have "\<not> int (length (buf @ ext)) < ?need e n" "\<not> ?need e n < 0" "\<not> n < 0"
    using *(5-7) by simp_all
  ultimately show ?case
    using Suc.IH [OF *(8) Suc.prems(2)] *(4) by (simp only: parseArgs.simps Let_def) simp
qed

definition decodeRequest :: "bytes \<Rightarrow> (Request \<times> nat) option" where
  "decodeRequest buf = (case ParseRequest buf of Inr r \<Rightarrow> r | Inl _ \<Rightarrow> None)"

lemma ParseRequest_Some:
  "ParseRequest buf = Inr (Some (r, n)) \<longleftrightarrow>
     (\<exists>args raw. parseRequestDirect buf = Inr (args, raw, n) \<and> r = mkRequest args raw)"
  by (cases "parseRequestDirect buf")
    (auto simp: ParseRequest_def parseRequestDirect_def [of "[]"] split: perr.splits)

lemma decodeRequest_Some: "decodeRequest buf = Some (r, n) \<longleftrightarrow> ParseRequest buf = Inr (Some (r, n))"
  by (simp add: decodeRequest_def split: sum.splits)

lemma parseRequestDirect_Some:
  assumes "parseRequestDirect buf = Inr (args, raw, n)" "go_slice buf"
  shows "0 < n \<and> n \<le> length buf \<and> args \<noteq> [] \<and> raw = take n buf"
proof (cases "hd buf = TypeArray")
  case True
  with assms(1) obtain line pos k where
    *: "buf \<noteq> []" "readLine buf 1 = Some (line, pos)" "parseIntBytes line = Some k" "0 < k"
      "parseArgs buf (nat k) pos [] = Inr (args, n)" "raw = take n buf"
    by (auto simp: parseRequestDirect_def split: option.splits if_splits sum.splits)
  have "1 \<le> length buf" using *(1) by (cases buf) auto
  with readLine_Some [OF *(2)] have "1 < pos" "pos \<le> length buf" by auto
  with parseArgs_progress [OF *(5) assms(2)] *(4,6) show ?thesis by auto
next
  case False
  with assms(1) show ?thesis
    by (auto simp: parseRequestDirect_def parseInlineRequest_def Let_def index_byte_Some
        dest: trim_space_Fields split: if_splits option.splits)
qed

lemma parseInlineRequest_ext:
  assumes "parseInlineRequest buf = Inr r" shows "parseInlineRequest (buf @ ext) = Inr r"
proof -
  from assms obtain idx where idx: "index_byte LF buf = Some idx"
    by (auto simp: parseInlineRequest_def split: option.splits)
  then have "idx < length buf" by (simp add: index_byte_Some)
  then have "take idx (buf @ ext) = take idx buf" "take (idx + 1) (buf @ ext) = take (idx + 1) buf" by simp_all
  with assms idx index_byte_ext [OF idx, of ext] show ?thesis
    by (simp add: parseInlineRequest_def Let_def del: take_append split: if_splits)
qed

lemma parseRequestDirect_ext:
  assumes "parseRequestDirect buf = Inr (args, raw, n)" "go_slice buf"
  shows "parseRequestDirect (buf @ ext) = Inr (args, raw, n)"
proof (cases "hd buf = TypeArray")
  case True
  with assms(1) obtain line pos k where
    *: "buf \<noteq> []" "readLine buf 1 = Some (line, pos)" "parseIntBytes line = Some k" "0 < k"
      "24 * k \<le> maxAlloc" "parseArgs buf (nat k) pos [] = Inr (args, n)" "raw = take n buf"
    by (auto simp: parseRequestDirect_def split: option.splits if_splits sum.splits)
  have "readLine (buf @ ext) 1 = Some (line, pos)"
    by (rule readLine_ext [OF *(2)]) (use *(1) in \<open>cases buf; simp\<close>)
  moreover have "n \<le> length buf" using parseRequestDirect_Some [OF assms] by simp
  ultimately show ?thesis
    using * True parseArgs_ext [OF *(6) assms(2), of ext] by (simp add: parseRequestDirect_def)
next
  case False
  with assms(1) have "buf \<noteq> []" "parseInlineRequest buf = Inr (args, raw, n)"
    by (auto simp: parseRequestDirect_def split: if_splits)
  with False parseInlineRequest_ext show ?thesis by (simp add: parseRequestDirect_def)
qed


section \<open>Encoded requests\<close>

text \<open>The references that the loop collects for encoded arguments starting at a position.\<close>

fun arg_refs :: "nat \<Rightarrow> bytes list \<Rightarrow> argref list" where
  "arg_refs pos [] = []"
| "arg_refs pos (a # as) =
     (if a = [] then Own [] else InRaw (pos + length (fmt_int (int (length a))) + 3) (length a))
     # arg_refs (pos + length (EncodeBulkString a)) as"

lemma parseArgs_encoded:
  assumes "go_slice buf"
  shows "buf = pre @ concat (map EncodeBulkString as) @ rest \<Longrightarrow>
    parseArgs buf (length as) (length pre) args =
      Inr (args @ arg_refs (length pre) as, length pre + length (concat (map EncodeBulkString as)))"
proof (induction as arbitrary: pre args)
  case Nil
  then show ?case by simp
next
  case (Cons a as)
  let ?n = "int (length a)"
  define e where "e = length pre + length (fmt_int ?n) + 3"
  have buf: "buf = pre @ CHR ''$'' # fmt_int ?n @ CR # LF # a @ CRLF @ concat (map EncodeBulkString as) @ rest"
    using Cons.prems EncodeBulkString_eq [of a] by simp
  have len: "length a \<le> length buf" "e + length a + 2 \<le> length buf" by (simp_all add: buf e_def)
  have n: "in_int64 ?n" and need: "in_int64 (int e + ?n + 2)"
    using go_slice_in_int64 [OF assms len(1)] go_slice_in_int64 [OF assms len(2)] by (simp_all add: ac_simps)
  have w: "wrap64 (wrap64 (int e + ?n) + 2) = int e + ?n + 2"
    using need by (simp add: wrap64_add_left)
  have r: "readLine buf (Suc (length pre)) = Some (fmt_int ?n, e)"
    unfolding buf e_def by (simp add: readLine_int)
  have "\<not> length buf \<le> length pre" "buf ! length pre = CHR ''$''" by (simp_all add: buf)
  moreover have "\<not> int (length buf) < int e + ?n + 2" using len(2) by linarith
  moreover have "nat (int e + ?n + 2) = e + length a + 2" by simp
  ultimately have step: "parseArgs buf (Suc (length as)) (length pre) args =
      parseArgs buf (length as) (e + length a + 2) (args @ [if a = [] then Own [] else InRaw e (length a)])"
    using r n w by (simp add: Let_def)
  let ?pre = "pre @ EncodeBulkString a"
  have l: "length ?pre = e + length a + 2" by (simp add: enc_simps e_def)
  have "buf = ?pre @ concat (map EncodeBulkString as) @ rest" using Cons.prems by simp
  from Cons.IH [OF this] show ?case
    unfolding length_Cons step l [symmetric] by (simp add: e_def)
qed

lemma take_drop_mid: "take (length b) (drop (length a) (a @ b @ c)) = b"
  by simp

lemma upper_mid:
  "upperASCIIInPlace (a @ b @ c) (InRaw (length a) (length b)) = (a @ to_upper b @ c, InRaw (length a) (length b))"
  by simp

lemma deref_arg_refs:
  "map (deref (pre @ concat (map EncodeBulkString as) @ rest)) (arg_refs (length pre) as) = as"
proof (induction as arbitrary: pre)
  case Nil
  then show ?case by simp
next
  case (Cons a as)
  let ?h = "pre @ ''$'' @ fmt_int (int (length a)) @ CRLF"
  let ?t = "CRLF @ concat (map EncodeBulkString as) @ rest"
  have "pre @ concat (map EncodeBulkString (a # as)) @ rest = ?h @ a @ ?t"
    by (simp add: enc_simps)
  moreover have "length pre + length (fmt_int (int (length a))) + 3 = length ?h" by simp
  ultimately have "deref (pre @ concat (map EncodeBulkString (a # as)) @ rest)
      (InRaw (length pre + length (fmt_int (int (length a))) + 3) (length a)) = a"
    by (simp only: deref.simps take_drop_mid)
  with Cons.IH [of "pre @ EncodeBulkString a"] show ?case by simp
qed

lemma arg_refs_length:
  "map length as = map length bs \<Longrightarrow> arg_refs pos as = arg_refs pos bs"
proof (induction as arbitrary: pos bs)
  case Nil
  then show ?case by simp
next
  case (Cons a as)
  then obtain b bs' where bs: "bs = b # bs'" "length a = length b" by (cases bs) auto
  then have "length (EncodeBulkString a) = length (EncodeBulkString b)" by (simp add: enc_simps)
  with Cons bs show ?case by auto
qed

text \<open>The request that an encoded command stands for.\<close>

definition request_of :: "bytes list \<Rightarrow> Request" where
  "request_of args =
     (let as = to_upper (hd args) # tl args
      in \<lparr>Args = as, Raw = EncodeCommandBytes as, Cmd = hd as\<rparr>)"

lemma mkRequest_encoded:
  assumes "args \<noteq> []" and hdr: "hdr = ''*'' @ fmt_int (int (length args)) @ CRLF"
  shows "mkRequest (arg_refs (length hdr) args) (EncodeCommandBytes args) = request_of args"
proof -
  obtain a as where args: "args = a # as" using assms(1) by (cases args) auto
  let ?us = "to_upper a # as"
  let ?h = "hdr @ ''$'' @ fmt_int (int (length a)) @ CRLF"
  let ?t = "CRLF @ concat (map EncodeBulkString as)"
  have raw: "EncodeCommandBytes args = ?h @ a @ ?t" and raw': "EncodeCommandBytes ?us = ?h @ to_upper a @ ?t"
    by (simp_all add: enc_simps args hdr)
  have h: "length hdr + length (fmt_int (int (length a))) + 3 = length ?h" by simp
  obtain r rs where refs: "arg_refs (length hdr) args = r # rs" by (simp add: args)
  have up: "upperASCIIInPlace (EncodeCommandBytes args) r = (EncodeCommandBytes ?us, r)"
  proof (cases "a = []")
    case True
    then show ?thesis using refs by (auto simp: args)
  next
    case False
    then have "r = InRaw (length ?h) (length a)" using refs h by (simp add: args)
    then show ?thesis unfolding raw raw' by (simp only: upper_mid)
  qed
  have "arg_refs (length hdr) ?us = r # rs"
    using refs arg_refs_length [of args ?us] by (simp add: args)
  then have "map (deref (EncodeCommandBytes ?us)) (r # rs) = ?us"
    using deref_arg_refs [of hdr ?us "[]"] by (simp add: enc_simps hdr args)
  with refs up show ?thesis by (simp add: mkRequest_def request_of_def Let_def args)
qed

lemma parseRequestDirect_encoded:
  assumes "args \<noteq> []" "24 * int (length args) \<le> maxAlloc" "go_slice (EncodeCommandBytes args @ rest)"
  shows "parseRequestDirect (EncodeCommandBytes args @ rest) =
    Inr (arg_refs (length (''*'' @ fmt_int (int (length args)) @ CRLF)) args,
         EncodeCommandBytes args, length (EncodeCommandBytes args))"
proof -
  let ?n = "int (length args)"
  let ?h = "''*'' @ fmt_int ?n @ CRLF"
  let ?buf = "EncodeCommandBytes args @ rest"
  have buf: "?buf = ?h @ concat (map EncodeBulkString args) @ rest" by (simp add: enc_simps)
  have "readLine ?buf 1 = Some (fmt_int ?n, length ?h)"
    using readLine_int [of "[]" "CHR ''*''" ?n] by (simp add: enc_simps)
  moreover have "in_int64 ?n" using assms(2) by (simp add: maxAlloc_def in_int64_def)
  moreover have "length (EncodeCommandBytes args) = length ?h + length (concat (map EncodeBulkString args))"
    by (simp add: enc_simps)
  moreover have "?buf \<noteq> []" "hd ?buf = CHR ''*''" by (simp_all add: enc_simps)
  ultimately show ?thesis
    using assms(1,2) parseArgs_encoded [OF assms(3) buf, of "[]"]
    by (simp add: parseRequestDirect_def)
qed

lemma ParseRequest_encoded:
  assumes "args \<noteq> []" "24 * int (length args) \<le> maxAlloc" "go_slice (EncodeCommandBytes args @ rest)"
  shows "ParseRequest (EncodeCommandBytes args @ rest) =
    Inr (Some (request_of args, length (EncodeCommandBytes args)))"
  unfolding ParseRequest_Some
  using parseRequestDirect_encoded [OF assms] mkRequest_encoded [OF assms(1) refl] by force

text \<open>A request as \<open>ParseRequest\<close> makes it: the name is upper case and \<open>Raw\<close> encodes the arguments.\<close>

definition wf_request :: "Request \<Rightarrow> bool" where
  "wf_request r \<longleftrightarrow> Args r \<noteq> [] \<and> 24 * int (length (Args r)) \<le> maxAlloc \<and>
     to_upper (Cmd r) = Cmd r \<and> Cmd r = hd (Args r) \<and> Raw r = EncodeCommandBytes (Args r)"

lemma request_of_wf: "wf_request r \<Longrightarrow> request_of (Args r) = r"
  by (cases r) (auto simp: wf_request_def request_of_def Let_def)

interpretation req: codec decodeRequest go_slice Raw wf_request
proof unfold_locales
  show "0 < n \<and> n \<le> length buf" if "go_slice buf" "decodeRequest buf = Some (r, n)" for buf r n
    using that parseRequestDirect_Some by (auto simp: decodeRequest_Some ParseRequest_Some)
  show "decodeRequest (buf @ ext) = Some (r, n)"
    if "go_slice (buf @ ext)" "decodeRequest buf = Some (r, n)" for buf ext r n
    using that parseRequestDirect_ext go_slice_append(1)
    unfolding decodeRequest_Some ParseRequest_Some by blast
  show "decodeRequest (Raw r @ rest) = Some (r, length (Raw r))"
    if "wf_request r" "go_slice (Raw r @ rest)" for r rest
    using that ParseRequest_encoded [of "Args r" rest] request_of_wf [OF that(1)]
    by (simp add: decodeRequest_Some wf_request_def)
qed (use go_slice_append in blast)+


section \<open>What a parsed request says\<close>

text \<open>
  The bytes of a request and the arguments that they carry: a multibulk request is a count and
  that many bulk strings, each with its length in front and two bytes behind; an inline request is
  a line of words. The numbers are as the parser reads them.
\<close>

definition bulkPiece :: "bytes \<Rightarrow> bytes \<Rightarrow> bool" where
  "bulkPiece p a \<longleftrightarrow> (\<exists>line t. p = (TypeBulkString # line @ [LF]) @ a @ t \<and> LF \<notin> set line \<and> length t = 2 \<and>
     parseIntBytes (strip_cr line) = Some (int (length a)))"

definition multibulk :: "bytes \<Rightarrow> bytes list \<Rightarrow> bool" where
  "multibulk bs as \<longleftrightarrow> (\<exists>line ps. bs = (TypeArray # line @ [LF]) @ concat ps \<and> LF \<notin> set line \<and>
     parseIntBytes (strip_cr line) = Some (int (length as)) \<and> list_all2 bulkPiece ps as)"

definition inlineWords :: "bytes \<Rightarrow> bytes list \<Rightarrow> bool" where
  "inlineWords bs as \<longleftrightarrow> (\<exists>line. bs = line @ [LF] \<and> LF \<notin> set line \<and> hd bs \<noteq> TypeArray \<and> as = Fields (trim_space (strip_cr line)))"

lemma readLine_split:
  assumes "readLine buf pos = Some (l, e)"
  obtains line where "drop pos buf = line @ LF # drop e buf" "LF \<notin> set line" "l = strip_cr line" "e = pos + length line + 1"
proof -
  from assms obtain idx where i: "index_byte LF (drop pos buf) = Some idx" "l = strip_cr (take idx (drop pos buf))" "e = pos + idx + 1"
    by (auto simp: readLine_def split: option.splits)
  then have x: "idx < length (drop pos buf)" "drop pos buf ! idx = LF" "LF \<notin> set (take idx (drop pos buf))"
    unfolding index_byte_Some by blast+
  have "drop pos buf = take idx (drop pos buf) @ LF # drop e buf"
    using id_take_nth_drop [OF x(1)] x(2) i(3) by (simp add: add.commute)
  then show thesis using i x(1,3) by (intro that [of "take idx (drop pos buf)"]) simp_all
qed

text \<open>The references to the arguments in pieces that start at a position.\<close>

fun piece_refs :: "nat \<Rightarrow> (bytes \<times> bytes) list \<Rightarrow> argref list" where
  "piece_refs pos [] = []"
| "piece_refs pos ((p, a) # xs) =
     (if a = [] then Own [] else InRaw (pos + length p - length a - 2) (length a)) # piece_refs (pos + length p) xs"

lemma parseArgs_pieces:
  "parseArgs buf k cur refs = Inr (refs', c) \<Longrightarrow> go_slice buf \<Longrightarrow> cur \<le> length buf \<Longrightarrow>
   \<exists>xs. length xs = k \<and> list_all (\<lambda>(p, a). bulkPiece p a) xs \<and> drop cur buf = concat (map fst xs) @ drop c buf \<and>
     refs' = refs @ piece_refs cur xs \<and> c = cur + length (concat (map fst xs))"
proof (induction k arbitrary: cur refs)
  case (Suc k)
  let ?need = "\<lambda>e n. wrap64 (wrap64 (int e + n) + 2)"
  from Suc.prems(1) obtain l e n where
    *: "cur < length buf" "buf ! cur = TypeBulkString" "readLine buf (cur + 1) = Some (l, e)" "parseIntBytes l = Some n" "0 \<le> n"
      "0 \<le> ?need e n" "?need e n \<le> int (length buf)"
      "parseArgs buf k (nat (?need e n)) (refs @ [if n = 0 then Own [] else InRaw e (nat n)]) = Inr (refs', c)"
    by (auto simp: Let_def split: if_splits option.splits)
  obtain line where line: "drop (cur + 1) buf = line @ LF # drop e buf" "LF \<notin> set line" "l = strip_cr line" "e = cur + 1 + length line + 1"
    by (rule readLine_split [OF *(3)])
  have e: "e \<le> length buf" using readLine_Some [OF *(3)] *(1) by simp
  have need: "?need e n = int e + n + 2"
    using bulk_need [OF Suc.prems(2) e parseIntBytes_range [OF *(4)] *(5,6)] .
  define m where "m = nat n"
  have m: "n = int m" "nat (?need e n) = e + m + 2" "e + m + 2 \<le> length buf" using *(5,7) need by (simp_all add: m_def)
  define a t p where "a = take m (drop e buf)" and "t = take 2 (drop (e + m) buf)" and "p = (TypeBulkString # line @ [LF]) @ a @ t"
  have la: "length a = m" "length t = 2" using m(3) by (simp_all add: a_def t_def)
  have pc: "bulkPiece p a" unfolding bulkPiece_def using p_def line(2,3) *(4) la m(1) by blast
  have "drop e buf = a @ t @ drop (e + m + 2) buf"
    unfolding a_def t_def by (metis append_take_drop_id drop_drop add.commute)
  then have d: "drop cur buf = p @ drop (e + m + 2) buf"
    using Cons_nth_drop_Suc [OF *(1)] *(2) line(1) by (simp add: p_def)
  have lp: "length p = e + m + 2 - cur" "cur + length p = e + m + 2" "cur + length p - length a - 2 = e"
    by (simp_all add: p_def la line(4))
  obtain xs where xs: "length xs = k" "list_all (\<lambda>(p, a). bulkPiece p a) xs" "drop (e + m + 2) buf = concat (map fst xs) @ drop c buf"
    "refs' = (refs @ [if n = 0 then Own [] else InRaw e (nat n)]) @ piece_refs (e + m + 2) xs"
    "c = e + m + 2 + length (concat (map fst xs))"
    using Suc.IH [OF *(8) Suc.prems(2)] m by auto
  have "a = [] \<longleftrightarrow> n = 0" using la(1) m(1) by auto
  then have "refs' = refs @ piece_refs cur ((p, a) # xs)" using xs(4) lp la(1) m(1) by simp
  moreover have "drop cur buf = concat (map fst ((p, a) # xs)) @ drop c buf" using d xs(3) by simp
  moreover have "c = cur + length (concat (map fst ((p, a) # xs)))" using xs(5) lp(2) by simp
  ultimately show ?case using xs(1,2) pc by (intro exI [of _ "(p, a) # xs"]) simp
qed simp

lemma deref_pieces:
  "list_all (\<lambda>(p, a). bulkPiece p a) xs \<Longrightarrow> map (deref (pre @ concat (map fst xs) @ rest)) (piece_refs (length pre) xs) = map snd xs"
proof (induction xs arbitrary: pre)
  case (Cons x xs)
  obtain p a where x: "x = (p, a)" by (cases x)
  from Cons.prems obtain line t where p: "p = (TypeBulkString # line @ [LF]) @ a @ t" "length t = 2" by (auto simp: x bulkPiece_def)
  let ?h = "pre @ TypeBulkString # line @ [LF]" and ?t = "t @ concat (map fst xs) @ rest"
  have l: "length pre + length p - length a - 2 = length ?h" using p by simp
  have b: "pre @ concat (map fst (x # xs)) @ rest = ?h @ a @ ?t" by (simp add: x p)
  have "deref (pre @ concat (map fst (x # xs)) @ rest) (InRaw (length pre + length p - length a - 2) (length a)) = a"
    unfolding l b by (simp only: deref.simps take_drop_mid)
  with Cons.IH [of "pre @ p"] Cons.prems show ?case by (simp add: x)
qed simp


text \<open>Upper-casing the name changes its piece in place and leaves the others.\<close>

lemma mkRequest_pieces:
  assumes "list_all (\<lambda>(p, a). bulkPiece p a) ((p, a) # xs)"
  shows "\<exists>q. bulkPiece q (to_upper a) \<and> to_upper q = to_upper p \<and>
    mkRequest (piece_refs (length pre) ((p, a) # xs)) (pre @ concat (map fst ((p, a) # xs))) =
      \<lparr>Args = to_upper a # map snd xs, Raw = pre @ q @ concat (map fst xs), Cmd = to_upper a\<rparr>"
proof -
  from assms obtain line t where p: "p = (TypeBulkString # line @ [LF]) @ a @ t" "length t = 2"
    and l: "LF \<notin> set line" "parseIntBytes (strip_cr line) = Some (int (length a))"
    by (auto simp: bulkPiece_def)
  define q where "q = (TypeBulkString # line @ [LF]) @ to_upper a @ t"
  let ?h = "pre @ TypeBulkString # line @ [LF]" and ?t = "t @ concat (map fst xs)"
  let ?raw = "pre @ concat (map fst ((p, a) # xs))" and ?raw' = "pre @ concat (map fst ((q, to_upper a) # xs))"
  have bq: "bulkPiece q (to_upper a)" unfolding bulkPiece_def using q_def p(2) l by auto
  have u: "to_upper q = to_upper p" by (simp add: q_def p(1) to_upper_def)
  have raw: "?raw = ?h @ a @ ?t" "?raw' = ?h @ to_upper a @ ?t" by (simp_all add: p(1) q_def)
  have lq: "length q = length p" by (simp add: q_def p(1))
  obtain r rs where refs: "piece_refs (length pre) ((p, a) # xs) = r # rs" by simp
  have up: "upperASCIIInPlace ?raw r = (?raw', r)"
  proof (cases "a = []")
    case True
    then show ?thesis using refs by (auto simp: p(1) q_def)
  next
    case False
    have "length pre + length p - length a - 2 = length ?h" using p by simp
    then have "r = InRaw (length ?h) (length a)" using refs False by (simp del: length_append)
    then show ?thesis unfolding raw by (simp only: upper_mid)
  qed
  have "piece_refs (length pre) ((q, to_upper a) # xs) = r # rs"
    using refs unfolding piece_refs.simps lq length_to_upper to_upper_Nil .
  moreover have "list_all (\<lambda>(p, a). bulkPiece p a) ((q, to_upper a) # xs)" using assms bq by simp
  ultimately have "map (deref ?raw') (r # rs) = to_upper a # map snd xs"
    using deref_pieces [of "(q, to_upper a) # xs" pre "[]"] by simp
  then have "mkRequest (r # rs) ?raw = \<lparr>Args = to_upper a # map snd xs, Raw = ?raw', Cmd = to_upper a\<rparr>"
    unfolding mkRequest_def list.case up prod.case by simp
  with bq u refs show ?thesis by auto
qed

lemma multibulk_parsed:
  assumes "go_slice buf" "buf \<noteq> []" "hd buf = TypeArray" "parseRequestDirect buf = Inr (args, raw, n)"
  shows "\<exists>a as. multibulk (take n buf) (a # as) \<and> Args (mkRequest args raw) = to_upper a # as \<and> Cmd (mkRequest args raw) = to_upper a \<and>
    multibulk (Raw (mkRequest args raw)) (to_upper a # as) \<and> to_upper (Raw (mkRequest args raw)) = to_upper (take n buf)"
proof -
  from assms obtain l pos k where
    *: "readLine buf 1 = Some (l, pos)" "parseIntBytes l = Some k" "0 < k" "parseArgs buf (nat k) pos [] = Inr (args, n)" "raw = take n buf"
    by (auto simp: parseRequestDirect_def split: option.splits if_splits sum.splits)
  obtain line where line: "drop 1 buf = line @ LF # drop pos buf" "LF \<notin> set line" "l = strip_cr line" "pos = 1 + length line + 1"
    by (rule readLine_split [OF *(1)])
  let ?h = "TypeArray # line @ [LF]"
  have b: "buf = ?h @ drop pos buf" using line(1) assms(2,3) by (cases buf) auto
  have lh: "length ?h = pos" using line(4) by simp
  have "1 \<le> length buf" using assms(2) by (cases buf) auto
  then have "pos \<le> length buf" using readLine_Some [OF *(1)] by simp
  then obtain xs where xs: "length xs = nat k" "list_all (\<lambda>(p, a). bulkPiece p a) xs" "drop pos buf = concat (map fst xs) @ drop n buf"
    "args = piece_refs pos xs" "n = pos + length (concat (map fst xs))"
    using parseArgs_pieces [OF *(4) assms(1)] by auto
  obtain p a xs' where x: "xs = (p, a) # xs'" using xs(1) *(3) by (cases xs) auto
  have "buf = (?h @ concat (map fst xs)) @ drop n buf" using b xs(3) by simp
  moreover have "length (?h @ concat (map fst xs)) = n" using lh xs(5) by simp
  ultimately have tk: "take n buf = ?h @ concat (map fst xs)" by (metis append_eq_conv_conj)
  obtain q where q: "bulkPiece q (to_upper a)" "to_upper q = to_upper p"
    "mkRequest args raw = \<lparr>Args = to_upper a # map snd xs', Raw = ?h @ q @ concat (map fst xs'), Cmd = to_upper a\<rparr>"
    using mkRequest_pieces [of p a xs' ?h] xs(2,4) *(5) unfolding tk x lh by blast
  have n: "parseIntBytes (strip_cr line) = Some (int (length xs))" using *(2,3) line(3) xs(1) by simp
  have all2: "list_all2 bulkPiece (map fst xs) (map snd xs)" using xs(2) by (induction xs) auto
  then have "multibulk (take n buf) (a # map snd xs')" "multibulk (Raw (mkRequest args raw)) (to_upper a # map snd xs')"
    unfolding multibulk_def using line(2) n
    by (intro exI [of _ line] exI [of _ "map fst xs"], simp add: tk x,
        intro exI [of _ line] exI [of _ "q # map fst xs'"], simp add: q x)
  then show ?thesis using q unfolding tk by (auto simp: x to_upper_def)
qed

lemma inline_parsed:
  assumes "buf \<noteq> []" "hd buf \<noteq> TypeArray" "parseRequestDirect buf = Inr (args, raw, n)"
  shows "\<exists>a as. inlineWords (take n buf) (a # as) \<and> mkRequest args raw = \<lparr>Args = to_upper a # as, Raw = take n buf, Cmd = to_upper a\<rparr>"
proof -
  obtain idx where i: "index_byte LF buf = Some idx" "n = idx + 1" "raw = take n buf" "args = map Own (Fields (trim_space (strip_cr (take idx buf))))"
    "trim_space (strip_cr (take idx buf)) \<noteq> []"
    using assms by (auto simp: parseRequestDirect_def parseInlineRequest_def Let_def split: option.splits if_splits)
  have x: "idx < length buf" "buf ! idx = LF" "LF \<notin> set (take idx buf)" using i(1) by (simp_all add: index_byte_Some)
  obtain a as where w: "Fields (trim_space (strip_cr (take idx buf))) = a # as"
    using i(5) trim_space_Fields by (cases "Fields (trim_space (strip_cr (take idx buf)))") auto
  have tk: "take n buf = take idx buf @ [LF]" using x(1,2) i(2) by (simp add: take_Suc_conv_app_nth)
  moreover have "hd (take n buf) \<noteq> TypeArray" using assms(1,2) i(2) by (cases buf) auto
  ultimately have "inlineWords (take n buf) (a # as)" unfolding inlineWords_def using x(3) w by metis
  moreover have "mkRequest args raw = \<lparr>Args = to_upper a # as, Raw = take n buf, Cmd = to_upper a\<rparr>"
    by (simp add: i(3,4) w mkRequest_def comp_def)
  ultimately show ?thesis by blast
qed


section \<open>Properties\<close>

text \<open>
  A command in the multibulk form is parsed to the request with these arguments: the
  command name is upper case in \<open>Args\<close>, in \<open>Cmd\<close> and in the bytes \<open>Raw\<close> that are forwarded,
  every other argument is unchanged, and exactly the bytes of the command are consumed.
\<close>

theorem ParseRequest_EncodeCommandBytes:
  assumes "24 * int (length (a # as)) \<le> maxAlloc" "go_slice (EncodeCommandBytes (a # as) @ rest)"
  shows "ParseRequest (EncodeCommandBytes (a # as) @ rest) =
    Inr (Some (\<lparr>Args = to_upper a # as, Raw = EncodeCommandBytes (to_upper a # as), Cmd = to_upper a\<rparr>,
               length (EncodeCommandBytes (a # as))))"
  using ParseRequest_encoded [OF _ assms] by (simp add: request_of_def Let_def)

theorem ParseRequest_EncodeCommandBytes_witness:
  "ParseRequest (EncodeCommandBytes [''get'', ''k''] @ ''*1'') =
    Inr (Some (\<lparr>Args = [''GET'', ''k''], Raw = EncodeCommandBytes [''GET'', ''k''], Cmd = ''GET''\<rparr>, 20))"
proof -
  have "go_slice (EncodeCommandBytes [''get'', ''k''] @ ''*1'')" "length (EncodeCommandBytes [''get'', ''k'']) = 20"
    by (simp_all add: enc_simps go_slice_def maxAlloc_def fmt_int_def fmt_nat.simps)
  moreover have "to_upper ''get'' = ''GET''" by code_simp
  ultimately show ?thesis
    using ParseRequest_EncodeCommandBytes [of "''get''" "[''k'']" "''*1''"] by (simp add: maxAlloc_def)
qed

text \<open>
  C12. A pipeline of requests is taken apart exactly: the client loop reads back the requests in
  order and leaves the bytes of the incomplete one after them for the next read.
\<close>

theorem ParseRequest_pipeline:
  assumes "\<forall>r \<in> set rs. wf_request r" "go_slice (concat (map Raw rs) @ rest)"
    and "ParseRequest rest = Inr None"
  shows "drain decodeRequest (Suc (length rs)) (concat (map Raw rs) @ rest) = (rs, rest)"
  by (rule req.drain_encodings [OF assms(1,2)]) (simp_all add: decodeRequest_def assms(3))

theorem ParseRequest_pipeline_witness:
  "drain decodeRequest 3 (EncodeCommandBytes [''PING''] @ EncodeCommandBytes [''GET'', ''k''] @ ''*1'') =
     ([request_of [''PING''], request_of [''GET'', ''k'']], ''*1'')"
proof -
  have "to_upper ''PING'' = ''PING''" "to_upper ''GET'' = ''GET''" by code_simp+
  then have r: "request_of [''PING''] = \<lparr>Args = [''PING''], Raw = EncodeCommandBytes [''PING''], Cmd = ''PING''\<rparr>"
    "request_of [''GET'', ''k''] = \<lparr>Args = [''GET'', ''k''], Raw = EncodeCommandBytes [''GET'', ''k''], Cmd = ''GET''\<rparr>"
    and w: "wf_request (request_of [''PING''])" "wf_request (request_of [''GET'', ''k''])"
    by (simp_all add: request_of_def wf_request_def maxAlloc_def Let_def)
  have "go_slice (EncodeCommandBytes [''PING''] @ EncodeCommandBytes [''GET'', ''k''] @ ''*1'')"
    by (simp add: enc_simps go_slice_def maxAlloc_def fmt_int_def fmt_nat.simps)
  moreover have "ParseRequest ''*1'' = Inr None" by code_simp
  ultimately show ?thesis
    using ParseRequest_pipeline [of "[request_of [''PING''], request_of [''GET'', ''k'']]" "''*1''"] w
    by (simp add: r eval_nat_numeral del: drain.simps)
qed

text \<open>
  C31. A request that was parsed is what its bytes say: the bytes taken from the buffer, at least
  one and no more than there are, are a count with that many bulk strings or a line of words, and
  carry a name and arguments. \<open>Args\<close> has the name in upper case and the other arguments as they
  were sent, \<open>Cmd\<close> is the name. The copy \<open>Raw\<close> that is forwarded is the line itself, or, for bulk
  strings, whose name is changed in place, carries exactly \<open>Args\<close> and differs from the bytes sent
  in case only.
\<close>

theorem ParseRequest_wf:
  assumes "go_slice buf" "ParseRequest buf = Inr (Some (r, n))"
  shows "0 < n \<and> n \<le> length buf \<and> length (Raw r) = n \<and>
    (\<exists>a as. Args r = to_upper a # as \<and> Cmd r = to_upper a \<and>
       (inlineWords (take n buf) (a # as) \<and> Raw r = take n buf \<or>
        multibulk (take n buf) (a # as) \<and> multibulk (Raw r) (Args r) \<and> to_upper (Raw r) = to_upper (take n buf)))"
proof -
  obtain args raw where *: "parseRequestDirect buf = Inr (args, raw, n)" "r = mkRequest args raw"
    using assms(2) by (auto simp: ParseRequest_Some)
  have n: "0 < n" "n \<le> length buf" using parseRequestDirect_Some [OF *(1) assms(1)] by simp_all
  then have "buf \<noteq> []" by auto
  have "\<exists>a as. Args r = to_upper a # as \<and> Cmd r = to_upper a \<and>
       (inlineWords (take n buf) (a # as) \<and> Raw r = take n buf \<or>
        multibulk (take n buf) (a # as) \<and> multibulk (Raw r) (Args r) \<and> to_upper (Raw r) = to_upper (take n buf))"
  proof (cases "hd buf = TypeArray")
    case True
    from multibulk_parsed [OF assms(1) \<open>buf \<noteq> []\<close> True *(1)] show ?thesis unfolding *(2) by metis
  next
    case False
    from inline_parsed [OF \<open>buf \<noteq> []\<close> False *(1)] show ?thesis unfolding *(2) by force
  qed
  moreover have "length (Raw r) = n"
  proof -
    have "to_upper (Raw r) = to_upper (take n buf)" using calculation by auto
    then have "length (Raw r) = length (take n buf)" by (metis length_to_upper)
    with n show ?thesis by simp
  qed
  ultimately show ?thesis using n by blast
qed

theorem ParseRequest_wf_witness:
  "\<exists>r. ParseRequest (''*1'' @ CRLF @ ''$4'' @ CRLF @ ''ping'' @ CRLF) = Inr (Some (r, 14)) \<and> Args r = [''PING''] \<and> multibulk (Raw r) (Args r)"
proof -
  let ?r = "\<lparr>Args = [''PING''], Raw = ''*1'' @ CRLF @ ''$4'' @ CRLF @ ''PING'' @ CRLF, Cmd = ''PING''\<rparr>"
  have p: "ParseRequest (''*1'' @ CRLF @ ''$4'' @ CRLF @ ''ping'' @ CRLF) = Inr (Some (?r, 14))" by code_simp
  let ?buf = "''*1'' @ CRLF @ ''$4'' @ CRLF @ ''ping'' @ CRLF"
  have "take 14 ?buf = ?buf" "\<not> inlineWords ?buf as" for as by (simp_all add: inlineWords_def)
  with ParseRequest_wf [OF _ p] have "multibulk (Raw ?r) (Args ?r)" by (auto simp: go_slice_def maxAlloc_def)
  with p show ?thesis by (intro exI [of _ ?r]) simp
qed

text \<open>
  A multibulk header with a huge count makes the allocation of the argument slice panic, before
  any authentication; a byte other than the bulk marker makes the parser wait for ever.
\<close>

lemma ParseRequest_panic: "ParseRequest (''*99999999999999'' @ CRLF) = Inl Panic"
  by code_simp

lemma ParseRequest_stuck: "ParseRequest (''*1'' @ CRLF @ ''+x'' @ CRLF) = Inr None"
  by code_simp

end
