(* ===== verification/Resp_IO.thy ===== *)
theory Resp_IO
  imports Request
begin

text \<open>
  The stream reader and writer of \<^verbatim>\<open>src/pkg/proto/resp.go\<close>, which the pools, the pipelines and
  the topology loader use on their own connections. A \<^verbatim>\<open>bufio.Reader\<close> is the input still to
  come, ending in end-of-file; a \<^verbatim>\<open>bufio.Writer\<close> is a parameter that takes bytes and may fail.
\<close>

section \<open>Reader\<close>

datatype rerr = EOF | UnexpectedEOF | InvalidProtocol | ReadPanic | ReadOutOfFuel

definition ReadByte :: "bytes \<Rightarrow> rerr + (char \<times> bytes)" where
  "ReadByte inp = (case inp of [] \<Rightarrow> Inl EOF | b # rest \<Rightarrow> Inr (b, rest))"

text \<open>\<^verbatim>\<open>ReadBytes('\n')\<close>: the line with its newline, the rest, and whether the input ended first.\<close>

definition ReadBytesLF :: "bytes \<Rightarrow> bytes \<times> bytes \<times> bool" where
  "ReadBytesLF inp =
     (case index_byte LF inp of
        None \<Rightarrow> (inp, [], True)
      | Some i \<Rightarrow> (take (i + 1) inp, drop (i + 1) inp, False))"

definition Reader_readLine :: "bytes \<Rightarrow> rerr + (bytes \<times> bytes)" where
  "Reader_readLine inp =
     (case ReadBytesLF inp of (line, rest, eof) \<Rightarrow>
        if eof then Inl EOF
        else if length line < 2 \<or> line ! (length line - 2) \<noteq> CR then Inl InvalidProtocol
        else Inr (take (length line - 2) line, rest))"

definition readLineAs :: "(bytes \<Rightarrow> Value) \<Rightarrow> bytes \<Rightarrow> rerr + (Value \<times> bytes)" where
  "readLineAs mk inp =
     (case Reader_readLine inp of Inl e \<Rightarrow> Inl e | Inr (line, rest) \<Rightarrow> Inr (mk line, rest))"

definition readSimpleString :: "bytes \<Rightarrow> rerr + (Value \<times> bytes)" where
  "readSimpleString inp = readLineAs SimpleV inp"

definition readError :: "bytes \<Rightarrow> rerr + (Value \<times> bytes)" where
  "readError inp = readLineAs ErrValue inp"

definition readInteger :: "bytes \<Rightarrow> rerr + (Value \<times> bytes)" where
  "readInteger inp =
     (case Reader_readLine inp of
        Inl e \<Rightarrow> Inl e
      | Inr (line, rest) \<Rightarrow>
         (case parse_int64 line of None \<Rightarrow> Inl InvalidProtocol | Some n \<Rightarrow> Inr (IntValue n, rest)))"

definition readBulkString :: "bytes \<Rightarrow> rerr + (Value \<times> bytes)" where
  "readBulkString inp =
     (case Reader_readLine inp of
        Inl e \<Rightarrow> Inl e
      | Inr (line, rest) \<Rightarrow>
         (case Atoi line of
            None \<Rightarrow> Inl InvalidProtocol
          | Some n \<Rightarrow>
             if n < 0 then Inr (NilBulk, rest)
             else (let k = wrap64 (n + 2)
                   in if k < 0 \<or> k > maxAlloc then Inl ReadPanic
                      else if int (length rest) < k
                        then Inl (if rest = [] then EOF else UnexpectedEOF)
                      else Inr (BulkV (take (nat n) rest), drop (nat k) rest))))"

fun readElems :: "(char \<Rightarrow> bytes \<Rightarrow> rerr + (Value \<times> bytes)) \<Rightarrow> nat \<Rightarrow> bytes \<Rightarrow> Value option list
    \<Rightarrow> rerr + (Value option list \<times> bytes)" where
  "readElems p 0 inp arr = Inr (arr, inp)"
| "readElems p (Suc k) inp arr =
     (case ReadByte inp of
        Inl e \<Rightarrow> Inl e
      | Inr (b, rest) \<Rightarrow>
         (case p b rest of Inl e \<Rightarrow> Inl e | Inr (v, rest') \<Rightarrow> readElems p k rest' (arr @ [Some v])))"

definition readArray :: "(char \<Rightarrow> bytes \<Rightarrow> rerr + (Value \<times> bytes)) \<Rightarrow> bytes \<Rightarrow> rerr + (Value \<times> bytes)" where
  "readArray p inp =
     (case Reader_readLine inp of
        Inl e \<Rightarrow> Inl e
      | Inr (line, rest) \<Rightarrow>
         (case Atoi line of
            None \<Rightarrow> Inl InvalidProtocol
          | Some n \<Rightarrow>
             if n < 0 then Inr (NilArray, rest)
             else if 8 * n > maxAlloc then Inl ReadPanic
             else (case readElems p (nat n) rest [] of
                     Inl e \<Rightarrow> Inl e
                   | Inr (arr, rest') \<Rightarrow> Inr (ArrayV arr, rest'))))"

definition readInline :: "char \<Rightarrow> bytes \<Rightarrow> rerr + (Value \<times> bytes)" where
  "readInline first inp =
     (case ReadBytesLF inp of (line, rest, _) \<Rightarrow>
        (let full = trim_right_set [CR, LF] (first # line)
         in if full = [] then Inl InvalidProtocol
            else if Fields full = [] then Inl InvalidProtocol
            else Inr (ArrayV (map (\<lambda>p. Some (BulkV p)) (Fields full)), rest)))"

fun readValue :: "nat \<Rightarrow> char \<Rightarrow> bytes \<Rightarrow> rerr + (Value \<times> bytes)" where
  "readValue 0 typeByte inp = Inl ReadOutOfFuel"
| "readValue (Suc fuel) typeByte inp =
     (if typeByte = TypeSimpleString then readSimpleString inp
      else if typeByte = TypeError then readError inp
      else if typeByte = TypeInteger then readInteger inp
      else if typeByte = TypeBulkString then readBulkString inp
      else if typeByte = TypeArray then readArray (readValue fuel) inp
      else readInline typeByte inp)"

definition ReadValue :: "bytes \<Rightarrow> rerr + (Value \<times> bytes)" where
  "ReadValue inp =
     (case ReadByte inp of Inl e \<Rightarrow> Inl e | Inr (b, rest) \<Rightarrow> readValue (length inp) b rest)"

text \<open>\<^verbatim>\<open>Reader.ReadRequest\<close>: a nil element is a nil argument, which has no bytes.\<close>

definition ReadRequest :: "bytes \<Rightarrow> rerr + (Request \<times> bytes)" where
  "ReadRequest inp =
     (case ReadValue inp of
        Inl e \<Rightarrow> Inl e
      | Inr (v, rest) \<Rightarrow>
         if vType v \<noteq> TypeArray \<or> vArray v = [] then Inl InvalidProtocol
         else (let args = map (\<lambda>elem. case elem of None \<Rightarrow> []
                                     | Some e \<Rightarrow> if vIsNil e then [] else vStr e) (vArray v);
                   args' = to_upper (hd args) # tl args
               in Inr (\<lparr>Args = args', Raw = [], Cmd = hd args'\<rparr>, rest)))"


section \<open>Writer\<close>

type_synonym 'w sink = "'w \<Rightarrow> bytes \<Rightarrow> 'w \<times> bool"

text \<open>Go on when the write succeeded, return its error otherwise.\<close>

definition andThen :: "'w \<times> bool \<Rightarrow> ('w \<Rightarrow> 'w \<times> bool) \<Rightarrow> 'w \<times> bool" where
  "andThen r f = (case r of (w, ok) \<Rightarrow> if ok then f w else (w, False))"

fun writeAll :: "('w \<Rightarrow> 'x \<Rightarrow> 'w \<times> bool) \<Rightarrow> 'w \<Rightarrow> 'x list \<Rightarrow> 'w \<times> bool" where
  "writeAll f w [] = (w, True)"
| "writeAll f w (x # xs) = andThen (f w x) (\<lambda>w. writeAll f w xs)"

lemma writeAll_cong [fundef_cong]:
  "xs = ys \<Longrightarrow> w = v \<Longrightarrow> (\<And>u x. x \<in> set ys \<Longrightarrow> f u x = g u x) \<Longrightarrow> writeAll f w xs = writeAll g v ys"
  by (induction xs arbitrary: ys w v) (auto simp: andThen_def split: prod.splits)

definition WriteSimpleString :: "'w sink \<Rightarrow> 'w \<Rightarrow> bytes \<Rightarrow> 'w \<times> bool" where
  "WriteSimpleString wr w s = andThen (wr w ''+'') (\<lambda>w. andThen (wr w s) (\<lambda>w. wr w CRLF))"

definition WriteError :: "'w sink \<Rightarrow> 'w \<Rightarrow> bytes \<Rightarrow> 'w \<times> bool" where
  "WriteError wr w msg = andThen (wr w ''-'') (\<lambda>w. andThen (wr w msg) (\<lambda>w. wr w CRLF))"

definition WriteInteger :: "'w sink \<Rightarrow> 'w \<Rightarrow> int \<Rightarrow> 'w \<times> bool" where
  "WriteInteger wr w n = andThen (wr w '':'') (\<lambda>w. andThen (wr w (fmt_int n)) (\<lambda>w. wr w CRLF))"

definition WriteBulkString :: "'w sink \<Rightarrow> 'w \<Rightarrow> bytes \<Rightarrow> 'w \<times> bool" where
  "WriteBulkString wr w data =
     andThen (wr w ''$'') (\<lambda>w. andThen (wr w (fmt_int (int (length data))))
       (\<lambda>w. andThen (wr w CRLF) (\<lambda>w. andThen (wr w data) (\<lambda>w. wr w CRLF))))"

definition WriteNilBulkString :: "'w sink \<Rightarrow> 'w \<Rightarrow> 'w \<times> bool" where
  "WriteNilBulkString wr w = wr w (''$-1'' @ CRLF)"

definition WriteNilArray :: "'w sink \<Rightarrow> 'w \<Rightarrow> 'w \<times> bool" where
  "WriteNilArray wr w = wr w (''*-1'' @ CRLF)"

definition writeArrayHeader :: "'w sink \<Rightarrow> 'w \<Rightarrow> nat \<Rightarrow> 'w \<times> bool" where
  "writeArrayHeader wr w n = andThen (wr w ''*'') (\<lambda>w. andThen (wr w (fmt_int (int n))) (\<lambda>w. wr w CRLF))"

fun WriteValue :: "'w sink \<Rightarrow> 'w \<Rightarrow> Value option \<Rightarrow> 'w \<times> bool" where
  "WriteValue wr w None = WriteNilBulkString wr w"
| "WriteValue wr w (Some (Value t s n a isnil)) =
     (if t = TypeSimpleString then WriteSimpleString wr w s
      else if t = TypeError then WriteError wr w s
      else if t = TypeInteger then WriteInteger wr w n
      else if t = TypeBulkString then (if isnil then WriteNilBulkString wr w else WriteBulkString wr w s)
      else if t = TypeArray then
        (if isnil then WriteNilArray wr w
         else andThen (writeArrayHeader wr w (length a)) (\<lambda>w. writeAll (\<lambda>w v. WriteValue wr w v) w a))
      else (w, False))"

definition WriteArray :: "'w sink \<Rightarrow> 'w \<Rightarrow> Value option list \<Rightarrow> 'w \<times> bool" where
  "WriteArray wr w arr = andThen (writeArrayHeader wr w (length arr)) (\<lambda>w. writeAll (WriteValue wr) w arr)"

definition WriteCommand :: "'w sink \<Rightarrow> 'w \<Rightarrow> bytes list \<Rightarrow> 'w \<times> bool" where
  "WriteCommand wr w args = andThen (writeArrayHeader wr w (length args)) (\<lambda>w. writeAll (WriteBulkString wr) w args)"

definition WriteCommandBytes :: "'w sink \<Rightarrow> 'w \<Rightarrow> bytes list \<Rightarrow> 'w \<times> bool" where
  "WriteCommandBytes wr w args = andThen (writeArrayHeader wr w (length args)) (\<lambda>w. writeAll (WriteBulkString wr) w args)"

text \<open>A writer over a \<^verbatim>\<open>bytes.Buffer\<close>, which never fails.\<close>

definition bufferWrite :: "bytes sink" where
  "bufferWrite w b = (w @ b, True)"

definition EncodeCommand :: "bytes list \<Rightarrow> bytes" where
  "EncodeCommand args = fst (WriteCommand bufferWrite [] args)"

section \<open>Reading inverts encoding\<close>

lemma Reader_readLine_append:
  "LF \<notin> set s \<Longrightarrow> Reader_readLine (s @ CR # LF # rest) = Inr (s, rest)"
  by (simp add: Reader_readLine_def ReadBytesLF_def nth_append)

lemma readElems_encoded:
  assumes "\<And>v rest. v \<in> set vs \<Longrightarrow> length (enc v @ rest) \<le> L \<Longrightarrow>
      \<exists>b bs. enc v = b # bs \<and> p b (bs @ rest) = Inr (v, rest)"
  shows "length (concat (map enc vs) @ rest) \<le> L \<Longrightarrow>
    readElems p (length vs) (concat (map enc vs) @ rest) arr = Inr (arr @ map Some vs, rest)"
  using assms
proof (induction vs arbitrary: arr)
  case Nil
  then show ?case by simp
next
  case (Cons v vs)
  obtain b bs where b: "enc v = b # bs"
      "p b (bs @ concat (map enc vs) @ rest) = Inr (v, concat (map enc vs) @ rest)"
    using Cons.prems(2) [of v "concat (map enc vs) @ rest"] Cons.prems(1) by auto
  have "readElems p (length vs) (concat (map enc vs) @ rest) (arr @ [Some v]) =
      Inr ((arr @ [Some v]) @ map Some vs, rest)"
    using Cons.prems by (intro Cons.IH) auto
  with b show ?case by (simp add: ReadByte_def)
qed

lemma readBulkString_encoded:
  assumes "go_slice (d @ CRLF)"
  shows "readBulkString (fmt_int (int (length d)) @ CR # LF # d @ CR # LF # rest) = Inr (BulkV d, rest)"
proof -
  let ?n = "int (length d)"
  have "?n + 2 \<le> maxAlloc" using assms by (simp add: go_slice_def)
  then have n: "in_int64 ?n" "in_int64 (?n + 2)" by (simp_all add: maxAlloc_def in_int64_def)
  with \<open>?n + 2 \<le> maxAlloc\<close> have "\<not> wrap64 (?n + 2) > maxAlloc" "wrap64 (?n + 2) = ?n + 2" by simp_all
  then show ?thesis using n(1)
    by (simp add: readBulkString_def Reader_readLine_append Let_def nat_add_distrib)
qed

lemma readValue_encoded:
  assumes "wf_value v" "go_slice (EncodeValue (Some v) @ rest)" "length (EncodeValue (Some v) @ rest) \<le> f"
  shows "\<exists>b bs. EncodeValue (Some v) = b # bs \<and> readValue f b (bs @ rest) = Inr (v, rest)"
  using assms
proof (induction v arbitrary: f rest rule: wf_value.induct)
  case (wf_simple s)
  obtain f' where "f = Suc f'" using wf_simple.prems(2) by (cases f) (simp_all add: enc_simps EncodeSimpleString_def)
  with wf_simple.hyps show ?case
    by (simp add: enc_simps EncodeSimpleString_def readSimpleString_def readLineAs_def Reader_readLine_append)
next
  case (wf_error s)
  obtain f' where "f = Suc f'" using wf_error.prems(2) by (cases f) (simp_all add: enc_simps EncodeError_def)
  with wf_error.hyps show ?case
    by (simp add: enc_simps EncodeError_def readError_def readLineAs_def Reader_readLine_append)
next
  case (wf_int n)
  obtain f' where "f = Suc f'" using wf_int.prems(2) by (cases f) (simp_all add: enc_simps EncodeInteger_def)
  with wf_int.hyps show ?case
    by (simp add: enc_simps EncodeInteger_def readInteger_def Reader_readLine_append)
next
  case (wf_bulk s)
  obtain f' where "f = Suc f'" using wf_bulk.prems(2) by (cases f) (simp_all add: enc_simps)
  moreover have "go_slice (s @ CRLF)" using wf_bulk.prems(1) by (simp add: go_slice_def enc_simps)
  ultimately show ?case by (simp add: enc_simps readBulkString_encoded)
next
  case wf_nil_bulk
  obtain f' where "f = Suc f'" using wf_nil_bulk.prems(2) by (cases f) (simp_all add: enc_simps)
  then show ?case
    using Reader_readLine_append [of "''-1''" rest] parse_int64_fmt_int [of "-1"]
    by (simp add: enc_simps readBulkString_def fmt_int_minus_1 in_int64_def)
next
  case wf_nil_array
  obtain f' where "f = Suc f'" using wf_nil_array.prems(2) by (cases f) (simp_all add: enc_simps)
  then show ?case
    using Reader_readLine_append [of "''-1''" rest] parse_int64_fmt_int [of "-1"]
    by (simp add: enc_simps readArray_def fmt_int_minus_1 in_int64_def)
next
  case (wf_array vs)
  let ?enc = "\<lambda>v. EncodeValue (Some v)"
  let ?n = "int (length vs)"
  let ?body = "concat (map ?enc vs) @ rest"
  have enc: "?enc (ArrayV (map Some vs)) = CHR ''*'' # fmt_int ?n @ CR # LF # concat (map ?enc vs)"
    by (simp add: enc_simps comp_def)
  obtain f' where f: "f = Suc f'" using wf_array.prems(2) by (cases f) (simp_all add: enc)
  have n: "in_int64 ?n" using wf_array.hyps by (simp add: maxAlloc_def in_int64_def)
  have "readElems (readValue f') (length vs) ?body [] = Inr ([] @ map Some vs, rest)"
  proof (rule readElems_encoded [where enc = ?enc and L = "length ?body"])
    fix v rest' assume v: "v \<in> set vs" and l: "length (?enc v @ rest') \<le> length ?body"
    have "go_slice (?enc v @ rest')" using l wf_array.prems(1) by (simp add: go_slice_def enc)
    moreover have "length (?enc v @ rest') \<le> f'" using l wf_array.prems(2) f by (simp add: enc)
    ultimately show "\<exists>b bs. ?enc v = b # bs \<and> readValue f' b (bs @ rest') = Inr (v, rest')"
      using wf_array.IH v by blast
  qed simp
  with wf_array.hyps n show ?case
    by (simp add: enc f readArray_def Reader_readLine_append)
qed

section \<open>Writing is encoding\<close>

text \<open>The writer operation \<open>op\<close> writes \<open>b\<close> whenever it reports success.\<close>

definition writes :: "('w \<Rightarrow> bytes) \<Rightarrow> ('w \<Rightarrow> 'w \<times> bool) \<Rightarrow> bytes \<Rightarrow> bool" where
  "writes out op b \<longleftrightarrow> (\<forall>w w'. op w = (w', True) \<longrightarrow> out w' = out w @ b)"

lemma writesD: "writes out op b \<Longrightarrow> op w = (w', True) \<Longrightarrow> out w' = out w @ b"
  by (simp add: writes_def)

locale writer_sink =
  fixes wr :: "'w sink" and out :: "'w \<Rightarrow> bytes"
  assumes wr_out: "wr w b = (w', True) \<Longrightarrow> out w' = out w @ b"
begin

lemma writes_wr: "writes out (\<lambda>w. wr w b) b"
  by (auto simp: writes_def wr_out)

lemma writes_andThen: "writes out f a \<Longrightarrow> writes out g b \<Longrightarrow> writes out (\<lambda>w. andThen (f w) g) (a @ b)"
  by (fastforce simp: writes_def andThen_def split: prod.splits if_splits)

lemma writes_all:
  "(\<And>x. x \<in> set xs \<Longrightarrow> writes out (\<lambda>w. f w x) (enc x)) \<Longrightarrow> writes out (\<lambda>w. writeAll f w xs) (concat (map enc xs))"
proof (induction xs)
  case Nil
  then show ?case by (simp add: writes_def)
next
  case (Cons x xs)
  then have "writes out (\<lambda>w. andThen (f w x) (\<lambda>w. writeAll f w xs)) (enc x @ concat (map enc xs))"
    by (intro writes_andThen) auto
  then show ?case by simp
qed

lemma writes_pieces:
  "writes out (\<lambda>w. WriteSimpleString wr w s) (EncodeSimpleString s)"
  "writes out (\<lambda>w. WriteError wr w s) (EncodeError s)"
  "writes out (\<lambda>w. WriteInteger wr w n) (EncodeInteger n)"
  "writes out (\<lambda>w. WriteBulkString wr w s) (EncodeBulkString s)"
  "writes out (\<lambda>w. writeArrayHeader wr w k) (''*'' @ fmt_int (int k) @ CRLF)"
  unfolding WriteSimpleString_def WriteError_def WriteInteger_def WriteBulkString_def writeArrayHeader_def
    EncodeSimpleString_def EncodeError_def EncodeInteger_def EncodeBulkString_eq
  by (intro writes_andThen writes_wr)+

lemma EncodeValue_Value:
  "EncodeValue (Some (Value t s n a isnil)) =
     (if t = TypeSimpleString then EncodeSimpleString s
      else if t = TypeError then EncodeError s
      else if t = TypeInteger then EncodeInteger n
      else if t = TypeBulkString then (if isnil then ''$-1'' @ CRLF else EncodeBulkString s)
      else if t = TypeArray then
        (if isnil then ''*-1'' @ CRLF
         else (''*'' @ fmt_int (int (length a)) @ CRLF) @ concat (map EncodeValue a))
      else [])"
  by (simp add: EncodeValue_def [of "Some _"] EncodeSimpleString_def EncodeError_def EncodeInteger_def
      appendInt_def appendBulk_append foldl_append_concat [OF appendValue_append])

lemma writes_WriteValue: "writes out (\<lambda>w. WriteValue wr w v) (EncodeValue v)"
proof (induction v rule: appendValue.induct [of "\<lambda>_ v. writes out (\<lambda>w. WriteValue wr w v) (EncodeValue v)" "[]"])
  case (1 b)
  then show ?case using writes_wr by (simp add: WriteNilBulkString_def enc_simps)
next
  case (2 b t s n a isnil)
  have "writes out (\<lambda>w. andThen (writeArrayHeader wr w (length a)) (\<lambda>w. writeAll (WriteValue wr) w a))
      ((''*'' @ fmt_int (int (length a)) @ CRLF) @ concat (map EncodeValue a))"
    if "t \<notin> {TypeSimpleString, TypeError, TypeInteger, TypeBulkString}" "t = TypeArray" "\<not> isnil"
    using 2 that by (intro writes_andThen writes_pieces(5) writes_all) auto
  moreover have "writes out (\<lambda>w. (w, False)) []" by (simp add: writes_def)
  ultimately show ?case
    unfolding EncodeValue_Value
    by (auto simp: WriteNilBulkString_def WriteNilArray_def writes_wr writes_pieces(1-4))
qed

lemma writes_WriteCommand: "writes out (\<lambda>w. WriteCommand wr w args) (EncodeCommandBytes args)"
proof -
  have "writes out (\<lambda>w. WriteCommand wr w args)
      ((''*'' @ fmt_int (int (length args)) @ CRLF) @ concat (map EncodeBulkString args))"
    unfolding WriteCommand_def by (intro writes_andThen writes_pieces(5) writes_all writes_pieces(4))
  then show ?thesis by (simp add: EncodeCommandBytes_eq)
qed

end

interpretation buffer: writer_sink bufferWrite "\<lambda>w. w"
  by unfold_locales (simp add: bufferWrite_def)

lemma bufferWrite_ok [simp]: "snd (bufferWrite w b)"
  by (simp add: bufferWrite_def)

lemma andThen_ok: "snd r \<Longrightarrow> (\<And>w. snd (f w)) \<Longrightarrow> snd (andThen r f)"
  by (auto simp: andThen_def split: prod.splits)

lemma writeAll_ok: "(\<And>w x. snd (f w x)) \<Longrightarrow> snd (writeAll f w xs)"
  by (induction xs arbitrary: w) (auto intro: andThen_ok)

lemma WriteCommand_buffer_ok: "snd (WriteCommand bufferWrite w args)"
  unfolding WriteCommand_def writeArrayHeader_def WriteBulkString_def
  by (intro andThen_ok writeAll_ok bufferWrite_ok)

section \<open>Properties\<close>

text \<open>
  C40. The stream reader inverts the encoder: from a connection that delivers an encoded value,
  \<open>ReadValue\<close> returns the value and leaves the reader exactly behind it.
\<close>

theorem ReadValue_EncodeValue:
  assumes "wf_value v" "go_slice (EncodeValue (Some v) @ rest)"
  shows "ReadValue (EncodeValue (Some v) @ rest) = Inr (v, rest)"
proof -
  obtain b bs where "EncodeValue (Some v) = b # bs"
      "readValue (length (EncodeValue (Some v) @ rest)) b (bs @ rest) = Inr (v, rest)"
    using readValue_encoded [OF assms order_refl] by blast
  then show ?thesis by (simp add: ReadValue_def ReadByte_def)
qed

theorem ReadValue_EncodeValue_witness:
  "ReadValue (EncodeValue (Some (ArrayV (map Some [BulkV ''k'', NilBulk]))) @ ''+'') =
     Inr (ArrayV (map Some [BulkV ''k'', NilBulk]), ''+'')"
proof (rule ReadValue_EncodeValue)
  show "wf_value (ArrayV (map Some [BulkV ''k'', NilBulk]))"
    by (intro wf_array) (auto intro!: wf_value.intros simp: maxAlloc_def)
  show "go_slice (EncodeValue (Some (ArrayV (map Some [BulkV ''k'', NilBulk]))) @ ''+'')"
    by (simp add: enc_simps go_slice_def maxAlloc_def fmt_int_def fmt_nat.simps)
qed

text \<open>
  The command writer and the command encoder agree: \<open>EncodeCommand\<close>, which goes through a
  buffered writer, produces the bytes of \<open>EncodeCommandBytes\<close>.
\<close>

theorem EncodeCommand_EncodeCommandBytes: "EncodeCommand args = EncodeCommandBytes args"
proof -
  obtain w where w: "WriteCommand bufferWrite [] args = (w, True)"
    using WriteCommand_buffer_ok [of "[]" args] by (cases "WriteCommand bufferWrite [] args") auto
  then have "w = [] @ EncodeCommandBytes args"
    by (rule writesD [OF buffer.writes_WriteCommand])
  with w show ?thesis by (simp add: EncodeCommand_def)
qed

text \<open>
  Whatever the connection does, a \<open>WriteValue\<close> that reports success has written exactly the
  bytes of \<open>EncodeValue\<close>.
\<close>

theorem WriteValue_EncodeValue:
  assumes "\<And>w b w'. wr w b = (w', True) \<Longrightarrow> out w' = out w @ b" "WriteValue wr w v = (w', True)"
  shows "out w' = out w @ EncodeValue v"
proof -
  have "writer_sink wr out" using assms(1) by unfold_locales
  from writer_sink.writes_WriteValue [OF this] assms(2) show ?thesis by (rule writesD)
qed

theorem WriteValue_EncodeValue_witness:
  "fst (WriteValue bufferWrite ''x'' (Some (IntValue 5))) = ''x'' @ EncodeValue (Some (IntValue 5))"
  using WriteValue_EncodeValue [of bufferWrite "\<lambda>w. w" "''x''" "Some (IntValue 5)" "''x:5'' @ CRLF"]
  by (simp add: bufferWrite_def IntValue_def WriteInteger_def andThen_def fmt_int_def fmt_nat.simps)

end
