(* ===== verification/Command.thy ===== *)
theory Command
  imports Request Crc16
begin

text \<open>
  The command table, \<^verbatim>\<open>src/pkg/proto/command.go\<close>: flags, key positions and the extraction of
  the keys of a request. The table is the association list of the Go map literal, in the order
  of the source; it is cut in two at the generic key commands.
\<close>

section \<open>The table\<close>

type_synonym CmdFlag = "32 word"

definition FlagWrite :: CmdFlag where "FlagWrite = 1"
definition FlagRead :: CmdFlag where "FlagRead = 2"
definition FlagAdmin :: CmdFlag where "FlagAdmin = 4"
definition FlagPubSub :: CmdFlag where "FlagPubSub = 8"
definition FlagNoKey :: CmdFlag where "FlagNoKey = 16"
definition FlagMultiKey :: CmdFlag where "FlagMultiKey = 32"
definition FlagBlocking :: CmdFlag where "FlagBlocking = 64"
definition FlagTransaction :: CmdFlag where "FlagTransaction = 128"
definition FlagScript :: CmdFlag where "FlagScript = 256"
definition FlagAllNodes :: CmdFlag where "FlagAllNodes = 512"
definition FlagNotAllowed :: CmdFlag where "FlagNotAllowed = 1024"

lemmas flag_defs =
  FlagWrite_def FlagRead_def FlagAdmin_def FlagPubSub_def FlagNoKey_def FlagMultiKey_def
  FlagBlocking_def FlagTransaction_def FlagScript_def FlagAllNodes_def FlagNotAllowed_def

datatype KeySpec = KeySpec (FirstKey: int) (LastKey: int) (Step: int)

datatype CmdInfo = CmdInfo (ciName: bytes) (ciArity: int) (ciFlags: CmdFlag) (ciKeySpec: KeySpec)

definition cmdTable_data :: "(bytes \<times> CmdInfo) list" where
  "cmdTable_data =
    [(''GET'', CmdInfo ''GET'' 2 (FlagRead) (KeySpec 1 1 1)),
     (''SET'', CmdInfo ''SET'' (- 3) (FlagWrite) (KeySpec 1 1 1)),
     (''DEL'', CmdInfo ''DEL'' (- 2) (FlagWrite OR FlagMultiKey) (KeySpec 1 (- 1) 1)),
     (''UNLINK'', CmdInfo ''UNLINK'' (- 2) (FlagWrite OR FlagMultiKey) (KeySpec 1 (- 1) 1)),
     (''MGET'', CmdInfo ''MGET'' (- 2) (FlagRead OR FlagMultiKey) (KeySpec 1 (- 1) 1)),
     (''MSET'', CmdInfo ''MSET'' (- 3) (FlagWrite OR FlagMultiKey) (KeySpec 1 (- 1) 2)),
     (''MSETNX'', CmdInfo ''MSETNX'' (- 3) (FlagWrite OR FlagMultiKey) (KeySpec 1 (- 1) 2)),
     (''EXISTS'', CmdInfo ''EXISTS'' (- 2) (FlagRead OR FlagMultiKey) (KeySpec 1 (- 1) 1)),
     (''TOUCH'', CmdInfo ''TOUCH'' (- 2) (FlagRead OR FlagMultiKey) (KeySpec 1 (- 1) 1)),
     (''APPEND'', CmdInfo ''APPEND'' 3 (FlagWrite) (KeySpec 1 1 1)),
     (''GETSET'', CmdInfo ''GETSET'' 3 (FlagWrite) (KeySpec 1 1 1)),
     (''GETDEL'', CmdInfo ''GETDEL'' 2 (FlagWrite) (KeySpec 1 1 1)),
     (''GETEX'', CmdInfo ''GETEX'' (- 2) (FlagWrite) (KeySpec 1 1 1)),
     (''SETNX'', CmdInfo ''SETNX'' 3 (FlagWrite) (KeySpec 1 1 1)),
     (''SETEX'', CmdInfo ''SETEX'' 4 (FlagWrite) (KeySpec 1 1 1)),
     (''PSETEX'', CmdInfo ''PSETEX'' 4 (FlagWrite) (KeySpec 1 1 1)),
     (''GETRANGE'', CmdInfo ''GETRANGE'' 4 (FlagRead) (KeySpec 1 1 1)),
     (''SETRANGE'', CmdInfo ''SETRANGE'' 4 (FlagWrite) (KeySpec 1 1 1)),
     (''STRLEN'', CmdInfo ''STRLEN'' 2 (FlagRead) (KeySpec 1 1 1)),
     (''INCR'', CmdInfo ''INCR'' 2 (FlagWrite) (KeySpec 1 1 1)),
     (''INCRBY'', CmdInfo ''INCRBY'' 3 (FlagWrite) (KeySpec 1 1 1)),
     (''INCRBYFLOAT'', CmdInfo ''INCRBYFLOAT'' 3 (FlagWrite) (KeySpec 1 1 1)),
     (''DECR'', CmdInfo ''DECR'' 2 (FlagWrite) (KeySpec 1 1 1)),
     (''DECRBY'', CmdInfo ''DECRBY'' 3 (FlagWrite) (KeySpec 1 1 1)),
     (''HGET'', CmdInfo ''HGET'' 3 (FlagRead) (KeySpec 1 1 1)),
     (''HSET'', CmdInfo ''HSET'' (- 4) (FlagWrite) (KeySpec 1 1 1)),
     (''HSETNX'', CmdInfo ''HSETNX'' 4 (FlagWrite) (KeySpec 1 1 1)),
     (''HMGET'', CmdInfo ''HMGET'' (- 3) (FlagRead) (KeySpec 1 1 1)),
     (''HMSET'', CmdInfo ''HMSET'' (- 4) (FlagWrite) (KeySpec 1 1 1)),
     (''HDEL'', CmdInfo ''HDEL'' (- 3) (FlagWrite) (KeySpec 1 1 1)),
     (''HEXISTS'', CmdInfo ''HEXISTS'' 3 (FlagRead) (KeySpec 1 1 1)),
     (''HGETALL'', CmdInfo ''HGETALL'' 2 (FlagRead) (KeySpec 1 1 1)),
     (''HKEYS'', CmdInfo ''HKEYS'' 2 (FlagRead) (KeySpec 1 1 1)),
     (''HVALS'', CmdInfo ''HVALS'' 2 (FlagRead) (KeySpec 1 1 1)),
     (''HLEN'', CmdInfo ''HLEN'' 2 (FlagRead) (KeySpec 1 1 1)),
     (''HSTRLEN'', CmdInfo ''HSTRLEN'' 3 (FlagRead) (KeySpec 1 1 1)),
     (''HRANDFIELD'', CmdInfo ''HRANDFIELD'' (- 2) (FlagRead) (KeySpec 1 1 1)),
     (''HINCRBY'', CmdInfo ''HINCRBY'' 4 (FlagWrite) (KeySpec 1 1 1)),
     (''HINCRBYFLOAT'', CmdInfo ''HINCRBYFLOAT'' 4 (FlagWrite) (KeySpec 1 1 1)),
     (''HSCAN'', CmdInfo ''HSCAN'' (- 3) (FlagRead) (KeySpec 1 1 1)),
     (''LPUSH'', CmdInfo ''LPUSH'' (- 3) (FlagWrite) (KeySpec 1 1 1)),
     (''LPUSHX'', CmdInfo ''LPUSHX'' (- 3) (FlagWrite) (KeySpec 1 1 1)),
     (''RPUSH'', CmdInfo ''RPUSH'' (- 3) (FlagWrite) (KeySpec 1 1 1)),
     (''RPUSHX'', CmdInfo ''RPUSHX'' (- 3) (FlagWrite) (KeySpec 1 1 1)),
     (''LPOP'', CmdInfo ''LPOP'' (- 2) (FlagWrite) (KeySpec 1 1 1)),
     (''RPOP'', CmdInfo ''RPOP'' (- 2) (FlagWrite) (KeySpec 1 1 1)),
     (''LLEN'', CmdInfo ''LLEN'' 2 (FlagRead) (KeySpec 1 1 1)),
     (''LRANGE'', CmdInfo ''LRANGE'' 4 (FlagRead) (KeySpec 1 1 1)),
     (''LINDEX'', CmdInfo ''LINDEX'' 3 (FlagRead) (KeySpec 1 1 1)),
     (''LSET'', CmdInfo ''LSET'' 4 (FlagWrite) (KeySpec 1 1 1)),
     (''LINSERT'', CmdInfo ''LINSERT'' 5 (FlagWrite) (KeySpec 1 1 1)),
     (''LREM'', CmdInfo ''LREM'' 4 (FlagWrite) (KeySpec 1 1 1)),
     (''LTRIM'', CmdInfo ''LTRIM'' 4 (FlagWrite) (KeySpec 1 1 1)),
     (''LPOS'', CmdInfo ''LPOS'' (- 3) (FlagRead) (KeySpec 1 1 1)),
     (''LMOVE'', CmdInfo ''LMOVE'' 5 (FlagWrite) (KeySpec 1 2 1)),
     (''RPOPLPUSH'', CmdInfo ''RPOPLPUSH'' 3 (FlagWrite OR FlagNotAllowed) (KeySpec 1 2 1)),
     (''LMPOP'', CmdInfo ''LMPOP'' (- 4) (FlagWrite) (KeySpec 2 (- 1) 1)),
     (''BLPOP'', CmdInfo ''BLPOP'' (- 3) (FlagWrite OR FlagBlocking) (KeySpec 1 (- 2) 1)),
     (''BRPOP'', CmdInfo ''BRPOP'' (- 3) (FlagWrite OR FlagBlocking) (KeySpec 1 (- 2) 1)),
     (''SADD'', CmdInfo ''SADD'' (- 3) (FlagWrite) (KeySpec 1 1 1)),
     (''SREM'', CmdInfo ''SREM'' (- 3) (FlagWrite) (KeySpec 1 1 1)),
     (''SMEMBERS'', CmdInfo ''SMEMBERS'' 2 (FlagRead) (KeySpec 1 1 1)),
     (''SISMEMBER'', CmdInfo ''SISMEMBER'' 3 (FlagRead) (KeySpec 1 1 1)),
     (''SMISMEMBER'', CmdInfo ''SMISMEMBER'' (- 3) (FlagRead) (KeySpec 1 1 1)),
     (''SCARD'', CmdInfo ''SCARD'' 2 (FlagRead) (KeySpec 1 1 1)),
     (''SPOP'', CmdInfo ''SPOP'' (- 2) (FlagWrite) (KeySpec 1 1 1)),
     (''SRANDMEMBER'', CmdInfo ''SRANDMEMBER'' (- 2) (FlagRead) (KeySpec 1 1 1)),
     (''SMOVE'', CmdInfo ''SMOVE'' 4 (FlagWrite OR FlagNotAllowed) (KeySpec 1 2 1)),
     (''SUNION'', CmdInfo ''SUNION'' (- 2) (FlagRead OR FlagMultiKey OR FlagNotAllowed) (KeySpec 1 (- 1) 1)),
     (''SINTER'', CmdInfo ''SINTER'' (- 2) (FlagRead OR FlagMultiKey OR FlagNotAllowed) (KeySpec 1 (- 1) 1)),
     (''SDIFF'', CmdInfo ''SDIFF'' (- 2) (FlagRead OR FlagMultiKey OR FlagNotAllowed) (KeySpec 1 (- 1) 1)),
     (''SUNIONSTORE'', CmdInfo ''SUNIONSTORE'' (- 3) (FlagWrite OR FlagMultiKey OR FlagNotAllowed) (KeySpec 1 (- 1) 1)),
     (''SINTERSTORE'', CmdInfo ''SINTERSTORE'' (- 3) (FlagWrite OR FlagMultiKey OR FlagNotAllowed) (KeySpec 1 (- 1) 1)),
     (''SDIFFSTORE'', CmdInfo ''SDIFFSTORE'' (- 3) (FlagWrite OR FlagMultiKey OR FlagNotAllowed) (KeySpec 1 (- 1) 1)),
     (''SSCAN'', CmdInfo ''SSCAN'' (- 3) (FlagRead) (KeySpec 1 1 1)),
     (''SINTERCARD'', CmdInfo ''SINTERCARD'' (- 3) (FlagRead OR FlagMultiKey OR FlagNotAllowed) (KeySpec 2 (- 1) 1)),
     (''ZADD'', CmdInfo ''ZADD'' (- 4) (FlagWrite) (KeySpec 1 1 1)),
     (''ZREM'', CmdInfo ''ZREM'' (- 3) (FlagWrite) (KeySpec 1 1 1)),
     (''ZINCRBY'', CmdInfo ''ZINCRBY'' 4 (FlagWrite) (KeySpec 1 1 1)),
     (''ZRANK'', CmdInfo ''ZRANK'' (- 3) (FlagRead) (KeySpec 1 1 1)),
     (''ZREVRANK'', CmdInfo ''ZREVRANK'' (- 3) (FlagRead) (KeySpec 1 1 1)),
     (''ZSCORE'', CmdInfo ''ZSCORE'' 3 (FlagRead) (KeySpec 1 1 1)),
     (''ZMSCORE'', CmdInfo ''ZMSCORE'' (- 3) (FlagRead) (KeySpec 1 1 1)),
     (''ZCARD'', CmdInfo ''ZCARD'' 2 (FlagRead) (KeySpec 1 1 1)),
     (''ZCOUNT'', CmdInfo ''ZCOUNT'' 4 (FlagRead) (KeySpec 1 1 1)),
     (''ZLEXCOUNT'', CmdInfo ''ZLEXCOUNT'' 4 (FlagRead) (KeySpec 1 1 1)),
     (''ZRANGE'', CmdInfo ''ZRANGE'' (- 4) (FlagRead) (KeySpec 1 1 1)),
     (''ZREVRANGE'', CmdInfo ''ZREVRANGE'' (- 4) (FlagRead) (KeySpec 1 1 1)),
     (''ZRANGEBYSCORE'', CmdInfo ''ZRANGEBYSCORE'' (- 4) (FlagRead) (KeySpec 1 1 1)),
     (''ZREVRANGEBYSCORE'', CmdInfo ''ZREVRANGEBYSCORE'' (- 4) (FlagRead) (KeySpec 1 1 1)),
     (''ZRANGEBYLEX'', CmdInfo ''ZRANGEBYLEX'' (- 4) (FlagRead) (KeySpec 1 1 1)),
     (''ZREVRANGEBYLEX'', CmdInfo ''ZREVRANGEBYLEX'' (- 4) (FlagRead) (KeySpec 1 1 1)),
     (''ZRANGESTORE'', CmdInfo ''ZRANGESTORE'' (- 5) (FlagWrite) (KeySpec 1 2 1)),
     (''ZREMRANGEBYSCORE'', CmdInfo ''ZREMRANGEBYSCORE'' 4 (FlagWrite) (KeySpec 1 1 1)),
     (''ZREMRANGEBYRANK'', CmdInfo ''ZREMRANGEBYRANK'' 4 (FlagWrite) (KeySpec 1 1 1)),
     (''ZREMRANGEBYLEX'', CmdInfo ''ZREMRANGEBYLEX'' 4 (FlagWrite) (KeySpec 1 1 1)),
     (''ZPOPMIN'', CmdInfo ''ZPOPMIN'' (- 2) (FlagWrite) (KeySpec 1 1 1)),
     (''ZPOPMAX'', CmdInfo ''ZPOPMAX'' (- 2) (FlagWrite) (KeySpec 1 1 1)),
     (''ZRANDMEMBER'', CmdInfo ''ZRANDMEMBER'' (- 2) (FlagRead) (KeySpec 1 1 1)),
     (''ZSCAN'', CmdInfo ''ZSCAN'' (- 3) (FlagRead) (KeySpec 1 1 1)),
     (''ZUNIONSTORE'', CmdInfo ''ZUNIONSTORE'' (- 4) (FlagWrite OR FlagMultiKey OR FlagNotAllowed) (KeySpec 1 1 1)),
     (''ZINTERSTORE'', CmdInfo ''ZINTERSTORE'' (- 4) (FlagWrite OR FlagMultiKey OR FlagNotAllowed) (KeySpec 1 1 1)),
     (''ZDIFFSTORE'', CmdInfo ''ZDIFFSTORE'' (- 4) (FlagWrite OR FlagMultiKey OR FlagNotAllowed) (KeySpec 1 1 1)),
     (''ZUNION'', CmdInfo ''ZUNION'' (- 3) (FlagRead OR FlagMultiKey OR FlagNotAllowed) (KeySpec 2 (- 1) 1)),
     (''ZINTER'', CmdInfo ''ZINTER'' (- 3) (FlagRead OR FlagMultiKey OR FlagNotAllowed) (KeySpec 2 (- 1) 1)),
     (''ZDIFF'', CmdInfo ''ZDIFF'' (- 3) (FlagRead OR FlagMultiKey OR FlagNotAllowed) (KeySpec 2 (- 1) 1)),
     (''BZPOPMIN'', CmdInfo ''BZPOPMIN'' (- 3) (FlagWrite OR FlagBlocking) (KeySpec 1 (- 2) 1)),
     (''BZPOPMAX'', CmdInfo ''BZPOPMAX'' (- 3) (FlagWrite OR FlagBlocking) (KeySpec 1 (- 2) 1)),
     (''BLMOVE'', CmdInfo ''BLMOVE'' 6 (FlagWrite OR FlagBlocking) (KeySpec 1 2 1)),
     (''BLMPOP'', CmdInfo ''BLMPOP'' (- 5) (FlagWrite OR FlagBlocking) (KeySpec 0 0 0)),
     (''BZMPOP'', CmdInfo ''BZMPOP'' (- 5) (FlagWrite OR FlagBlocking) (KeySpec 0 0 0))]"

definition cmdTable_server :: "(bytes \<times> CmdInfo) list" where
  "cmdTable_server =
    [(''EXPIRE'', CmdInfo ''EXPIRE'' (- 3) (FlagWrite) (KeySpec 1 1 1)),
     (''EXPIREAT'', CmdInfo ''EXPIREAT'' 3 (FlagWrite) (KeySpec 1 1 1)),
     (''PEXPIRE'', CmdInfo ''PEXPIRE'' 3 (FlagWrite) (KeySpec 1 1 1)),
     (''PEXPIREAT'', CmdInfo ''PEXPIREAT'' 3 (FlagWrite) (KeySpec 1 1 1)),
     (''EXPIRETIME'', CmdInfo ''EXPIRETIME'' 2 (FlagRead) (KeySpec 1 1 1)),
     (''PEXPIRETIME'', CmdInfo ''PEXPIRETIME'' 2 (FlagRead) (KeySpec 1 1 1)),
     (''TTL'', CmdInfo ''TTL'' 2 (FlagRead) (KeySpec 1 1 1)),
     (''PTTL'', CmdInfo ''PTTL'' 2 (FlagRead) (KeySpec 1 1 1)),
     (''PERSIST'', CmdInfo ''PERSIST'' 2 (FlagWrite) (KeySpec 1 1 1)),
     (''TYPE'', CmdInfo ''TYPE'' 2 (FlagRead) (KeySpec 1 1 1)),
     (''RENAME'', CmdInfo ''RENAME'' 3 (FlagWrite OR FlagNotAllowed) (KeySpec 1 2 1)),
     (''RENAMENX'', CmdInfo ''RENAMENX'' 3 (FlagWrite OR FlagNotAllowed) (KeySpec 1 2 1)),
     (''COPY'', CmdInfo ''COPY'' (- 3) (FlagWrite) (KeySpec 1 2 1)),
     (''MOVE'', CmdInfo ''MOVE'' 3 (FlagWrite OR FlagNotAllowed) (KeySpec 1 1 1)),
     (''DUMP'', CmdInfo ''DUMP'' 2 (FlagRead OR FlagNotAllowed) (KeySpec 1 1 1)),
     (''RESTORE'', CmdInfo ''RESTORE'' (- 4) (FlagWrite OR FlagNotAllowed) (KeySpec 1 1 1)),
     (''OBJECT'', CmdInfo ''OBJECT'' (- 2) (FlagRead) (KeySpec 2 2 1)),
     (''SORT'', CmdInfo ''SORT'' (- 2) (FlagWrite) (KeySpec 1 1 1)),
     (''SCAN'', CmdInfo ''SCAN'' (- 2) (FlagRead OR FlagAllNodes) (KeySpec 0 0 0)),
     (''PFADD'', CmdInfo ''PFADD'' (- 2) (FlagWrite) (KeySpec 1 1 1)),
     (''PFCOUNT'', CmdInfo ''PFCOUNT'' (- 2) (FlagRead OR FlagMultiKey) (KeySpec 1 (- 1) 1)),
     (''PFMERGE'', CmdInfo ''PFMERGE'' (- 2) (FlagWrite OR FlagMultiKey OR FlagNotAllowed) (KeySpec 1 (- 1) 1)),
     (''GEOADD'', CmdInfo ''GEOADD'' (- 5) (FlagWrite) (KeySpec 1 1 1)),
     (''GEODIST'', CmdInfo ''GEODIST'' (- 4) (FlagRead) (KeySpec 1 1 1)),
     (''GEOHASH'', CmdInfo ''GEOHASH'' (- 3) (FlagRead) (KeySpec 1 1 1)),
     (''GEOPOS'', CmdInfo ''GEOPOS'' (- 2) (FlagRead) (KeySpec 1 1 1)),
     (''GEORADIUS'', CmdInfo ''GEORADIUS'' (- 6) (FlagWrite) (KeySpec 1 1 1)),
     (''GEORADIUSBYMEMBER'', CmdInfo ''GEORADIUSBYMEMBER'' (- 5) (FlagWrite) (KeySpec 1 1 1)),
     (''GEOSEARCH'', CmdInfo ''GEOSEARCH'' (- 7) (FlagRead) (KeySpec 1 1 1)),
     (''GEOSEARCHSTORE'', CmdInfo ''GEOSEARCHSTORE'' (- 8) (FlagWrite) (KeySpec 1 2 1)),
     (''BITCOUNT'', CmdInfo ''BITCOUNT'' (- 2) (FlagRead) (KeySpec 1 1 1)),
     (''BITPOS'', CmdInfo ''BITPOS'' (- 3) (FlagRead) (KeySpec 1 1 1)),
     (''BITOP'', CmdInfo ''BITOP'' (- 4) (FlagWrite OR FlagMultiKey) (KeySpec 2 (- 1) 1)),
     (''BITFIELD'', CmdInfo ''BITFIELD'' (- 2) (FlagWrite) (KeySpec 1 1 1)),
     (''SETBIT'', CmdInfo ''SETBIT'' 4 (FlagWrite) (KeySpec 1 1 1)),
     (''GETBIT'', CmdInfo ''GETBIT'' 3 (FlagRead) (KeySpec 1 1 1)),
     (''XADD'', CmdInfo ''XADD'' (- 5) (FlagWrite) (KeySpec 1 1 1)),
     (''XREAD'', CmdInfo ''XREAD'' (- 4) (FlagRead OR FlagMultiKey) (KeySpec 0 0 0)),
     (''XREADGROUP'', CmdInfo ''XREADGROUP'' (- 7) (FlagWrite OR FlagMultiKey) (KeySpec 0 0 0)),
     (''XRANGE'', CmdInfo ''XRANGE'' (- 4) (FlagRead) (KeySpec 1 1 1)),
     (''XREVRANGE'', CmdInfo ''XREVRANGE'' (- 4) (FlagRead) (KeySpec 1 1 1)),
     (''XLEN'', CmdInfo ''XLEN'' 2 (FlagRead) (KeySpec 1 1 1)),
     (''XACK'', CmdInfo ''XACK'' (- 4) (FlagWrite) (KeySpec 1 1 1)),
     (''XDEL'', CmdInfo ''XDEL'' (- 3) (FlagWrite) (KeySpec 1 1 1)),
     (''XTRIM'', CmdInfo ''XTRIM'' (- 4) (FlagWrite) (KeySpec 1 1 1)),
     (''XINFO'', CmdInfo ''XINFO'' (- 2) (FlagRead) (KeySpec 2 2 1)),
     (''XGROUP'', CmdInfo ''XGROUP'' (- 2) (FlagWrite) (KeySpec 2 2 1)),
     (''XCLAIM'', CmdInfo ''XCLAIM'' (- 6) (FlagWrite) (KeySpec 1 1 1)),
     (''XAUTOCLAIM'', CmdInfo ''XAUTOCLAIM'' (- 7) (FlagWrite) (KeySpec 1 1 1)),
     (''XPENDING'', CmdInfo ''XPENDING'' (- 3) (FlagRead) (KeySpec 1 1 1)),
     (''EVAL'', CmdInfo ''EVAL'' (- 3) (FlagScript) (KeySpec 3 0 1)),
     (''EVALSHA'', CmdInfo ''EVALSHA'' (- 3) (FlagScript) (KeySpec 3 0 1)),
     (''EVAL_RO'', CmdInfo ''EVAL_RO'' (- 3) (FlagScript OR FlagRead) (KeySpec 3 0 1)),
     (''EVALSHA_RO'', CmdInfo ''EVALSHA_RO'' (- 3) (FlagScript OR FlagRead) (KeySpec 3 0 1)),
     (''SCRIPT'', CmdInfo ''SCRIPT'' (- 2) (FlagScript OR FlagAdmin) (KeySpec 0 0 0)),
     (''PUBLISH'', CmdInfo ''PUBLISH'' 3 (FlagPubSub) (KeySpec 0 0 0)),
     (''SUBSCRIBE'', CmdInfo ''SUBSCRIBE'' (- 2) (FlagPubSub) (KeySpec 0 0 0)),
     (''UNSUBSCRIBE'', CmdInfo ''UNSUBSCRIBE'' (- 1) (FlagPubSub) (KeySpec 0 0 0)),
     (''PSUBSCRIBE'', CmdInfo ''PSUBSCRIBE'' (- 2) (FlagPubSub) (KeySpec 0 0 0)),
     (''PUNSUBSCRIBE'', CmdInfo ''PUNSUBSCRIBE'' (- 1) (FlagPubSub) (KeySpec 0 0 0)),
     (''PUBSUB'', CmdInfo ''PUBSUB'' (- 2) (FlagPubSub OR FlagRead) (KeySpec 0 0 0)),
     (''MULTI'', CmdInfo ''MULTI'' 1 (FlagTransaction) (KeySpec 0 0 0)),
     (''EXEC'', CmdInfo ''EXEC'' 1 (FlagTransaction) (KeySpec 0 0 0)),
     (''DISCARD'', CmdInfo ''DISCARD'' 1 (FlagTransaction) (KeySpec 0 0 0)),
     (''WATCH'', CmdInfo ''WATCH'' (- 2) (FlagTransaction) (KeySpec 1 (- 1) 1)),
     (''UNWATCH'', CmdInfo ''UNWATCH'' 1 (FlagTransaction) (KeySpec 0 0 0)),
     (''PING'', CmdInfo ''PING'' (- 1) (FlagNoKey) (KeySpec 0 0 0)),
     (''ECHO'', CmdInfo ''ECHO'' 2 (FlagNoKey) (KeySpec 0 0 0)),
     (''SELECT'', CmdInfo ''SELECT'' 2 (FlagNoKey) (KeySpec 0 0 0)),
     (''AUTH'', CmdInfo ''AUTH'' (- 2) (FlagNoKey) (KeySpec 0 0 0)),
     (''QUIT'', CmdInfo ''QUIT'' 1 (FlagNoKey) (KeySpec 0 0 0)),
     (''RESET'', CmdInfo ''RESET'' 1 (FlagNoKey) (KeySpec 0 0 0)),
     (''CLIENT'', CmdInfo ''CLIENT'' (- 2) (FlagNoKey) (KeySpec 0 0 0)),
     (''DBSIZE'', CmdInfo ''DBSIZE'' 1 (FlagRead OR FlagAllNodes) (KeySpec 0 0 0)),
     (''KEYS'', CmdInfo ''KEYS'' 2 (FlagRead OR FlagAllNodes) (KeySpec 0 0 0)),
     (''RANDOMKEY'', CmdInfo ''RANDOMKEY'' 1 (FlagRead OR FlagAllNodes OR FlagNotAllowed) (KeySpec 0 0 0)),
     (''FLUSHDB'', CmdInfo ''FLUSHDB'' (- 1) (FlagWrite OR FlagAdmin OR FlagAllNodes) (KeySpec 0 0 0)),
     (''FLUSHALL'', CmdInfo ''FLUSHALL'' (- 1) (FlagWrite OR FlagAdmin OR FlagAllNodes) (KeySpec 0 0 0)),
     (''INFO'', CmdInfo ''INFO'' (- 1) (FlagRead OR FlagAdmin) (KeySpec 0 0 0)),
     (''CONFIG'', CmdInfo ''CONFIG'' (- 2) (FlagAdmin) (KeySpec 0 0 0)),
     (''DEBUG'', CmdInfo ''DEBUG'' (- 2) (FlagAdmin) (KeySpec 0 0 0)),
     (''CLUSTER'', CmdInfo ''CLUSTER'' (- 2) (FlagAdmin) (KeySpec 0 0 0)),
     (''COMMAND'', CmdInfo ''COMMAND'' (- 1) (FlagNoKey) (KeySpec 0 0 0)),
     (''LATENCY'', CmdInfo ''LATENCY'' (- 2) (FlagAdmin) (KeySpec 0 0 0)),
     (''SLOWLOG'', CmdInfo ''SLOWLOG'' (- 2) (FlagAdmin) (KeySpec 0 0 0)),
     (''TIME'', CmdInfo ''TIME'' 1 (FlagRead OR FlagNoKey) (KeySpec 0 0 0)),
     (''WAIT'', CmdInfo ''WAIT'' 3 (FlagNoKey) (KeySpec 0 0 0)),
     (''HELLO'', CmdInfo ''HELLO'' (- 1) (FlagNoKey) (KeySpec 0 0 0)),
     (''READONLY'', CmdInfo ''READONLY'' 1 (FlagNoKey) (KeySpec 0 0 0)),
     (''READWRITE'', CmdInfo ''READWRITE'' 1 (FlagNoKey) (KeySpec 0 0 0)),
     (''BROADCAST'', CmdInfo ''BROADCAST'' (- 2) (FlagAdmin OR FlagAllNodes) (KeySpec 0 0 0))]"

definition cmdTable :: "(bytes \<times> CmdInfo) list" where
  "cmdTable = cmdTable_data @ cmdTable_server"

definition GetCmdInfo :: "bytes \<Rightarrow> CmdInfo option" where
  "GetCmdInfo name = map_of cmdTable name"

definition HasFlag :: "CmdInfo option \<Rightarrow> CmdFlag \<Rightarrow> bool" where
  "HasFlag c f = (case c of None \<Rightarrow> False | Some i \<Rightarrow> ciFlags i AND f \<noteq> 0)"

definition IsWrite :: "CmdInfo option \<Rightarrow> bool" where "IsWrite c = HasFlag c FlagWrite"
definition IsRead :: "CmdInfo option \<Rightarrow> bool" where "IsRead c = HasFlag c FlagRead"
definition IsMultiKey :: "CmdInfo option \<Rightarrow> bool" where "IsMultiKey c = HasFlag c FlagMultiKey"
definition IsNoKey :: "CmdInfo option \<Rightarrow> bool" where "IsNoKey c = HasFlag c FlagNoKey"
definition IsBlocking :: "CmdInfo option \<Rightarrow> bool" where "IsBlocking c = HasFlag c FlagBlocking"
definition IsPubSub :: "CmdInfo option \<Rightarrow> bool" where "IsPubSub c = HasFlag c FlagPubSub"
definition IsScript :: "CmdInfo option \<Rightarrow> bool" where "IsScript c = HasFlag c FlagScript"
definition IsAllNodes :: "CmdInfo option \<Rightarrow> bool" where "IsAllNodes c = HasFlag c FlagAllNodes"
definition IsTransaction :: "CmdInfo option \<Rightarrow> bool" where "IsTransaction c = HasFlag c FlagTransaction"
definition IsNotAllowed :: "CmdInfo option \<Rightarrow> bool" where "IsNotAllowed c = HasFlag c FlagNotAllowed"

lemmas info_defs =
  HasFlag_def IsWrite_def IsRead_def IsMultiKey_def IsNoKey_def IsBlocking_def IsPubSub_def
  IsScript_def IsAllNodes_def IsTransaction_def IsNotAllowed_def


section \<open>Keys of a request\<close>

text \<open>A nil slice, no key, is \<^term>\<open>None\<close>.\<close>

definition GetFirstKeyFromRequest :: "Request \<Rightarrow> bytes option" where
  "GetFirstKeyFromRequest req =
     (if Args req = [] then None
      else (case GetCmdInfo (Cmd req) of
              None \<Rightarrow> None
            | Some info \<Rightarrow>
               (let k = FirstKey (ciKeySpec info)
                in if k \<le> 0 \<or> k \<ge> int (length (Args req)) then None else Some (Args req ! nat k))))"

definition GetFirstKeyAndInfo :: "Request \<Rightarrow> bytes option \<times> CmdInfo option" where
  "GetFirstKeyAndInfo req =
     (if Args req = [] then (None, None)
      else (case GetCmdInfo (Cmd req) of
              None \<Rightarrow> (None, None)
            | Some info \<Rightarrow>
               (let k = FirstKey (ciKeySpec info)
                in if k \<le> 0 \<or> k \<ge> int (length (Args req)) then (None, Some info)
                   else (Some (Args req ! nat k), Some info))))"

text \<open>The loop from \<open>i\<close> to \<open>lst\<close>; the step is positive when the loop starts.\<close>

function keysLoop :: "bytes list \<Rightarrow> int \<Rightarrow> int \<Rightarrow> int \<Rightarrow> bytes list" where
  "keysLoop args step lst i =
     (if i \<le> lst \<and> 0 < step then args ! nat i # keysLoop args step lst (i + step) else [])"
  by auto
termination by (relation "measure (\<lambda>(args, step, lst, i). nat (lst + 1 - i))") auto

declare keysLoop.simps [simp del]

definition GetKeys :: "Request \<Rightarrow> bytes list" where
  "GetKeys req =
     (if Args req = [] then []
      else (case GetCmdInfo (Cmd req) of
              None \<Rightarrow> []
            | Some info \<Rightarrow>
               (let spec = ciKeySpec info; argc = int (length (Args req));
                    step = (if Step spec \<le> 0 then 1 else Step spec);
                    lst = (if LastKey spec < 0 then argc + LastKey spec else LastKey spec)
                in if FirstKey spec = 0 then []
                   else if FirstKey spec \<ge> argc \<or> lst \<ge> argc \<or> lst < FirstKey spec then []
                   else keysLoop (Args req) step lst (FirstKey spec))))"

definition IsBlockingXREAD :: "Request \<Rightarrow> bool" where
  "IsBlockingXREAD req =
     ((Cmd req = ''XREAD'' \<or> Cmd req = ''XREADGROUP'') \<and>
      (\<exists>a \<in> set (butlast (tl (Args req))). equal_fold a ''BLOCK''))"


section \<open>Table invariants\<close>

text \<open>What every entry satisfies: the key is the name, key positions are sane, and no command both reads and writes.\<close>

definition entry_ok :: "bytes \<times> CmdInfo \<Rightarrow> bool" where
  "entry_ok e = (case e of (k, i) \<Rightarrow>
     ciName i = k \<and> 0 \<le> FirstKey (ciKeySpec i) \<and> 0 \<le> Step (ciKeySpec i) \<and>
     \<not> (ciFlags i AND FlagRead \<noteq> 0 \<and> ciFlags i AND FlagWrite \<noteq> 0) \<and>
     (ciFlags i AND FlagBlocking \<noteq> 0 \<longrightarrow> ciFlags i AND FlagWrite \<noteq> 0) \<and>
     (ciFlags i AND FlagAllNodes \<noteq> 0 \<longrightarrow> FirstKey (ciKeySpec i) = 0))"

lemma cmdTable_data_ok: "list_all entry_ok cmdTable_data"
  by (simp add: cmdTable_data_def entry_ok_def flag_defs)

lemma cmdTable_server_ok: "list_all entry_ok cmdTable_server"
  by (simp add: cmdTable_server_def entry_ok_def flag_defs)

lemma GetCmdInfo_ok: "GetCmdInfo n = Some i \<Longrightarrow> entry_ok (n, i)"
  using cmdTable_data_ok cmdTable_server_ok map_of_SomeD [of cmdTable n i]
  by (auto simp: GetCmdInfo_def cmdTable_def list_all_iff)

lemma keysLoop_mem:
  "k \<in> set (keysLoop args step lst i) \<Longrightarrow> \<exists>j. i \<le> j \<and> j \<le> lst \<and> k = args ! nat j"
proof (induction args step lst i rule: keysLoop.induct)
  case (1 args step lst i)
  have "i \<le> lst \<and> 0 < step" "k = args ! nat i \<or> k \<in> set (keysLoop args step lst (i + step))"
    using "1.prems" by (subst (asm) keysLoop.simps; simp split: if_splits)+
  with "1.IH" show ?case by (metis add_increasing2 dual_order.trans le_add_same_cancel1 order_less_imp_le order_refl)
qed

lemma GetKeys_cases:
  assumes "k \<in> set (GetKeys req)"
  obtains info lst where "GetCmdInfo (Cmd req) = Some info" "1 \<le> FirstKey (ciKeySpec info)"
    "lst < int (length (Args req))" "FirstKey (ciKeySpec info) \<le> lst"
    "GetKeys req = keysLoop (Args req) (if Step (ciKeySpec info) \<le> 0 then 1 else Step (ciKeySpec info))
       lst (FirstKey (ciKeySpec info))"
proof -
  from assms obtain info where info: "GetCmdInfo (Cmd req) = Some info" "Args req \<noteq> []"
    by (cases "GetCmdInfo (Cmd req)") (auto simp: GetKeys_def split: if_splits)
  from GetCmdInfo_ok [OF info(1)] have first: "0 \<le> FirstKey (ciKeySpec info)" by (simp add: entry_ok_def)
  let ?lst = "if LastKey (ciKeySpec info) < 0 then int (length (Args req)) + LastKey (ciKeySpec info)
    else LastKey (ciKeySpec info)"
  have "FirstKey (ciKeySpec info) \<noteq> 0 \<and>
      \<not> (FirstKey (ciKeySpec info) \<ge> int (length (Args req)) \<or> ?lst \<ge> int (length (Args req)) \<or>
        ?lst < FirstKey (ciKeySpec info))"
  proof (rule ccontr)
    assume "\<not> ?thesis"
    then have "GetKeys req = []" using info unfolding GetKeys_def Let_def by auto
    with assms show False by simp
  qed
  with info first show thesis
    by (intro that [of info ?lst]) (simp_all only: GetKeys_def Let_def if_False option.case, linarith+)
qed


text \<open>
  \<open>GetKeys\<close> never leaves the argument list: every key it returns is an argument of the
  request other than the command name, and the first one is the key that the request is routed
  by.
\<close>

lemma GetKeys_args:
  assumes "k \<in> set (GetKeys req)"
  shows "(\<exists>i. 1 \<le> i \<and> i < length (Args req) \<and> k = Args req ! i) \<and>
    GetFirstKeyFromRequest req = Some (hd (GetKeys req))"
proof -
  obtain info lst where
    *: "GetCmdInfo (Cmd req) = Some info" "1 \<le> FirstKey (ciKeySpec info)" "lst < int (length (Args req))"
      "FirstKey (ciKeySpec info) \<le> lst"
      "GetKeys req = keysLoop (Args req) (if Step (ciKeySpec info) \<le> 0 then 1 else Step (ciKeySpec info))
         lst (FirstKey (ciKeySpec info))"
    using GetKeys_cases [OF assms] .
  obtain j where "FirstKey (ciKeySpec info) \<le> j" "j \<le> lst" "k = Args req ! nat j"
    using assms unfolding *(5) by (blast dest: keysLoop_mem)
  with * have "1 \<le> nat j" "nat j < length (Args req)" "k = Args req ! nat j" by linarith+
  moreover have "hd (GetKeys req) = Args req ! nat (FirstKey (ciKeySpec info))"
    unfolding *(5) using *(4) by (subst keysLoop.simps) auto
  moreover have "Args req \<noteq> []" using *(2-4) by auto
  ultimately show ?thesis
    using * by (auto simp: GetFirstKeyFromRequest_def Let_def)
qed

text \<open>
  The positions of the keys in a request of \<open>argc\<close> arguments, from the entry of its command: from
  the first key to the last one, which counts from the end when it is negative, in steps. A
  request has a valid number of arguments when that is the arity, or at least its absolute value
  when it is negative; the help forms of the container commands have two and no key.
\<close>

definition keyLast :: "CmdInfo \<Rightarrow> nat \<Rightarrow> int" where
  "keyLast info argc = (if LastKey (ciKeySpec info) < 0 then int argc + LastKey (ciKeySpec info) else LastKey (ciKeySpec info))"

definition keyIndices :: "CmdInfo \<Rightarrow> nat \<Rightarrow> nat list" where
  "keyIndices info argc = filter (\<lambda>j. FirstKey (ciKeySpec info) \<le> int j \<and> int j \<le> keyLast info argc \<and>
     max 1 (Step (ciKeySpec info)) dvd int j - FirstKey (ciKeySpec info)) [0..<argc]"

definition containers :: "bytes list" where
  "containers = [''OBJECT'', ''XINFO'', ''XGROUP'']"

definition validArgc :: "bytes \<Rightarrow> CmdInfo \<Rightarrow> nat \<Rightarrow> bool" where
  "validArgc name info argc \<longleftrightarrow>
     (if 0 \<le> ciArity info then int argc = ciArity info else - ciArity info \<le> int argc) \<and> (name \<in> set containers \<longrightarrow> 2 < argc)"

definition keys_fit :: "bytes \<times> CmdInfo \<Rightarrow> bool" where
  "keys_fit e = (case e of (k, i) \<Rightarrow>
     FirstKey (ciKeySpec i) \<noteq> 0 \<longrightarrow> ciFlags i AND FlagScript = 0 \<longrightarrow>
       (let m = (if k \<in> set containers then 3 else \<bar>ciArity i\<bar>)
        in FirstKey (ciKeySpec i) < m \<and>
           (if LastKey (ciKeySpec i) < 0 then FirstKey (ciKeySpec i) \<le> m + LastKey (ciKeySpec i)
            else FirstKey (ciKeySpec i) \<le> LastKey (ciKeySpec i) \<and> LastKey (ciKeySpec i) < m)))"

lemma cmdTable_data_fit: "list_all keys_fit cmdTable_data"
  by (simp add: cmdTable_data_def keys_fit_def flag_defs containers_def)

lemma cmdTable_server_fit: "list_all keys_fit cmdTable_server"
  by (simp add: cmdTable_server_def keys_fit_def flag_defs containers_def)

lemma GetCmdInfo_fit: "GetCmdInfo n = Some i \<Longrightarrow> keys_fit (n, i)"
  using cmdTable_data_fit cmdTable_server_fit map_of_SomeD [of cmdTable n i]
  by (auto simp: GetCmdInfo_def cmdTable_def list_all_iff)

text \<open>A strictly ordered enumeration starts with its least element.\<close>

lemma filter_upt_least:
  assumes "i < n" "\<And>j. P j \<longleftrightarrow> j = i \<or> Q j" "\<And>j. Q j \<Longrightarrow> i < j"
  shows "filter P [0..<n] = i # filter Q [0..<n]"
proof (rule sorted_distinct_set_unique)
  show "sorted (filter P [0..<n])" "distinct (filter P [0..<n])" by (simp_all add: sorted_wrt_filter)
  show "sorted (i # filter Q [0..<n])" using assms(3) by (auto simp: sorted_wrt_filter less_imp_le)
  show "distinct (i # filter Q [0..<n])" using assms(3) by auto
  show "set (filter P [0..<n]) = set (i # filter Q [0..<n])" using assms by auto
qed

lemma keysLoop_positions:
  "0 < step \<Longrightarrow> 0 \<le> i \<Longrightarrow> lst < int (length args) \<Longrightarrow>
   keysLoop args step lst i = map ((!) args) (filter (\<lambda>j. i \<le> int j \<and> int j \<le> lst \<and> step dvd int j - i) [0..<length args])"
proof (induction args step lst i rule: keysLoop.induct)
  case (1 args step lst i)
  show ?case
  proof (cases "i \<le> lst")
    case False
    then have "filter (\<lambda>j. i \<le> int j \<and> int j \<le> lst \<and> step dvd int j - i) [0..<length args] = []" by (auto simp: filter_empty_conv)
    then show ?thesis using False by (subst keysLoop.simps) simp
  next
    case True
    let ?Q = "\<lambda>j. i + step \<le> int j \<and> int j \<le> lst \<and> step dvd int j - (i + step)"
    have d: "step dvd int j - (i + step) \<longleftrightarrow> step dvd int j - i" for j
      by (metis diff_diff_eq dvd_diff_commute dvd_diff_right_iff dvd_refl)
    have "i + step \<le> int j" if "i < int j" "step dvd int j - i" for j
      using zdvd_imp_le [OF that(2)] that(1) by simp
    then have "(i \<le> int j \<and> int j \<le> lst \<and> step dvd int j - i) \<longleftrightarrow> j = nat i \<or> ?Q j" for j
      using True "1.prems" by (auto simp: d) 
    then have "filter (\<lambda>j. i \<le> int j \<and> int j \<le> lst \<and> step dvd int j - i) [0..<length args] = nat i # filter ?Q [0..<length args]"
      using True "1.prems" by (intro filter_upt_least) auto
    moreover have "keysLoop args step lst (i + step) = map ((!) args) (filter ?Q [0..<length args])"
      by (rule "1.IH") (use True "1.prems" in auto)
    ultimately show ?thesis using True "1.prems" by (subst keysLoop.simps) simp
  qed
qed

lemma keyIndices_empty:
  "keyLast info argc < FirstKey (ciKeySpec info) \<or> int argc \<le> FirstKey (ciKeySpec info) \<Longrightarrow> keyIndices info argc = []"
  by (auto simp: keyIndices_def filter_empty_conv)

lemma GetKeys_keyIndices:
  assumes "GetCmdInfo (Cmd req) = Some info" "FirstKey (ciKeySpec info) \<noteq> 0"
  shows "GetKeys req = (if keyLast info (length (Args req)) < int (length (Args req))
    then map ((!) (Args req)) (keyIndices info (length (Args req))) else [])"
proof -
  let ?n = "length (Args req)" and ?s = "ciKeySpec info"
  have s: "(if Step ?s \<le> 0 then 1 else Step ?s) = max 1 (Step ?s)" by auto
  have "0 \<le> FirstKey ?s" using GetCmdInfo_ok [OF assms(1)] by (simp add: entry_ok_def)
  then have loop: "keysLoop (Args req) (max 1 (Step ?s)) (keyLast info ?n) (FirstKey ?s) = map ((!) (Args req)) (keyIndices info ?n)"
    if "keyLast info ?n < int ?n" using that unfolding keyIndices_def by (intro keysLoop_positions) auto
  have "GetKeys req = (if Args req = [] \<or> FirstKey ?s \<ge> int ?n \<or> keyLast info ?n \<ge> int ?n \<or> keyLast info ?n < FirstKey ?s then []
      else keysLoop (Args req) (max 1 (Step ?s)) (keyLast info ?n) (FirstKey ?s))"
    using assms by (simp add: GetKeys_def Let_def s keyLast_def)
  then show ?thesis using loop keyIndices_empty [of info ?n] by (auto simp: keyIndices_def)
qed

lemma GetKeys_first:
  assumes "GetCmdInfo (Cmd req) = Some info" "FirstKey (ciKeySpec info) \<noteq> 0" "\<not> IsScript (Some info)"
    and "validArgc (Cmd req) info (length (Args req))"
  shows "\<exists>ks. GetKeys req = Args req ! nat (FirstKey (ciKeySpec info)) # ks \<and>
    1 \<le> FirstKey (ciKeySpec info) \<and> FirstKey (ciKeySpec info) < int (length (Args req))"
proof -
  let ?n = "int (length (Args req))" and ?s = "ciKeySpec info"
  have f: "1 \<le> FirstKey ?s" using GetCmdInfo_ok [OF assms(1)] assms(2) by (simp add: entry_ok_def)
  define m where "m = (if Cmd req \<in> set containers then 3 else \<bar>ciArity info\<bar>)"
  have m: "m \<le> ?n" using assms(4) by (auto simp: validArgc_def m_def split: if_splits)
  have "FirstKey ?s < m \<and> (if LastKey ?s < 0 then FirstKey ?s \<le> m + LastKey ?s else FirstKey ?s \<le> LastKey ?s \<and> LastKey ?s < m)"
    using GetCmdInfo_fit [OF assms(1)] assms(2,3) by (simp add: keys_fit_def m_def info_defs Let_def)
  then have l: "FirstKey ?s < ?n" "FirstKey ?s \<le> keyLast info (length (Args req))" "keyLast info (length (Args req)) < ?n"
    using m by (auto simp: keyLast_def split: if_splits)
  let ?P = "\<lambda>j. FirstKey ?s \<le> int j \<and> int j \<le> keyLast info (length (Args req)) \<and> max 1 (Step ?s) dvd int j - FirstKey ?s"
  have "filter ?P [0..<length (Args req)] = nat (FirstKey ?s) # filter (\<lambda>j. ?P j \<and> nat (FirstKey ?s) < j) [0..<length (Args req)]"
    using f l by (intro filter_upt_least) auto
  then show ?thesis using GetKeys_keyIndices [OF assms(1,2)] l f by (simp add: keyIndices_def)
qed


section \<open>Properties\<close>



end
