(* ===== verification/Topology.thy ===== *)
theory Topology
  imports Resp_IO Crc16 "HOL-Library.AList" "HOL-Library.Multiset"
begin

text \<open>
  Cluster topology, \<^verbatim>\<open>src/pkg/cluster/topology.go\<close>: the parser of \<^verbatim>\<open>CLUSTER NODES\<close>, the
  topology snapshot with its slot, replica and balanced lookups, and the manager that refreshes
  it from the entry points. A node pointer is the address under which the node is stored. The
  iteration order of a Go map is unspecified: wherever the source ranges over a map, the order
  is a parameter \<open>it\<close> that returns the keys in some order. The network is a parameter: what each
  entry point answers to the two commands, if it can be reached.
\<close>

section \<open>Nodes and snapshots\<close>

datatype NodeRole = RoleMaster | RoleReplica

record Node =
  nID :: bytes
  nAddr :: bytes
  nRole :: NodeRole
  nSlots :: "(int \<times> int) list"
  nReplicas :: "bytes list"
  nMasterID :: bytes

type_synonym nodes = "(bytes \<times> Node) list"
type_synonym slots = "nat \<Rightarrow> bytes option"
type_synonym map_order = "bytes list \<Rightarrow> bytes list"

record topoSnapshot =
  snNodes :: nodes
  snSlots :: slots
  snMasters :: "Node list"
  snVersion :: int
  snFingerprint :: bytes

record Topology =
  tSnap :: topoSnapshot
  rrCounter :: "64 word"
  msrrCounter :: "64 word"
  topoVersion :: int

definition NewTopology :: Topology where
  "NewTopology =
     \<lparr>tSnap = \<lparr>snNodes = [], snSlots = (\<lambda>_. None), snMasters = [], snVersion = 0, snFingerprint = []\<rparr>,
      rrCounter = 0, msrrCounter = 0, topoVersion = 0\<rparr>"

definition GetNodeByAddr :: "Topology \<Rightarrow> bytes \<Rightarrow> Node option" where
  "GetNodeByAddr t addr = map_of (snNodes (tSnap t)) addr"

definition GetNodeForSlot :: "Topology \<Rightarrow> int \<Rightarrow> Node option" where
  "GetNodeForSlot t slot =
     (if slot < 0 \<or> slot \<ge> int ClusterSlots then None
      else (case snSlots (tSnap t) (nat slot) of None \<Rightarrow> None | Some a \<Rightarrow> GetNodeByAddr t a))"

text \<open>The atomic counters advance with every selection; they wrap around at 64 bits.\<close>

definition GetReplicaForSlot :: "Topology \<Rightarrow> int \<Rightarrow> Node option \<times> Topology" where
  "GetReplicaForSlot t slot =
     (case GetNodeForSlot t slot of
        None \<Rightarrow> (None, t)
      | Some master \<Rightarrow>
         if nReplicas master = [] then (None, t)
         else (let c = rrCounter t + 1
               in (GetNodeByAddr t (nReplicas master ! (unat c mod length (nReplicas master))),
                   t\<lparr>rrCounter := c\<rparr>)))"

definition GetNodeForSlotPreferReplica :: "Topology \<Rightarrow> int \<Rightarrow> Node option \<times> Topology" where
  "GetNodeForSlotPreferReplica t slot =
     (case GetReplicaForSlot t slot of
        (Some r, t') \<Rightarrow> (Some r, t')
      | (None, t') \<Rightarrow> (GetNodeForSlot t' slot, t'))"

definition GetNodeForSlotBalanced :: "Topology \<Rightarrow> int \<Rightarrow> Node option \<times> Topology" where
  "GetNodeForSlotBalanced t slot =
     (case GetNodeForSlot t slot of
        None \<Rightarrow> (None, t)
      | Some master \<Rightarrow>
         (let nodes = nAddr master # nReplicas master; c = msrrCounter t + 1
          in (GetNodeByAddr t (nodes ! (unat c mod length nodes)), t\<lparr>msrrCounter := c\<rparr>)))"

definition AllMasters :: "Topology \<Rightarrow> Node list" where
  "AllMasters t = snMasters (tSnap t)"

text \<open>The nodes of a map in iteration order.\<close>

definition rangeNodes :: "map_order \<Rightarrow> nodes \<Rightarrow> Node list" where
  "rangeNodes it nodes = List.map_filter (map_of nodes) (it (map fst nodes))"

definition AllNodes :: "map_order \<Rightarrow> Topology \<Rightarrow> Node list" where
  "AllNodes it t = rangeNodes it (snNodes (tSnap t))"

definition Version :: "Topology \<Rightarrow> int" where
  "Version t = topoVersion t"

definition Update :: "map_order \<Rightarrow> Topology \<Rightarrow> nodes \<Rightarrow> slots \<Rightarrow> bytes \<Rightarrow> Topology" where
  "Update it t nodes slots fingerprint =
     (let masters = sort_key nAddr (filter (\<lambda>n. nRole n = RoleMaster) (rangeNodes it nodes));
          newVersion = wrap64 (topoVersion t + 1)
      in t\<lparr>topoVersion := newVersion,
           tSnap := \<lparr>snNodes = nodes, snSlots = slots, snMasters = masters,
                    snVersion = newVersion, snFingerprint = fingerprint\<rparr>\<rparr>)"

definition nodeFingerprint :: "Node \<Rightarrow> bytes" where
  "nodeFingerprint n =
     '':'' @ (if nRole n = RoleMaster then ''m'' else ''r'') @ '':'' @
     concat (map (\<lambda>(a, b). fmt_int a @ ''-'' @ fmt_int b @ '','') (nSlots n))"

definition topoFingerprint :: "map_order \<Rightarrow> nodes \<Rightarrow> bytes" where
  "topoFingerprint it nodes =
     join ''|'' (sort (List.map_filter
       (\<lambda>addr. map_option (\<lambda>n. addr @ nodeFingerprint n) (map_of nodes addr)) (it (map fst nodes))))"


section \<open>Parsing \<^verbatim>\<open>CLUSTER NODES\<close>\<close>

text \<open>The loop \<^verbatim>\<open>for s := start; s <= end; s++\<close> with \<open>k\<close> iterations left.\<close>

fun fillLoop :: "nat \<Rightarrow> int \<Rightarrow> bytes \<Rightarrow> slots \<Rightarrow> slots" where
  "fillLoop 0 s addr slots = slots"
| "fillLoop (Suc k) s addr slots =
     fillLoop k (s + 1) addr (if 0 \<le> s \<and> s < int ClusterSlots then slots(nat s \<mapsto> addr) else slots)"

text \<open>
  One slot field of a master. \<^term>\<open>None\<close>: with the largest integer as its end the loop never
  leaves, since the counter wraps around.
\<close>

definition parseSlotField :: "bytes \<Rightarrow> bytes \<Rightarrow> (int \<times> int) list \<times> slots \<Rightarrow> ((int \<times> int) list \<times> slots) option" where
  "parseSlotField addr field st = (case st of (ranges, slots) \<Rightarrow>
     if has_prefix field ''['' then Some st
     else (case index_byte (CHR ''-'') field of
        Some idx \<Rightarrow>
         (case (Atoi (take idx field), Atoi (drop (idx + 1) field)) of
            (Some start, Some end) \<Rightarrow>
              if start \<le> end \<and> end = 2 ^ 63 - 1 then None
              else Some (ranges @ [(start, end)], fillLoop (nat (end - start + 1)) start addr slots)
          | _ \<Rightarrow> Some st)
      | None \<Rightarrow>
         (case Atoi field of
            None \<Rightarrow> Some st
          | Some s \<Rightarrow>
             Some (ranges @ [(s, s)],
               if 0 \<le> s \<and> s < int ClusterSlots then slots(nat s \<mapsto> addr) else slots))))"

fun parseSlotFields :: "bytes \<Rightarrow> bytes list \<Rightarrow> (int \<times> int) list \<times> slots \<Rightarrow> ((int \<times> int) list \<times> slots) option" where
  "parseSlotFields addr [] st = Some st"
| "parseSlotFields addr (f # fs) st =
     (case parseSlotField addr f st of None \<Rightarrow> None | Some st' \<Rightarrow> parseSlotFields addr fs st')"

definition newNode :: "bytes \<Rightarrow> bytes \<Rightarrow> Node" where
  "newNode nodeID addr =
     \<lparr>nID = nodeID, nAddr = addr, nRole = RoleMaster, nSlots = [], nReplicas = [], nMasterID = []\<rparr>"

definition getNode :: "bytes \<Rightarrow> bytes \<Rightarrow> nodes \<Rightarrow> Node" where
  "getNode nodeID addr nodes =
     (case map_of nodes addr of
        None \<Rightarrow> newNode nodeID addr
      | Some n \<Rightarrow> if nID n = [] then n\<lparr>nID := nodeID\<rparr> else n)"

definition setRole :: "bool \<Rightarrow> bool \<Rightarrow> bytes \<Rightarrow> Node \<Rightarrow> Node" where
  "setRole isMaster isSlave masterID n =
     (if isMaster then n\<lparr>nRole := RoleMaster, nMasterID := []\<rparr>
      else if isSlave then
        (if masterID \<noteq> ''-'' \<and> masterID \<noteq> [] then n\<lparr>nRole := RoleReplica, nMasterID := masterID\<rparr>
         else n\<lparr>nRole := RoleReplica\<rparr>)
      else n)"

definition parseNodeLine :: "bytes \<Rightarrow> nodes \<times> slots \<Rightarrow> (nodes \<times> slots) option" where
  "parseNodeLine line0 st = (case st of (nodes, slots) \<Rightarrow>
     let line = trim_space line0; fields = Fields line in
     if line = [] then Some st
     else if length fields < 8 then Some st
     else
       let addr = hd (splitN (CHR ''@'') (Suc (Suc 0)) (fields ! 1));
           flagSet = split_char (CHR '','') (fields ! 2);
           masterID = fields ! 3
       in if addr = [] \<or> addr = '':0'' then Some st
          else if ''noaddr'' \<in> set flagSet \<or> ''handshake'' \<in> set flagSet then Some st
          else if ''fail'' \<in> set flagSet \<or> ''pfail'' \<in> set flagSet then Some st
          else
            let isMaster = (''master'' \<in> set flagSet);
                isSlave = (''slave'' \<in> set flagSet \<or> ''replica'' \<in> set flagSet \<or>
                           (masterID \<noteq> ''-'' \<and> masterID \<noteq> []));
                n = setRole isMaster isSlave masterID (getNode (fields ! 0) addr nodes)
            in if isMaster then
                 (case parseSlotFields addr (drop 8 fields) (nSlots n, slots) of
                    None \<Rightarrow> None
                  | Some (ranges, slots') \<Rightarrow> Some (AList.update addr (n\<lparr>nSlots := ranges\<rparr>) nodes, slots'))
               else Some (AList.update addr n nodes, slots))"

fun parseNodeLines :: "bytes list \<Rightarrow> nodes \<times> slots \<Rightarrow> (nodes \<times> slots) option" where
  "parseNodeLines [] st = Some st"
| "parseNodeLines (l # ls) st =
     (case parseNodeLine l st of None \<Rightarrow> None | Some st' \<Rightarrow> parseNodeLines ls st')"

text \<open>The second pass: each replica is appended to the first node with its master's identifier.\<close>

definition linkReplica :: "(bytes \<Rightarrow> map_order) \<Rightarrow> bytes \<Rightarrow> nodes \<Rightarrow> nodes" where
  "linkReplica inner addr nodes =
     (case map_of nodes addr of
        None \<Rightarrow> nodes
      | Some n \<Rightarrow>
         if nRole n = RoleReplica \<and> nMasterID n \<noteq> [] then
           (case List.find (\<lambda>a. case map_of nodes a of None \<Rightarrow> False | Some m \<Rightarrow> nID m = nMasterID n)
                   (inner addr (map fst nodes)) of
              None \<Rightarrow> nodes
            | Some a \<Rightarrow>
               (case map_of nodes a of
                  None \<Rightarrow> nodes
                | Some m \<Rightarrow> AList.update a (m\<lparr>nReplicas := nReplicas m @ [addr]\<rparr>) nodes))
         else nodes)"

definition parseClusterNodes :: "map_order \<Rightarrow> (bytes \<Rightarrow> map_order) \<Rightarrow> bytes \<Rightarrow> (nodes \<times> slots) option" where
  "parseClusterNodes it inner raw =
     (case parseNodeLines (split_char LF (trim_space raw)) ([], \<lambda>_. None) of
        None \<Rightarrow> None
      | Some (nodes, slots) \<Rightarrow> Some (fold (linkReplica inner) (it (map fst nodes)) nodes, slots))"


section \<open>The manager\<close>

record Manager =
  entryPoints :: "bytes list"
  mgrPassword :: bytes
  mgrUsername :: bytes
  mgrTopo :: Topology
  refreshCh :: bool
  started :: bool
  stopped :: bool

definition NewManager :: "bytes list \<Rightarrow> bytes \<Rightarrow> bytes \<Rightarrow> Manager" where
  "NewManager eps username password =
     \<lparr>entryPoints = eps, mgrPassword = password, mgrUsername = username, mgrTopo = NewTopology,
      refreshCh = False, started = False, stopped = False\<rparr>"

definition EntryPoints :: "Manager \<Rightarrow> bytes list" where
  "EntryPoints m = entryPoints m"

definition LoadTopo :: "Manager \<Rightarrow> Topology" where
  "LoadTopo m = mgrTopo m"

text \<open>The refresh channel holds one token; a trigger on a full channel does nothing.\<close>

definition TriggerRefresh :: "Manager \<Rightarrow> Manager" where
  "TriggerRefresh m = m\<lparr>refreshCh := True\<rparr>"

definition authCommand :: "bytes \<Rightarrow> bytes \<Rightarrow> bytes" where
  "authCommand username password =
     (if username \<noteq> [] then EncodeCommand [''AUTH'', username, password]
      else EncodeCommand [''AUTH'', password])"

datatype terr = DialErr bytes | ReadErr rerr | RedisErr bytes

text \<open>The commands on a connection whose server answers with the given bytes.\<close>

definition authenticate :: "bytes \<Rightarrow> terr + unit" where
  "authenticate reply =
     (case ReadValue reply of
        Inl e \<Rightarrow> Inl (ReadErr e)
      | Inr (v, _) \<Rightarrow> if IsError v then Inl (RedisErr (''auth failed: '' @ Error v)) else Inr ())"

definition fetchClusterNodes :: "bytes \<Rightarrow> terr + bytes" where
  "fetchClusterNodes reply =
     (case ReadValue reply of
        Inl e \<Rightarrow> Inl (ReadErr e)
      | Inr (v, _) \<Rightarrow> if IsError v then Inl (RedisErr (Error v)) else Inr (vStr v))"

text \<open>
  The environment of a refresh: the iteration orders, one for each range over a map that the
  refresh makes (linking replicas, fingerprint, masters, entry points, removed nodes), since Go
  picks a new order every time, and per address what the server sends after the authentication
  and after \<^verbatim>\<open>CLUSTER NODES\<close>, \<^term>\<open>None\<close> when it cannot be dialled.
\<close>

record tenv =
  envOrd :: "nat \<Rightarrow> map_order"
  envInner :: "bytes \<Rightarrow> map_order"
  envNet :: "bytes \<Rightarrow> (bytes \<times> bytes) option"

definition onTopologyChanged :: "tenv \<Rightarrow> Manager \<Rightarrow> nodes \<Rightarrow> nodes \<Rightarrow> Manager \<times> bytes list" where
  "onTopologyChanged e m prev nxt =
     (m\<lparr>entryPoints := sort (envOrd e 3 (map fst nxt))\<rparr>,
      filter (\<lambda>addr. map_of nxt addr = None) (envOrd e 4 (map fst prev)))"

text \<open>The addresses in the result go to the node-removed hook, which is called when there are any.\<close>

definition refreshFrom :: "tenv \<Rightarrow> Manager \<Rightarrow> bytes \<Rightarrow> (terr + (Manager \<times> bytes list)) option" where
  "refreshFrom e m addr =
     (case envNet e addr of
        None \<Rightarrow> Some (Inl (DialErr addr))
      | Some (authReply, nodesReply) \<Rightarrow>
         (case (if mgrPassword m \<noteq> [] then authenticate authReply else Inr ()) of
            Inl err \<Rightarrow> Some (Inl err)
          | Inr _ \<Rightarrow>
             (case fetchClusterNodes nodesReply of
                Inl err \<Rightarrow> Some (Inl err)
              | Inr raw \<Rightarrow>
                 (case parseClusterNodes (envOrd e 0) (envInner e) raw of
                    None \<Rightarrow> None
                  | Some (nodes, slotMap) \<Rightarrow>
                     (let fp = topoFingerprint (envOrd e 1) nodes;
                          prevSnap = tSnap (mgrTopo m);
                          m' = m\<lparr>mgrTopo := Update (envOrd e 2) (mgrTopo m) nodes slotMap fp\<rparr>
                      in Some (Inr (if fp \<noteq> snFingerprint prevSnap
                                    then onTopologyChanged e m' (snNodes prevSnap) nodes
                                    else (m', []))))))))"

fun refreshAll :: "tenv \<Rightarrow> bytes list \<Rightarrow> Manager \<Rightarrow> terr list \<Rightarrow> (terr list + (Manager \<times> bytes list)) option" where
  "refreshAll e [] m errs = Some (Inl errs)"
| "refreshAll e (ep # eps) m errs =
     (case refreshFrom e m ep of
        None \<Rightarrow> None
      | Some (Inr r) \<Rightarrow> Some (Inr r)
      | Some (Inl err) \<Rightarrow> refreshAll e eps m (errs @ [err]))"

definition refresh :: "tenv \<Rightarrow> Manager \<Rightarrow> (terr list + (Manager \<times> bytes list)) option" where
  "refresh e m = refreshAll e (entryPoints m) m []"

text \<open>\<^verbatim>\<open>Start\<close>: the first call loads the topology, later calls do nothing.\<close>

definition Start :: "tenv \<Rightarrow> Manager \<Rightarrow> (terr list + (Manager \<times> bytes list)) option" where
  "Start e m = (if started m then Some (Inr (m, [])) else refresh e (m\<lparr>started := True\<rparr>))"

text \<open>
  One round of \<^verbatim>\<open>refreshLoop\<close>, woken by the ticker or by a token in the channel, which it takes:
  a failed refresh is logged and leaves the manager as it was.
\<close>

definition refreshRound :: "tenv \<Rightarrow> bool \<Rightarrow> Manager \<Rightarrow> (Manager \<times> bytes list) option" where
  "refreshRound e tick m =
     (if stopped m then Some (m, [])
      else (let m' = (if tick then m else m\<lparr>refreshCh := False\<rparr>)
            in case refresh e m' of
                 None \<Rightarrow> None
               | Some (Inl _) \<Rightarrow> Some (m', [])
               | Some (Inr r) \<Rightarrow> Some r))"

text \<open>\<^verbatim>\<open>Stop\<close> closes the done channel; closing it again panics, which is \<^term>\<open>None\<close>.\<close>

definition Stop :: "Manager \<Rightarrow> Manager option" where
  "Stop m = (if stopped m then None else Some (m\<lparr>stopped := True\<rparr>))"

end
