(* ===== verification/Topology_Correct.thy ===== *)
theory Topology_Correct
  imports Topology
begin

text \<open>
  Properties of \<^verbatim>\<open>src/pkg/cluster/topology.go\<close>: slot ranges, pointer integrity of a parsed
  topology, independence of the map iteration order, round-robin selection, and the refresh of
  the manager.
\<close>

section \<open>Slot ranges\<close>

definition covered :: "(int \<times> int) list \<Rightarrow> nat \<Rightarrow> bool" where
  "covered rs x \<longleftrightarrow> x < ClusterSlots \<and> (\<exists>(a, b) \<in> set rs. a \<le> int x \<and> int x \<le> b)"

lemma covered_simps [simp]:
  "covered [] x = False"
  "covered (rs @ rs') x \<longleftrightarrow> covered rs x \<or> covered rs' x"
  "covered ((a, b) # rs) x \<longleftrightarrow> (x < ClusterSlots \<and> a \<le> int x \<and> int x \<le> b) \<or> covered rs x"
  by (auto simp: covered_def)

lemma fillLoop_eq:
  "fillLoop k s addr slots x =
     (if x < ClusterSlots \<and> s \<le> int x \<and> int x < s + int k then Some addr else slots x)"
proof (induction k arbitrary: s slots)
  case 0
  then show ?case by auto
next
  case (Suc k)
  show ?case
    unfolding fillLoop.simps Suc.IH by (auto simp: ClusterSlots_def)
qed

lemma parseSlotField_slots:
  assumes "parseSlotField addr f (ranges, slots) = Some (ranges', slots')"
  shows "\<exists>new. ranges' = ranges @ new \<and> (\<forall>x. slots' x = (if covered new x then Some addr else slots x))"
proof -
  have "\<exists>new. ranges' = ranges @ new \<and> (\<forall>x. slots' x = (if covered new x then Some addr else slots x))"
    if "ranges' = ranges @ [(a, b)]" "slots' = fillLoop (nat (b - a + 1)) a addr slots" for a b
    using that by (intro exI [of _ "[(a, b)]"]) (auto simp: fillLoop_eq)
  moreover have "\<exists>new. ranges' = ranges @ new \<and> (\<forall>x. slots' x = (if covered new x then Some addr else slots x))"
    if "ranges' = ranges @ [(a, a)]"
      "slots' = (if 0 \<le> a \<and> a < int ClusterSlots then slots(nat a \<mapsto> addr) else slots)" for a
    using that by (intro exI [of _ "[(a, a)]"]) (auto simp: ClusterSlots_def)
  moreover have "\<exists>new. ranges = ranges @ new \<and> (\<forall>x. slots x = (if covered new x then Some addr else slots x))"
    by (intro exI [of _ "[]"]) simp
  ultimately show ?thesis
    using assms unfolding parseSlotField_def by (auto split: if_splits option.splits)
qed

lemma parseSlotFields_slots:
  "parseSlotFields addr fs (ranges, slots) = Some (ranges', slots') \<Longrightarrow>
   \<exists>new. ranges' = ranges @ new \<and> (\<forall>x. slots' x = (if covered new x then Some addr else slots x))"
proof (induction fs arbitrary: ranges slots)
  case Nil
  then show ?case by (intro exI [of _ "[]"]) simp
next
  case (Cons f fs)
  then obtain r s where 1: "parseSlotField addr f (ranges, slots) = Some (r, s)"
      "parseSlotFields addr fs (r, s) = Some (ranges', slots')"
    by (auto split: option.splits)
  from parseSlotField_slots [OF 1(1)] obtain n1 where
    n1: "r = ranges @ n1" "\<And>x. s x = (if covered n1 x then Some addr else slots x)" by blast
  from Cons.IH [OF 1(2)] obtain n2 where
    n2: "ranges' = r @ n2" "\<And>x. slots' x = (if covered n2 x then Some addr else s x)" by blast
  show ?case using n1 n2 by (intro exI [of _ "n1 @ n2"]) auto
qed

text \<open>Printing a range as Redis does.\<close>

definition printRange :: "int \<times> int \<Rightarrow> bytes" where
  "printRange r = (case r of (a, b) \<Rightarrow> if a = b then fmt_int a else fmt_int a @ ''-'' @ fmt_int b)"

lemma fmt_int_nonneg_no_minus: "0 \<le> a \<Longrightarrow> CHR ''-'' \<notin> set (fmt_int a)"
  by (auto simp: fmt_int_def dest!: fmt_nat_digits)

lemma fmt_int_no_bracket: "\<not> has_prefix (fmt_int a @ xs) ''[''"
proof -
  have "hd (fmt_int a @ xs) \<noteq> CHR ''[''"
    using fmt_int_digits [of "hd (fmt_int a)" a] by (auto simp: is_digit_iff)
  then show ?thesis by (cases "fmt_int a") (auto simp: has_prefix_def)
qed

lemma parseSlotField_print:
  assumes "0 \<le> a" "a \<le> b" "b < int ClusterSlots"
  shows "\<exists>slots'. parseSlotField addr (printRange (a, b)) (ranges, slots) = Some (ranges @ [(a, b)], slots')"
proof -
  have i: "in_int64 a" "in_int64 b" and b: "b \<noteq> 9223372036854775807"
    using assms by (simp_all add: in_int64_def ClusterSlots_def)
  show ?thesis
  proof (cases "a = b")
    case True
    have "index_byte (CHR ''-'') (fmt_int a) = None"
      using fmt_int_nonneg_no_minus [OF assms(1)] by simp
    with True i fmt_int_no_bracket [of a "[]"] show ?thesis
      by (simp add: parseSlotField_def printRange_def)
  next
    case False
    have "index_byte (CHR ''-'') (fmt_int a @ CHR ''-'' # fmt_int b) = Some (length (fmt_int a))"
      using fmt_int_nonneg_no_minus [OF assms(1)] by simp
    with False i b fmt_int_no_bracket [of a "CHR ''-'' # fmt_int b"] show ?thesis
      by (simp add: parseSlotField_def printRange_def)
  qed
qed

lemma parseSlotFields_print:
  assumes "\<forall>(a, b) \<in> set rs. 0 \<le> a \<and> a \<le> b \<and> b < int ClusterSlots"
  shows "\<exists>slots'. parseSlotFields addr (map printRange rs) (ranges, slots) = Some (ranges @ rs, slots')"
  using assms
proof (induction rs arbitrary: ranges slots)
  case Nil
  then show ?case by simp
next
  case (Cons r rs)
  obtain a b where r: "r = (a, b)" by (cases r)
  with Cons.prems obtain s where
    s: "parseSlotField addr (printRange (a, b)) (ranges, slots) = Some (ranges @ [(a, b)], s)"
    using parseSlotField_print by fastforce
  from Cons.IH [of "ranges @ [(a, b)]" s] Cons.prems s show ?case by (auto simp: r)
qed


section \<open>Pointer integrity\<close>

text \<open>
  Every stored node knows its address, slots point to stored nodes, and the replicas of a node
  are stored nodes in the replica role.
\<close>

definition nodes_ok :: "nodes \<Rightarrow> bool" where
  "nodes_ok nodes \<longleftrightarrow> distinct (map fst nodes) \<and> (\<forall>a n. map_of nodes a = Some n \<longrightarrow> nAddr n = a)"

definition slots_ok :: "nodes \<Rightarrow> slots \<Rightarrow> bool" where
  "slots_ok nodes slots \<longleftrightarrow> (\<forall>x a. slots x = Some a \<longrightarrow> x < ClusterSlots \<and> map_of nodes a \<noteq> None)"

definition replicas_ok :: "nodes \<Rightarrow> bool" where
  "replicas_ok nodes \<longleftrightarrow>
     (\<forall>a n. map_of nodes a = Some n \<longrightarrow> (\<forall>r \<in> set (nReplicas n).
        \<exists>m. map_of nodes r = Some m \<and> nRole m = RoleReplica \<and> nMasterID m = nID n))"

definition no_replicas :: "nodes \<Rightarrow> bool" where
  "no_replicas nodes \<longleftrightarrow> (\<forall>a n. map_of nodes a = Some n \<longrightarrow> nReplicas n = [])"

lemma map_of_update [simp]: "map_of (AList.update k v al) = (map_of al)(k \<mapsto> v)"
  by (rule update_conv')

lemma nodes_ok_update: "nodes_ok nodes \<Longrightarrow> nAddr n = a \<Longrightarrow> nodes_ok (AList.update a n nodes)"
  by (auto simp: nodes_ok_def distinct_update)

lemma setRole_simps [simp]:
  "nAddr (setRole b c d n) = nAddr n" "nReplicas (setRole b c d n) = nReplicas n" "nSlots (setRole b c d n) = nSlots n"
  by (simp_all add: setRole_def)

lemma getNode_addr: "nodes_ok nodes \<Longrightarrow> nAddr (getNode i a nodes) = a"
  by (auto simp: getNode_def newNode_def nodes_ok_def split: option.splits)

lemma getNode_replicas: "no_replicas nodes \<Longrightarrow> nReplicas (getNode i a nodes) = []"
  by (auto simp: getNode_def newNode_def no_replicas_def split: option.splits)

lemma slots_ok_update: "slots_ok nodes slots \<Longrightarrow> slots_ok (AList.update a n nodes) slots"
  by (auto simp: slots_ok_def)

lemma nSlots_same: "n\<lparr>nSlots := nSlots n\<rparr> = (n :: Node)"
  by (cases n) simp

lemma parseSlotFields_owner:
  assumes "parseSlotFields addr fs (ranges, slots) = Some (ranges', slots')"
  shows "slots' x = slots x \<or> (x < ClusterSlots \<and> slots' x = Some addr)"
proof -
  from parseSlotFields_slots [OF assms] obtain new where
    "slots' x = (if covered new x then Some addr else slots x)" by blast
  then show ?thesis by (cases "covered new x") (simp_all add: covered_def)
qed

lemma empty_ok [simp]: "nodes_ok []" "slots_ok [] (\<lambda>_. None)" "no_replicas []"
  by (simp_all add: nodes_ok_def slots_ok_def no_replicas_def)

lemma parseNodeLine_cases:
  assumes "parseNodeLine line (nodes, slots) = Some (nodes', slots')"
  obtains "nodes' = nodes" "slots' = slots"
  | i a b c d ranges where
      "nodes' = AList.update a ((setRole b c d (getNode i a nodes))\<lparr>nSlots := ranges\<rparr>) nodes"
      "\<forall>x. slots' x = slots x \<or> (x < ClusterSlots \<and> slots' x = Some a)"
proof -
  let ?fs = "Fields (trim_space line)"
  let ?a = "hd (splitN (CHR ''@'') (Suc (Suc 0)) (?fs ! 1))"
  let ?flags = "split_char (CHR '','') (?fs ! 2)"
  let ?b = "''master'' \<in> set ?flags"
  let ?c = "''slave'' \<in> set ?flags \<or> ''replica'' \<in> set ?flags \<or> (?fs ! 3 \<noteq> ''-'' \<and> ?fs ! 3 \<noteq> [])"
  let ?n = "setRole ?b ?c (?fs ! 3) (getNode (?fs ! 0) ?a nodes)"
  consider "nodes' = nodes" "slots' = slots"
    | ranges where "nodes' = AList.update ?a (?n\<lparr>nSlots := ranges\<rparr>) nodes"
        "parseSlotFields ?a (drop 8 ?fs) (nSlots ?n, slots) = Some (ranges, slots')"
    | "nodes' = AList.update ?a ?n nodes" "slots' = slots"
    using assms unfolding parseNodeLine_def Let_def by (auto split: if_splits option.splits)
  then show thesis
  proof cases
    case 1
    then show ?thesis by (rule that(1))
  next
    case (2 ranges)
    have "\<forall>x. slots' x = slots x \<or> (x < ClusterSlots \<and> slots' x = Some ?a)"
      using parseSlotFields_owner [OF 2(2)] by blast
    with 2(1) show ?thesis by (rule that(2))
  next
    case 3
    have "nodes' = AList.update ?a (?n\<lparr>nSlots := nSlots ?n\<rparr>) nodes"
      unfolding nSlots_same by (rule 3(1))
    with 3(2) show ?thesis by (intro that(2)) simp_all
  qed
qed

lemma parseNodeLine_ok:
  assumes "parseNodeLine line (nodes, slots) = Some (nodes', slots')"
    "nodes_ok nodes" "slots_ok nodes slots" "no_replicas nodes"
  shows "nodes_ok nodes' \<and> slots_ok nodes' slots' \<and> no_replicas nodes'"
  using assms(1)
proof (cases rule: parseNodeLine_cases)
  case 1
  with assms show ?thesis by simp
next
  case (2 i a b c d ranges)
  have "nodes_ok nodes'" unfolding 2(1) using assms(2) by (intro nodes_ok_update) (simp_all add: getNode_addr)
  moreover have "slots_ok nodes' slots'"
    unfolding slots_ok_def
  proof (intro allI impI)
    fix x a' assume a': "slots' x = Some a'"
    consider "slots x = Some a'" | "x < ClusterSlots" "a' = a" using 2(2) [rule_format, of x] a' by auto
    then show "x < ClusterSlots \<and> map_of nodes' a' \<noteq> None"
      using assms(3) by cases (auto simp: slots_ok_def 2(1))
  qed
  moreover have "no_replicas nodes'"
    using assms(4) by (auto simp: no_replicas_def 2(1) getNode_replicas)
  ultimately show ?thesis by simp
qed

lemma parseNodeLines_ok:
  "parseNodeLines ls (nodes, slots) = Some (nodes', slots') \<Longrightarrow>
   nodes_ok nodes \<Longrightarrow> slots_ok nodes slots \<Longrightarrow> no_replicas nodes \<Longrightarrow>
   nodes_ok nodes' \<and> slots_ok nodes' slots' \<and> no_replicas nodes'"
proof (induction ls arbitrary: nodes slots)
  case Nil
  then show ?case by simp
next
  case (Cons l ls)
  then obtain n s where 1: "parseNodeLine l (nodes, slots) = Some (n, s)"
      "parseNodeLines ls (n, s) = Some (nodes', slots')"
    by (auto split: option.splits)
  with parseNodeLine_ok [OF 1(1)] Cons show ?case by blast
qed

lemma replicas_okD:
  "replicas_ok nodes \<Longrightarrow> map_of nodes a = Some n \<Longrightarrow> r \<in> set (nReplicas n) \<Longrightarrow>
   \<exists>m. map_of nodes r = Some m \<and> nRole m = RoleReplica \<and> nMasterID m = nID n"
  by (auto simp: replicas_ok_def)

lemma replicas_ok_append:
  assumes ok: "replicas_ok nodes" and m: "map_of nodes a = Some m"
    and n: "map_of nodes addr = Some n" "nRole n = RoleReplica" "nMasterID n = nID m"
  shows "replicas_ok (AList.update a (m\<lparr>nReplicas := nReplicas m @ [addr]\<rparr>) nodes)"
  unfolding replicas_ok_def
proof (intro allI impI ballI)
  let ?m = "m\<lparr>nReplicas := nReplicas m @ [addr]\<rparr>"
  fix a' n' r
  assume n': "map_of (AList.update a ?m nodes) a' = Some n'" and r: "r \<in> set (nReplicas n')"
  have "\<exists>k. map_of nodes r = Some k \<and> nRole k = RoleReplica \<and> nMasterID k = nID n'"
  proof (cases "a' = a")
    case True
    with n' r n m replicas_okD [OF ok m] show ?thesis by auto
  next
    case False
    with n' r replicas_okD [OF ok] show ?thesis by auto
  qed
  then show "\<exists>k. map_of (AList.update a ?m nodes) r = Some k \<and> nRole k = RoleReplica \<and> nMasterID k = nID n'"
    using m by (cases "r = a") auto
qed

lemma linkReplica_ok:
  assumes "nodes_ok nodes" "replicas_ok nodes" "slots_ok nodes slots"
  shows "nodes_ok (linkReplica inner addr nodes) \<and> replicas_ok (linkReplica inner addr nodes) \<and>
    slots_ok (linkReplica inner addr nodes) slots"
proof (cases "linkReplica inner addr nodes = nodes")
  case True
  with assms show ?thesis by simp
next
  case False
  then obtain n where n: "map_of nodes addr = Some n" "nRole n = RoleReplica" "nMasterID n \<noteq> []"
    by (auto simp: linkReplica_def split: option.splits if_splits)
  let ?P = "\<lambda>a. case map_of nodes a of None \<Rightarrow> False | Some m \<Rightarrow> nID m = nMasterID n"
  from False n obtain a where a: "List.find ?P (inner addr (map fst nodes)) = Some a"
    by (cases "List.find ?P (inner addr (map fst nodes))") (simp_all add: linkReplica_def)
  then have "?P a" by (auto simp: find_Some_iff)
  then obtain m where m: "map_of nodes a = Some m" "nID m = nMasterID n" by (auto split: option.splits)
  have "linkReplica inner addr nodes = AList.update a (m\<lparr>nReplicas := nReplicas m @ [addr]\<rparr>) nodes"
    using n a m(1) by (simp add: linkReplica_def)
  note * = n(1,2) m this
  have "nAddr m = a" using assms(1) *(3) by (simp add: nodes_ok_def)
  then show ?thesis
    unfolding *(5) using assms * by (auto intro: nodes_ok_update slots_ok_update replicas_ok_append)
qed

lemma linkReplicas_ok:
  "nodes_ok nodes \<Longrightarrow> replicas_ok nodes \<Longrightarrow> slots_ok nodes slots \<Longrightarrow>
   nodes_ok (fold (linkReplica inner) as nodes) \<and> replicas_ok (fold (linkReplica inner) as nodes) \<and>
   slots_ok (fold (linkReplica inner) as nodes) slots"
  by (induction as arbitrary: nodes) (simp_all add: linkReplica_ok)

lemma parseClusterNodes_wf:
  assumes "parseClusterNodes it inner raw = Some (nodes, slots)"
  shows "nodes_ok nodes \<and> replicas_ok nodes \<and> slots_ok nodes slots"
proof -
  from assms obtain ns where ns: "parseNodeLines (split_char LF (trim_space raw)) ([], \<lambda>_. None) = Some (ns, slots)"
      "nodes = fold (linkReplica inner) (it (map fst ns)) ns"
    by (auto simp: parseClusterNodes_def split: option.splits)
  have "nodes_ok ns" "slots_ok ns slots" "no_replicas ns"
    using parseNodeLines_ok [OF ns(1)] by simp_all
  moreover have "replicas_ok ns" using \<open>no_replicas ns\<close> by (auto simp: replicas_ok_def no_replicas_def)
  ultimately show ?thesis unfolding ns(2) by (intro linkReplicas_ok)
qed


section \<open>Printed clusters\<close>

text \<open>A cluster as Redis reports it: one line per node, slots with the masters.\<close>

definition printNode :: "Node \<Rightarrow> bytes" where
  "printNode n = join '' ''
     ([nID n, nAddr n @ ''@0'', if nRole n = RoleMaster then ''master'' else ''slave'',
       if nRole n = RoleMaster then ''-'' else nMasterID n, ''0'', ''0'', ''1'', ''connected''] @
      (if nRole n = RoleMaster then map printRange (nSlots n) else []))"

definition printCluster :: "Node list \<Rightarrow> bytes" where
  "printCluster ns = join [LF] (map printNode ns)"

definition word_ok :: "bytes \<Rightarrow> bool" where
  "word_ok w \<longleftrightarrow> w \<noteq> [] \<and> (\<forall>c \<in> set w. plain c)"

definition node_wf :: "Node \<Rightarrow> bool" where
  "node_wf n \<longleftrightarrow> word_ok (nID n) \<and> word_ok (nAddr n) \<and> CHR ''@'' \<notin> set (nAddr n) \<and> nAddr n \<noteq> '':0'' \<and>
     nReplicas n = [] \<and>
     (case nRole n of
        RoleMaster \<Rightarrow> nMasterID n = [] \<and> (\<forall>(a, b) \<in> set (nSlots n). 0 \<le> a \<and> a \<le> b \<and> b < int ClusterSlots)
      | RoleReplica \<Rightarrow> word_ok (nMasterID n) \<and> nMasterID n \<noteq> ''-'' \<and> nSlots n = [])"

lemma word_ok_fmt_int: "word_ok (fmt_int a)"
  unfolding word_ok_def using fmt_int_digits plain_digit plain_minus fmt_int_nonempty by blast

lemma word_ok_printRange: "word_ok (printRange r)"
  using word_ok_fmt_int by (auto simp: printRange_def word_ok_def split: prod.splits)

lemma word_ok_consts:
  "word_ok ''master''" "word_ok ''slave''" "word_ok ''-''" "word_ok ''0''" "word_ok ''1''"
  "word_ok ''connected''" "word_ok ''@0''"
  by (simp_all add: word_ok_def plain_def less_eq_char_def)

lemma word_ok_append: "word_ok a \<Longrightarrow> word_ok b \<Longrightarrow> word_ok (a @ b)"
  by (auto simp: word_ok_def)

definition nodeWords :: "Node \<Rightarrow> bytes list" where
  "nodeWords n =
     [nID n, nAddr n @ ''@0'', if nRole n = RoleMaster then ''master'' else ''slave'',
       if nRole n = RoleMaster then ''-'' else nMasterID n, ''0'', ''0'', ''1'', ''connected''] @
      (if nRole n = RoleMaster then map printRange (nSlots n) else [])"

lemma printNode_words: "printNode n = join '' '' (nodeWords n)"
  by (simp only: printNode_def nodeWords_def)

lemma nodeWords_ok: "node_wf n \<Longrightarrow> w \<in> set (nodeWords n) \<Longrightarrow> word_ok w"
  using word_ok_consts word_ok_append [of "nAddr n" "''@0''"] word_ok_printRange
  by (cases "nRole n") (auto simp: node_wf_def nodeWords_def)

lemma printNode_ends:
  assumes "node_wf n"
  shows "printNode n \<noteq> []" "plain (hd (printNode n))" "plain (last (printNode n))" "LF \<notin> set (printNode n)"
proof -
  have w: "w \<noteq> []" "\<forall>c \<in> set w. plain c" if "w \<in> set (nodeWords n)" for w
    using nodeWords_ok [OF assms that] by (simp_all add: word_ok_def)
  have i: "nodeWords n = nID n # tl (nodeWords n)" "nID n \<in> set (nodeWords n)" by (simp_all add: nodeWords_def)
  have ne: "nodeWords n \<noteq> []" by (simp add: nodeWords_def)
  show "printNode n \<noteq> []" unfolding printNode_words by (subst i(1)) (rule join_nonempty [OF w(1) [OF i(2)]])
  have "hd (printNode n) = hd (nID n)"
    unfolding printNode_words by (subst i(1)) (rule hd_join [OF w(1) [OF i(2)]])
  then show "plain (hd (printNode n))" using w [OF i(2)] by simp
  have "last (printNode n) = last (last (nodeWords n))"
    unfolding printNode_words by (rule last_join) (use w(1) ne in auto)
  then show "plain (last (printNode n))" using w [OF last_in_set [OF ne]] by simp
  have "\<not> plain LF" by (simp add: plain_def less_eq_char_def)
  then show "LF \<notin> set (printNode n)"
    using set_join [of "'' ''" "nodeWords n"] w(2) unfolding printNode_words by fastforce
qed

lemma Fields_printNode: "node_wf n \<Longrightarrow> Fields (trim_space (printNode n)) = nodeWords n"
  using printNode_ends [of n] nodeWords_ok [of n]
  by (simp add: trim_space_plain) (simp add: printNode_words Fields_join word_ok_def)

lemma splitN_addr: "CHR ''@'' \<notin> set a \<Longrightarrow> hd (splitN (CHR ''@'') (Suc (Suc 0)) (a @ ''@0'')) = a"
  by (simp add: splitN_Suc_append)

lemma parseNodeLine_print:
  assumes "node_wf n" "map_of nodes (nAddr n) = None"
  shows "\<exists>slots'. parseNodeLine (printNode n) (nodes, slots) = Some (nodes @ [(nAddr n, n)], slots') \<and>
    (\<forall>x. slots' x = (if nRole n = RoleMaster \<and> covered (nSlots n) x then Some (nAddr n) else slots x))"
proof -
  have u: "AList.update (nAddr n) n nodes = nodes @ [(nAddr n, n)]"
    using assms(2) by (induction nodes) (auto split: if_splits)
  have line: "trim_space (printNode n) \<noteq> []" "Fields (trim_space (printNode n)) = nodeWords n"
    using printNode_ends [OF assms(1)] Fields_printNode [OF assms(1)] by (simp_all add: trim_space_plain)
  have addr: "hd (splitN (CHR ''@'') (Suc (Suc 0)) (nAddr n @ ''@0'')) = nAddr n" "nAddr n \<noteq> []" "nAddr n \<noteq> '':0''"
    using assms(1) by (simp_all add: node_wf_def splitN_addr word_ok_def)
  show ?thesis
  proof (cases "nRole n")
    case RoleMaster
    have r: "\<forall>(a, b) \<in> set (nSlots n). 0 \<le> a \<and> a \<le> b \<and> b < int ClusterSlots" "nMasterID n = []" "nReplicas n = []"
      using assms(1) RoleMaster by (simp_all add: node_wf_def)
    obtain slots' where p: "parseSlotFields (nAddr n) (map printRange (nSlots n)) ([], slots) = Some (nSlots n, slots')"
      using parseSlotFields_print [OF r(1), of "nAddr n" "[]" slots] by auto
    have s: "slots' x = (if covered (nSlots n) x then Some (nAddr n) else slots x)" for x
      using parseSlotFields_slots [OF p] by auto
    have n: "(newNode (nID n) (nAddr n))\<lparr>nSlots := nSlots n\<rparr> = n"
      using RoleMaster r by (cases n) (simp add: newNode_def)
    have "parseNodeLine (printNode n) (nodes, slots) = Some (nodes @ [(nAddr n, n)], slots')"
      using RoleMaster addr p n assms(2)
      by (simp add: parseNodeLine_def Let_def line nodeWords_def getNode_def setRole_def newNode_def flip: u)
    then show ?thesis using RoleMaster s by auto
  next
    case RoleReplica
    have r: "nMasterID n \<noteq> []" "nMasterID n \<noteq> ''-''" "nSlots n = []" "nReplicas n = []"
      using assms(1) RoleReplica by (simp_all add: node_wf_def word_ok_def)
    have n: "(newNode (nID n) (nAddr n))\<lparr>nRole := RoleReplica, nMasterID := nMasterID n\<rparr> = n"
      using RoleReplica r by (cases n) (simp add: newNode_def)
    have "parseNodeLine (printNode n) (nodes, slots) = Some (nodes @ [(nAddr n, n)], slots)"
      using RoleReplica addr r(1,2) n assms(2)
      by (simp add: parseNodeLine_def Let_def line nodeWords_def getNode_def setRole_def newNode_def flip: u)
    then show ?thesis using RoleReplica by simp
  qed
qed

definition nodeMap :: "Node list \<Rightarrow> nodes" where
  "nodeMap ns = map (\<lambda>n. (nAddr n, n)) ns"

text \<open>The owner of a slot: the last master of the list whose ranges contain it.\<close>

fun ownerIn :: "Node list \<Rightarrow> nat \<Rightarrow> bytes option \<Rightarrow> bytes option" where
  "ownerIn [] x d = d"
| "ownerIn (n # ns) x d =
     ownerIn ns x (if nRole n = RoleMaster \<and> covered (nSlots n) x then Some (nAddr n) else d)"

lemma parseNodeLines_print:
  assumes "\<forall>n \<in> set ns. node_wf n" "distinct (map nAddr ns)" "\<forall>n \<in> set ns. map_of nodes (nAddr n) = None"
  shows "\<exists>slots'. parseNodeLines (map printNode ns) (nodes, slots) = Some (nodes @ nodeMap ns, slots') \<and>
    (\<forall>x. slots' x = ownerIn ns x (slots x))"
  using assms
proof (induction ns arbitrary: nodes slots)
  case Nil
  then show ?case by (simp add: nodeMap_def)
next
  case (Cons n ns)
  obtain s where s: "parseNodeLine (printNode n) (nodes, slots) = Some (nodes @ [(nAddr n, n)], s)"
      "\<And>x. s x = (if nRole n = RoleMaster \<and> covered (nSlots n) x then Some (nAddr n) else slots x)"
    using parseNodeLine_print [of n nodes slots] Cons.prems by auto
  have "map_of (nodes @ [(nAddr n, n)]) (nAddr k) = None" if "k \<in> set ns" for k
  proof -
    have "nAddr k \<noteq> nAddr n" using Cons.prems(2) that by (metis distinct.simps(2) image_eqI list.set_map list.simps(9))
    with Cons.prems(3) that show ?thesis by (simp add: map_add_def)
  qed
  then have "\<exists>slots'. parseNodeLines (map printNode ns) (nodes @ [(nAddr n, n)], s) =
      Some ((nodes @ [(nAddr n, n)]) @ nodeMap ns, slots') \<and> (\<forall>x. slots' x = ownerIn ns x (s x))"
    using Cons.prems by (intro Cons.IH) auto
  with s show ?case by (auto simp: nodeMap_def)
qed

lemma printCluster_lines:
  assumes "\<forall>n \<in> set ns. node_wf n" "ns \<noteq> []"
  shows "split_char LF (trim_space (printCluster ns)) = map printNode ns"
proof -
  have ne: "\<forall>w \<in> set (map printNode ns). w \<noteq> []" using assms printNode_ends(1) by auto
  obtain m ms where ns: "ns = m # ms" using assms(2) by (cases ns) auto
  have "printCluster ns \<noteq> []" "hd (printCluster ns) = hd (printNode m)"
    using ne by (simp_all add: printCluster_def ns join_nonempty hd_join)
  moreover have "last (printCluster ns) = last (printNode (last ns))"
    unfolding printCluster_def using last_join [OF ne] assms(2) by (simp add: last_map)
  ultimately have "trim_space (printCluster ns) = printCluster ns"
    using assms printNode_ends by (intro trim_space_plain) (auto simp: ns)
  then show ?thesis
    unfolding printCluster_def using assms printNode_ends(4) by (simp add: split_char_join)
qed

text \<open>Linking keeps everything but the replica lists.\<close>

definition replicaOf :: "nodes \<Rightarrow> bytes \<Rightarrow> bytes \<Rightarrow> bool" where
  "replicaOf nodes r i \<longleftrightarrow>
     (\<exists>m. map_of nodes r = Some m \<and> nRole m = RoleReplica \<and> nMasterID m \<noteq> [] \<and> nMasterID m = i)"

definition ids_distinct :: "nodes \<Rightarrow> bool" where
  "ids_distinct nodes \<longleftrightarrow>
     (\<forall>a b n m. map_of nodes a = Some n \<and> map_of nodes b = Some m \<and> nID n = nID m \<longrightarrow> a = b)"

lemma find_unique:
  assumes "P a" "a \<in> set xs" "\<And>b. P b \<Longrightarrow> b = a" shows "List.find P xs = Some a"
  using assms(2)
proof (induction xs)
  case (Cons x xs)
  show ?case
  proof (cases "P x")
    case True
    with assms(3) have "x = a" by blast
    with True show ?thesis by simp
  next
    case False
    with Cons assms(1) show ?thesis by auto
  qed
qed simp

lemma linkReplica_map_of:
  assumes "ids_distinct nodes" "\<And>ks. set (inner r ks) = set ks"
  shows "map_of (linkReplica inner r nodes) a =
    map_option (\<lambda>n. if replicaOf nodes r (nID n) then n\<lparr>nReplicas := nReplicas n @ [r]\<rparr> else n) (map_of nodes a)"
proof (cases "\<exists>n. map_of nodes r = Some n \<and> nRole n = RoleReplica \<and> nMasterID n \<noteq> []")
  case False
  then have "linkReplica inner r nodes = nodes" "\<And>i. \<not> replicaOf nodes r i"
    by (auto simp: linkReplica_def replicaOf_def split: option.splits)
  then show ?thesis by (simp add: option.map_ident)
next
  case True
  then obtain n where n: "map_of nodes r = Some n" "nRole n = RoleReplica" "nMasterID n \<noteq> []" by blast
  let ?P = "\<lambda>a. case map_of nodes a of None \<Rightarrow> False | Some m \<Rightarrow> nID m = nMasterID n"
  have rep: "replicaOf nodes r i \<longleftrightarrow> i = nMasterID n" for i using n by (auto simp: replicaOf_def)
  show ?thesis
  proof (cases "\<exists>b m. map_of nodes b = Some m \<and> nID m = nMasterID n")
    case True
    then obtain b m where b: "map_of nodes b = Some m" "nID m = nMasterID n" by blast
    have "b \<in> set (map fst nodes)" using b(1) by (metis domI dom_map_of_conv_image_fst set_map)
    moreover have "c = b" if "?P c" for c
      using that assms(1) b unfolding ids_distinct_def by (auto split: option.splits)
    ultimately have "List.find ?P (inner r (map fst nodes)) = Some b"
      using b assms(2) by (intro find_unique) auto
    then have "linkReplica inner r nodes = AList.update b (m\<lparr>nReplicas := nReplicas m @ [r]\<rparr>) nodes"
      using n b by (simp add: linkReplica_def)
    moreover have "nID k = nMasterID n \<longleftrightarrow> a = b" if "map_of nodes a = Some k" for k
      using that assms(1) b unfolding ids_distinct_def by auto
    ultimately show ?thesis using b by (cases "map_of nodes a") (auto simp: rep)
  next
    case False
    then have "List.find ?P (inner r (map fst nodes)) = None"
      by (auto simp: find_None_iff split: option.splits)
    then have "linkReplica inner r nodes = nodes" using n by (simp add: linkReplica_def)
    with False show ?thesis by (cases "map_of nodes a") (auto simp: rep)
  qed
qed

lemma linkReplica_ids:
  assumes "ids_distinct nodes" "\<And>r ks. set (inner r ks) = set ks"
  shows "ids_distinct (linkReplica inner r nodes)"
    and "replicaOf (linkReplica inner r nodes) q i = replicaOf nodes q i"
proof -
  note m = linkReplica_map_of [where inner = inner, OF assms(1) assms(2)]
  show "ids_distinct (linkReplica inner r nodes)"
    using assms(1) unfolding ids_distinct_def m by (auto split: if_splits)
  show "replicaOf (linkReplica inner r nodes) q i = replicaOf nodes q i"
    unfolding replicaOf_def [of "linkReplica inner r nodes"] replicaOf_def [of nodes q] m
    by (cases "map_of nodes q") auto
qed

lemma linkReplicas_map_of:
  assumes "ids_distinct nodes" "\<And>r ks. set (inner r ks) = set ks"
  shows "map_of (fold (linkReplica inner) rs nodes) a =
    map_option (\<lambda>n. n\<lparr>nReplicas := nReplicas n @ filter (\<lambda>r. replicaOf nodes r (nID n)) rs\<rparr>) (map_of nodes a)"
  using assms(1)
proof (induction rs arbitrary: nodes)
  case Nil
  have "n\<lparr>nReplicas := nReplicas n\<rparr> = n" for n :: Node by (cases n) simp
  then show ?case by (simp add: option.map_ident)
next
  case (Cons r rs)
  show ?case
    using Cons.IH [OF linkReplica_ids(1) [where inner = inner and r = r, OF Cons.prems assms(2)]]
      linkReplica_map_of [where inner = inner and r = r and a = a, OF Cons.prems assms(2)]
      linkReplica_ids(2) [where inner = inner and r = r, OF Cons.prems assms(2)]
    by (cases "map_of nodes a") auto
qed

definition cluster_wf :: "Node list \<Rightarrow> bool" where
  "cluster_wf ns \<longleftrightarrow> ns \<noteq> [] \<and> (\<forall>n \<in> set ns. node_wf n) \<and> distinct (map nAddr ns) \<and> distinct (map nID ns)"

lemma map_of_nodeMap: "distinct (map nAddr ns) \<Longrightarrow> map_of (nodeMap ns) a = Some n \<longleftrightarrow> n \<in> set ns \<and> nAddr n = a"
  by (force simp: nodeMap_def comp_def)

lemma parseClusterNodes_printed:
  assumes "cluster_wf ns" "\<And>ks. set (it ks) = set ks" "\<And>r ks. set (inner r ks) = set ks"
  shows "\<exists>nodes slots. parseClusterNodes it inner (printCluster ns) = Some (nodes, slots) \<and>
    (\<forall>a. map_of nodes a = map_option
       (\<lambda>n. n\<lparr>nReplicas := filter (\<lambda>r. replicaOf (nodeMap ns) r (nID n)) (it (map nAddr ns))\<rparr>) (map_of (nodeMap ns) a)) \<and>
    (\<forall>x. slots x = ownerIn ns x None)"
proof -
  have wf: "\<forall>n \<in> set ns. node_wf n" "ns \<noteq> []" "distinct (map nAddr ns)" "distinct (map nID ns)"
    using assms(1) by (simp_all add: cluster_wf_def)
  obtain slots where p: "parseNodeLines (map printNode ns) ([], \<lambda>_. None) = Some (nodeMap ns, slots)"
      "\<forall>x. slots x = ownerIn ns x None"
    using parseNodeLines_print [of ns "[]" "\<lambda>_. None"] wf by auto
  have "ids_distinct (nodeMap ns)"
    using wf(4) unfolding ids_distinct_def map_of_nodeMap [OF wf(3)] by (auto simp: distinct_map inj_on_def)
  note link = linkReplicas_map_of [where inner = inner and rs = "it (map fst (nodeMap ns))", OF this assms(3)]
  have "map fst (nodeMap ns) = map nAddr ns" by (simp add: nodeMap_def)
  moreover have "nReplicas n = []" if "map_of (nodeMap ns) a = Some n" for a n
    using that wf(1) unfolding map_of_nodeMap [OF wf(3)] by (auto simp: node_wf_def)
  ultimately have "map_of (fold (linkReplica inner) (it (map nAddr ns)) (nodeMap ns)) a = map_option
      (\<lambda>n. n\<lparr>nReplicas := filter (\<lambda>r. replicaOf (nodeMap ns) r (nID n)) (it (map nAddr ns))\<rparr>) (map_of (nodeMap ns) a)" for a
    using link [of a] by (cases "map_of (nodeMap ns) a") auto
  with p show ?thesis
    unfolding parseClusterNodes_def printCluster_lines [OF wf(1,2)] \<open>map fst (nodeMap ns) = map nAddr ns\<close> [symmetric]
    by auto
qed

section \<open>Iteration order\<close>

definition map_iter :: "map_order \<Rightarrow> bool" where
  "map_iter it \<longleftrightarrow> (\<forall>ks. mset (it ks) = mset ks)"

lemma map_iter_set: "map_iter it \<Longrightarrow> set (it ks) = set ks"
  unfolding map_iter_def by (metis set_mset_mset)

lemma map_iter_distinct: "map_iter it \<Longrightarrow> distinct (it ks) = distinct ks"
  unfolding map_iter_def by (metis mset_eq_imp_distinct_iff)

lemma set_map_filter: "set (List.map_filter f xs) = {y. \<exists>x \<in> set xs. f x = Some y}"
  by (force simp: map_filter_def)

lemma rangeNodes_set:
  assumes "map_iter it" "nodes_ok nodes" shows "set (rangeNodes it nodes) = snd ` set nodes"
proof -
  have "set (rangeNodes it nodes) = {n. \<exists>a \<in> fst ` set nodes. map_of nodes a = Some n}"
    using assms(1) by (simp add: rangeNodes_def set_map_filter map_iter_set)
  also have "\<dots> = {n. \<exists>a. (a, n) \<in> set nodes}"
    using assms(2) by (auto simp: nodes_ok_def dest: map_of_SomeD) (metis fst_conv imageI map_of_is_SomeI)
  finally show ?thesis by force
qed

lemma rangeNodes_distinct:
  assumes "map_iter it" "nodes_ok nodes" shows "distinct (map nAddr (rangeNodes it nodes))"
proof -
  have "map nAddr (rangeNodes it nodes) = filter (\<lambda>a. map_of nodes a \<noteq> None) (it (map fst nodes))"
  proof -
    have "map nAddr (List.map_filter (map_of nodes) ks) = filter (\<lambda>a. map_of nodes a \<noteq> None) ks" for ks
      using assms(2) by (induction ks) (auto simp: map_filter_simps nodes_ok_def split: option.splits)
    then show ?thesis by (simp add: rangeNodes_def)
  qed
  moreover have "distinct (it (map fst nodes))"
    using assms by (simp add: map_iter_distinct nodes_ok_def)
  ultimately show ?thesis by simp
qed

lemma masters_order:
  assumes "map_iter it" "map_iter it'" "nodes_ok nodes"
  shows "sort_key nAddr (filter P (rangeNodes it nodes)) = sort_key nAddr (filter P (rangeNodes it' nodes))"
    (is "?xs = ?ys")
proof (rule map_sorted_distinct_set_unique)
  have d: "distinct (map nAddr (filter P (rangeNodes i nodes)))" if "map_iter i" for i
    using rangeNodes_distinct [OF that assms(3)] by (rule distinct_map_filter)
  have m: "distinct (map nAddr (sort_key nAddr xs)) = distinct (map nAddr xs)" for xs :: "Node list"
    by (metis mset_map mset_sort mset_eq_imp_distinct_iff)
  show "distinct (map nAddr ?xs)" "distinct (map nAddr ?ys)" using d assms by (simp_all only: m)
  show "set ?xs = set ?ys" using assms by (simp add: rangeNodes_set)
  have "inj_on nAddr (snd ` set nodes)"
    using d [OF assms(1), of] rangeNodes_set [OF assms(1,3)] rangeNodes_distinct [OF assms(1,3)]
    by (metis distinct_map)
  then show "inj_on nAddr (set ?xs \<union> set ?ys)"
    using assms by (auto simp: rangeNodes_set intro: inj_on_subset)
qed simp_all

lemma sort_mset_eq: "mset xs = mset ys \<Longrightarrow> sort xs = sort (ys :: bytes list)"
  by (rule properties_for_sort) simp_all

lemma topoFingerprint_order:
  assumes "map_iter it" "map_iter it'"
  shows "topoFingerprint it nodes = topoFingerprint it' nodes"
proof -
  have "mset (List.map_filter f (it ks)) = mset (List.map_filter f (it' ks))" for f :: "bytes \<Rightarrow> bytes option" and ks
  proof -
    have "mset (it ks) = mset (it' ks)" using assms by (simp add: map_iter_def)
    then have "image_mset (the \<circ> f) (filter_mset (\<lambda>x. f x \<noteq> None) (mset (it ks))) =
        image_mset (the \<circ> f) (filter_mset (\<lambda>x. f x \<noteq> None) (mset (it' ks)))" by simp
    then show ?thesis by (simp add: map_filter_def)
  qed
  from sort_mset_eq [OF this] show ?thesis unfolding topoFingerprint_def by (rule arg_cong)
qed

text \<open>Linking the replicas only changes the replica lists; it keeps the keys and their order.\<close>

lemma linkReplica_keys: "map fst (linkReplica inner r nodes) = map fst nodes"
  by (auto simp: linkReplica_def update_keys dest!: map_of_SomeD split: option.splits intro: rev_image_eqI)

lemma linkReplica_nID: "map_option nID (map_of (linkReplica inner r nodes) a) = map_option nID (map_of nodes a)"
  by (auto simp: linkReplica_def split: option.splits)

lemma linkReplicas_keys: "map fst (fold (linkReplica inner) rs nodes) = map fst nodes"
  by (induction rs arbitrary: nodes) (simp_all add: linkReplica_keys)

lemma linkReplicas_nID: "map_option nID (map_of (fold (linkReplica inner) rs nodes) a) = map_option nID (map_of nodes a)"
  by (induction rs arbitrary: nodes) (simp_all add: linkReplica_nID)

lemma ids_distinct_cong:
  assumes "\<And>a. map_option nID (map_of nodes a) = map_option nID (map_of nodes' a)" "ids_distinct nodes"
  shows "ids_distinct nodes'"
proof -
  have old: "\<exists>n'. map_of nodes a = Some n' \<and> nID n' = nID n" if "map_of nodes' a = Some n" for a n
    using assms(1) [of a] that by (cases "map_of nodes a") auto
  have "a = b" if ab: "map_of nodes' a = Some n" "map_of nodes' b = Some m" "nID n = nID m" for a b n m
  proof -
    obtain n' m' where "map_of nodes a = Some n'" "map_of nodes b = Some m'" "nID n' = nID m'"
      using old [OF ab(1)] old [OF ab(2)] ab(3) by auto
    with assms(2) show ?thesis unfolding ids_distinct_def by blast
  qed
  then show ?thesis unfolding ids_distinct_def by blast
qed

text \<open>Two nodes that differ at most in the order of their replicas, and lists of them.\<close>

definition same_node :: "Node \<Rightarrow> Node \<Rightarrow> bool" where
  "same_node n m \<longleftrightarrow> n\<lparr>nReplicas := []\<rparr> = m\<lparr>nReplicas := []\<rparr> \<and> mset (nReplicas n) = mset (nReplicas m)"

lemma same_nodeD:
  assumes "same_node n m"
  shows "nID n = nID m" "nAddr n = nAddr m" "nRole n = nRole m" "nSlots n = nSlots m" "nMasterID n = nMasterID m"
  using assms by (cases n, cases m, simp add: same_node_def)+

lemma same_node_fingerprint: "same_node n m \<Longrightarrow> nodeFingerprint n = nodeFingerprint m"
  by (simp add: nodeFingerprint_def same_nodeD)

lemma insort_key_all2:
  "list_all2 R xs ys \<Longrightarrow> R x y \<Longrightarrow> (\<And>x y. R x y \<Longrightarrow> f x = f y) \<Longrightarrow> list_all2 R (insort_key f x xs) (insort_key f y ys)"
proof (induction rule: list_all2_induct)
  case (Cons a as b bs)
  then have "f a = f b" "f x = f y" by auto
  with Cons show ?case by simp
qed simp

lemma sort_key_all2:
  "list_all2 R xs ys \<Longrightarrow> (\<And>x y. R x y \<Longrightarrow> f x = f y) \<Longrightarrow> list_all2 R (sort_key f xs) (sort_key f ys)"
  by (induction rule: list_all2_induct) (simp_all add: insort_key_all2)

lemma filter_all2:
  "list_all2 R xs ys \<Longrightarrow> (\<And>x y. R x y \<Longrightarrow> P x = P y) \<Longrightarrow> list_all2 R (filter P xs) (filter P ys)"
  by (induction rule: list_all2_induct) auto

lemma map_filter_all2:
  "(\<And>a. rel_option R (f a) (g a)) \<Longrightarrow> list_all2 R (List.map_filter f xs) (List.map_filter g xs)"
proof (induction xs)
  case (Cons x xs)
  then have "rel_option R (f x) (g x)" by simp
  with Cons show ?case by (cases "f x"; cases "g x") (simp_all add: map_filter_simps)
qed (simp add: map_filter_simps)

lemma masters_same:
  assumes "\<And>a. rel_option same_node (map_of nodes a) (map_of nodes' a)" "map fst nodes = map fst nodes'"
  shows "list_all2 same_node (sort_key nAddr (filter (\<lambda>n. nRole n = RoleMaster) (rangeNodes it nodes)))
    (sort_key nAddr (filter (\<lambda>n. nRole n = RoleMaster) (rangeNodes it nodes')))"
  unfolding rangeNodes_def assms(2)
  by (intro sort_key_all2 filter_all2 map_filter_all2 assms(1)) (simp_all add: same_nodeD)

lemma topoFingerprint_same:
  assumes "\<And>a. rel_option same_node (map_of nodes a) (map_of nodes' a)" "map fst nodes = map fst nodes'"
  shows "topoFingerprint it nodes = topoFingerprint it nodes'"
proof -
  have "map_option (\<lambda>n. a @ nodeFingerprint n) (map_of nodes a) = map_option (\<lambda>n. a @ nodeFingerprint n) (map_of nodes' a)" for a
    using assms(1) [of a] by (cases "map_of nodes a"; cases "map_of nodes' a") (auto dest: same_node_fingerprint)
  then show ?thesis unfolding topoFingerprint_def assms(2) by presburger
qed

lemma parseClusterNodes_same:
  assumes "parseClusterNodes it inner raw = Some (nodes, slots)" "ids_distinct nodes"
    and "map_iter it" "map_iter it'" "\<And>r. map_iter (inner r)" "\<And>r. map_iter (inner' r)"
  obtains nodes' where "parseClusterNodes it' inner' raw = Some (nodes', slots)" "map fst nodes' = map fst nodes"
    "\<And>a. rel_option same_node (map_of nodes a) (map_of nodes' a)"
proof -
  from assms(1) obtain ns where ns: "parseNodeLines (split_char LF (trim_space raw)) ([], \<lambda>_. None) = Some (ns, slots)"
      and nodes: "nodes = fold (linkReplica inner) (it (map fst ns)) ns"
    by (auto simp: parseClusterNodes_def split: option.splits)
  let ?n' = "fold (linkReplica inner') (it' (map fst ns)) ns"
  have ids: "ids_distinct ns" by (rule ids_distinct_cong [OF _ assms(2)]) (simp add: nodes linkReplicas_nID)
  note links = linkReplicas_map_of [OF ids, of inner] linkReplicas_map_of [OF ids, of inner']
  have "mset (filter P (it ks)) = mset (filter P (it' ks))" for P ks using assms(3,4) by (simp add: map_iter_def)
  then have "rel_option same_node (map_of nodes a) (map_of ?n' a)" for a
    unfolding nodes using assms(5,6) by (cases "map_of ns a") (simp_all add: links map_iter_set same_node_def)
  moreover have "parseClusterNodes it' inner' raw = Some (?n', slots)" by (simp add: parseClusterNodes_def ns)
  moreover have "map fst ?n' = map fst nodes" by (simp add: nodes linkReplicas_keys)
  ultimately show thesis by (rule that [rotated 2])
qed


section \<open>Round robin\<close>

text \<open>The results of a number of consecutive replica selections for a slot.\<close>

fun pickReplicas :: "nat \<Rightarrow> Topology \<Rightarrow> int \<Rightarrow> Node option list" where
  "pickReplicas 0 t slot = []"
| "pickReplicas (Suc k) t slot =
     (case GetReplicaForSlot t slot of (r, t') \<Rightarrow> r # pickReplicas k t' slot)"

lemma GetNodeByAddr_rr [simp]: "GetNodeByAddr (t\<lparr>rrCounter := c\<rparr>) = GetNodeByAddr t"
  by (simp add: GetNodeByAddr_def fun_eq_iff)

lemma GetNodeForSlot_rr [simp]: "GetNodeForSlot (t\<lparr>rrCounter := c\<rparr>) slot = GetNodeForSlot t slot"
  by (simp add: GetNodeForSlot_def split: option.split)

lemma pickReplicas_nth:
  assumes "GetNodeForSlot t slot = Some m" "nReplicas m \<noteq> []" "unat (rrCounter t) + k < 2 ^ 64"
  shows "pickReplicas k t slot =
    map (\<lambda>i. GetNodeByAddr t (nReplicas m ! ((unat (rrCounter t) + 1 + i) mod length (nReplicas m)))) [0..<k]"
  using assms
proof (induction k arbitrary: t)
  case 0
  then show ?case by simp
next
  case (Suc k)
  let ?n = "length (nReplicas m)"
  let ?c = "rrCounter t + 1"
  let ?t = "t\<lparr>rrCounter := ?c\<rparr>"
  have c: "unat ?c = unat (rrCounter t) + 1"
    using Suc.prems(3) by (subst unat_word_ariths) simp
  have "pickReplicas k ?t slot = map (\<lambda>i. GetNodeByAddr ?t
      (nReplicas m ! ((unat (rrCounter ?t) + 1 + i) mod ?n))) [0..<k]"
    using Suc.prems by (intro Suc.IH) (simp_all add: c)
  moreover have "GetReplicaForSlot t slot = (GetNodeByAddr t (nReplicas m ! (unat ?c mod ?n)), ?t)"
    using Suc.prems by (simp add: GetReplicaForSlot_def Let_def)
  moreover have "map f [0..<Suc k] = f 0 # map (\<lambda>i. f (Suc i)) [0..<k]" for f :: "nat \<Rightarrow> Node option"
    by (simp only: map_upt_Suc)
  ultimately show ?case by (simp add: c del: upt_Suc)
qed

lemma pickReplicas_rotate:
  assumes "GetNodeForSlot t slot = Some m" "nReplicas m \<noteq> []"
    "unat (rrCounter t) + length (nReplicas m) < 2 ^ 64"
  shows "pickReplicas (length (nReplicas m)) t slot =
    map (GetNodeByAddr t) (rotate (unat (rrCounter t) + 1) (nReplicas m))"
  unfolding pickReplicas_nth [OF assms]
  by (rule nth_equalityI) (use assms(2) in \<open>simp_all add: nth_rotate del: rotate_Suc\<close>)


section \<open>Refresh\<close>

lemma refreshAll_first:
  assumes "\<forall>b \<in> set bad. \<exists>err. refreshFrom e m b = Some (Inl err)" "refreshFrom e m ep = Some (Inr r)"
  shows "refreshAll e (bad @ ep # rest) m errs = Some (Inr r)"
  using assms by (induction bad arbitrary: errs) auto

lemma refreshAll_fail:
  assumes "\<forall>b \<in> set eps. \<exists>err. refreshFrom e m b = Some (Inl err)"
  shows "\<exists>errs'. refreshAll e eps m errs = Some (Inl (errs @ errs')) \<and> length errs' = length eps"
  using assms
proof (induction eps arbitrary: errs)
  case Nil
  then show ?case by simp
next
  case (Cons ep eps)
  then obtain err where err: "refreshFrom e m ep = Some (Inl err)" by auto
  from Cons.IH [of "errs @ [err]"] Cons.prems obtain errs' where
    "refreshAll e eps m ((errs @ [err]) @ []) = Some (Inl ((errs @ [err]) @ errs'))" "length errs' = length eps" by auto
  with err show ?case by (intro exI [of _ "err # errs'"]) simp
qed

text \<open>What a successful refresh from one entry point leaves behind.\<close>

lemma refreshFrom_ok:
  assumes "refreshFrom e m addr = Some (Inr (m', removed))"
  obtains nodes slots raw where
    "parseClusterNodes (envOrd e 0) (envInner e) raw = Some (nodes, slots)"
    "mgrTopo m' = Update (envOrd e 2) (mgrTopo m) nodes slots (topoFingerprint (envOrd e 1) nodes)"
    "topoFingerprint (envOrd e 1) nodes \<noteq> snFingerprint (tSnap (mgrTopo m)) \<longrightarrow>
       entryPoints m' = sort (envOrd e 3 (map fst nodes)) \<and>
       removed = filter (\<lambda>a. map_of nodes a = None) (envOrd e 4 (map fst (snNodes (tSnap (mgrTopo m)))))"
    "topoFingerprint (envOrd e 1) nodes = snFingerprint (tSnap (mgrTopo m)) \<longrightarrow>
       entryPoints m' = entryPoints m \<and> removed = []"
proof -
  from assms obtain ar nr where n: "envNet e addr = Some (ar, nr)"
    by (auto simp: refreshFrom_def split: option.splits)
  from assms n have a: "(if mgrPassword m \<noteq> [] then authenticate ar else Inr ()) = Inr ()"
    by (auto simp: refreshFrom_def split: sum.splits if_splits)
  from assms n a obtain raw where r: "fetchClusterNodes nr = Inr raw"
    by (cases "fetchClusterNodes nr") (auto simp: refreshFrom_def)
  from assms n a r obtain nodes slots where p: "parseClusterNodes (envOrd e 0) (envInner e) raw = Some (nodes, slots)"
    by (cases "parseClusterNodes (envOrd e 0) (envInner e) raw") (auto simp: refreshFrom_def)
  let ?fp = "topoFingerprint (envOrd e 1) nodes"
  let ?m = "m\<lparr>mgrTopo := Update (envOrd e 2) (mgrTopo m) nodes slots ?fp\<rparr>"
  have "(m', removed) = (if ?fp \<noteq> snFingerprint (tSnap (mgrTopo m))
      then onTopologyChanged e ?m (snNodes (tSnap (mgrTopo m))) nodes else (?m, []))"
    using assms n a r p by (cases "?fp = snFingerprint (tSnap (mgrTopo m))") (simp_all add: refreshFrom_def Let_def)
  then show thesis
    using that [OF p] by (auto simp: onTopologyChanged_def split: if_splits)
qed

lemma Update_simps [simp]:
  "snNodes (tSnap (Update it t nodes slots fp)) = nodes"
  "snSlots (tSnap (Update it t nodes slots fp)) = slots"
  "snFingerprint (tSnap (Update it t nodes slots fp)) = fp"
  "topoVersion (Update it t nodes slots fp) = wrap64 (topoVersion t + 1)"
  "snMasters (tSnap (Update it t nodes slots fp)) =
     sort_key nAddr (filter (\<lambda>n. nRole n = RoleMaster) (rangeNodes it nodes))"
  by (simp_all add: Update_def Let_def)


section \<open>Properties\<close>

text \<open>
  C26. A topology parsed from \<^verbatim>\<open>CLUSTER NODES\<close> has no dangling pointers: every assigned slot is
  one of the 16384 and its owner is a known node, a node is stored under its own address, and
  every replica of a node is a known node in the replica role whose master identifier is that
  of the node.
\<close>

theorem parseClusterNodes_integrity:
  assumes "parseClusterNodes it inner raw = Some (nodes, slots)"
  shows "(\<forall>x a. slots x = Some a \<longrightarrow> x < ClusterSlots \<and> (\<exists>n. map_of nodes a = Some n \<and> nAddr n = a)) \<and>
    (\<forall>a n. map_of nodes a = Some n \<longrightarrow> (\<forall>r \<in> set (nReplicas n).
       \<exists>m. map_of nodes r = Some m \<and> nRole m = RoleReplica \<and> nMasterID m = nID n))"
  using parseClusterNodes_wf [OF assms]
  by (fastforce simp: nodes_ok_def slots_ok_def replicas_ok_def)

definition sampleCluster :: "Node list" where
  "sampleCluster =
     [\<lparr>nID = ''m1'', nAddr = ''h:1'', nRole = RoleMaster, nSlots = [(0, 5), (9, 9)], nReplicas = [], nMasterID = []\<rparr>,
      \<lparr>nID = ''r1'', nAddr = ''h:2'', nRole = RoleReplica, nSlots = [], nReplicas = [], nMasterID = ''m1''\<rparr>]"

definition sampleOrder :: map_order where
  "sampleOrder ks = ks"

lemma sampleCluster_wf: "cluster_wf sampleCluster"
  by (simp add: sampleCluster_def cluster_wf_def node_wf_def word_ok_def plain_def less_eq_char_def ClusterSlots_def)

lemma sampleCluster_parse:
  "\<exists>nodes slots m r. parseClusterNodes sampleOrder (\<lambda>_. sampleOrder) (printCluster sampleCluster) = Some (nodes, slots) \<and>
     slots 5 = Some ''h:1'' \<and> map_of nodes ''h:1'' = Some m \<and> nReplicas m = [''h:2''] \<and> map_of nodes ''h:2'' = Some r"
proof -
  have o: "set (sampleOrder ks) = set ks" for ks by (simp add: sampleOrder_def)
  from parseClusterNodes_printed [OF sampleCluster_wf, of sampleOrder "\<lambda>_. sampleOrder"] o show ?thesis
    by (force simp: sampleCluster_def nodeMap_def replicaOf_def sampleOrder_def ClusterSlots_def)
qed

theorem parseClusterNodes_integrity_witness:
  "\<exists>nodes slots m. parseClusterNodes sampleOrder (\<lambda>_. sampleOrder) (printCluster sampleCluster) = Some (nodes, slots) \<and>
     slots 5 = Some ''h:1'' \<and> map_of nodes ''h:2'' = Some m \<and> nRole m = RoleReplica"
proof -
  obtain nodes slots m r where
    *: "parseClusterNodes sampleOrder (\<lambda>_. sampleOrder) (printCluster sampleCluster) = Some (nodes, slots)"
      "slots 5 = Some ''h:1''" "map_of nodes ''h:1'' = Some m" "nReplicas m = [''h:2'']"
    using sampleCluster_parse by blast
  with parseClusterNodes_integrity [OF *(1)] show ?thesis by fastforce
qed

text \<open>
  C13. The parser recovers a cluster from its printed form: every node with its identifier, role,
  address and ranges, each master with exactly its replicas, and every slot with the master
  whose ranges contain it.
\<close>

theorem parseClusterNodes_printCluster:
  assumes "cluster_wf ns" "\<And>ks. set (it ks) = set ks" "\<And>r ks. set (inner r ks) = set ks"
  shows "\<exists>nodes slots. parseClusterNodes it inner (printCluster ns) = Some (nodes, slots) \<and>
    (\<forall>a. map_of nodes a = map_option
       (\<lambda>n. n\<lparr>nReplicas := filter (\<lambda>r. replicaOf (nodeMap ns) r (nID n)) (it (map nAddr ns))\<rparr>) (map_of (nodeMap ns) a)) \<and>
    (\<forall>x. slots x = ownerIn ns x None)"
  using assms by (rule parseClusterNodes_printed)

theorem parseClusterNodes_printCluster_witness:
  "\<exists>nodes slots. parseClusterNodes rev (\<lambda>_. rev) (printCluster sampleCluster) = Some (nodes, slots) \<and>
     slots 9 = Some ''h:1'' \<and> slots 7 = None"
  using parseClusterNodes_printCluster [OF sampleCluster_wf, of rev "\<lambda>_. rev"]
  by (force simp: sampleCluster_def ClusterSlots_def)

text \<open>
  The slot fields of a master, as Redis prints them, assign exactly the printed ranges: a
  slot inside one of them goes to the master, every other slot keeps its owner.
\<close>

theorem parseSlotFields_ranges:
  assumes "\<forall>(a, b) \<in> set rs. 0 \<le> a \<and> a \<le> b \<and> b < int ClusterSlots"
  shows "\<exists>slots'. parseSlotFields addr (map printRange rs) ([], slots) = Some (rs, slots') \<and>
    (\<forall>x. slots' x = (if \<exists>(a, b) \<in> set rs. a \<le> int x \<and> int x \<le> b then Some addr else slots x))"
proof -
  obtain slots' where p: "parseSlotFields addr (map printRange rs) ([], slots) = Some (rs, slots')"
    using parseSlotFields_print [OF assms, of addr "[]" slots] by auto
  from parseSlotFields_slots [OF p] have "slots' x = (if covered rs x then Some addr else slots x)" for x by auto
  moreover have "covered rs x \<longleftrightarrow> (\<exists>(a, b) \<in> set rs. a \<le> int x \<and> int x \<le> b)" for x
    using assms by (force simp: covered_def)
  ultimately show ?thesis using p by auto
qed

theorem parseSlotFields_ranges_witness:
  "\<exists>slots'. parseSlotFields ''h:1'' (map printRange [(0, 99), (200, 200)]) ([], \<lambda>_. None) =
     Some ([(0, 99), (200, 200)], slots') \<and> slots' 7 = Some ''h:1'' \<and> slots' 200 = Some ''h:1'' \<and> slots' 150 = None"
  using parseSlotFields_ranges [of "[(0, 99), (200, 200)]" "''h:1''" "\<lambda>_. None"]
  by (fastforce simp: ClusterSlots_def)

text \<open>
  C33. The published topology does not depend on the iteration orders that Go picks, a new one for
  every range over a map: when the identifiers of the nodes are distinct, two refreshes that read
  the same answer of a node with different orders publish the same slots, the same nodes up to
  the order in which a master lists its replicas, the same fingerprint and the same list of
  masters, sorted by address.
\<close>

theorem topology_order_independent:
  assumes "parseClusterNodes it inner raw = Some (nodes, slots)" "ids_distinct nodes"
    and "map_iter it" "map_iter it'" "\<And>r. map_iter (inner r)" "\<And>r. map_iter (inner' r)"
    and "map_iter fo" "map_iter fo'" "map_iter uo" "map_iter uo'"
  shows "\<exists>nodes'. parseClusterNodes it' inner' raw = Some (nodes', slots) \<and>
    (\<forall>a. rel_option same_node (map_of nodes a) (map_of nodes' a)) \<and>
    topoFingerprint fo nodes = topoFingerprint fo' nodes' \<and>
    list_all2 same_node (AllMasters (Update uo t nodes slots fp)) (AllMasters (Update uo' t nodes' slots fp)) \<and>
    sorted (map nAddr (AllMasters (Update uo t nodes slots fp))) \<and>
    set (AllMasters (Update uo t nodes slots fp)) = {n \<in> snd ` set nodes. nRole n = RoleMaster}"
proof -
  obtain nodes' where n': "parseClusterNodes it' inner' raw = Some (nodes', slots)" "map fst nodes' = map fst nodes"
    "\<And>a. rel_option same_node (map_of nodes a) (map_of nodes' a)"
    by (rule parseClusterNodes_same [where it' = it' and inner' = inner', OF assms(1-6)]) blast
  have ok: "nodes_ok nodes" using parseClusterNodes_wf [OF assms(1)] by simp
  have "topoFingerprint fo nodes = topoFingerprint fo' nodes'"
    using topoFingerprint_order [OF assms(7,8), of nodes] topoFingerprint_same [OF n'(3) n'(2) [symmetric], of fo'] by simp
  moreover have "list_all2 same_node (AllMasters (Update uo t nodes slots fp)) (AllMasters (Update uo' t nodes' slots fp))"
    unfolding AllMasters_def Update_simps masters_order [OF assms(9,10) ok] by (rule masters_same [OF n'(3) n'(2) [symmetric]])
  moreover have "sorted (map nAddr (AllMasters (Update uo t nodes slots fp)))"
    "set (AllMasters (Update uo t nodes slots fp)) = {n \<in> snd ` set nodes. nRole n = RoleMaster}"
    unfolding AllMasters_def Update_simps using rangeNodes_set [OF assms(9) ok] by auto
  ultimately show ?thesis using n'(1,3) by blast
qed

theorem topology_order_independent_witness:
  "\<exists>nodes nodes' slots. parseClusterNodes sampleOrder (\<lambda>_. sampleOrder) (printCluster sampleCluster) = Some (nodes, slots) \<and>
     parseClusterNodes rev (\<lambda>_. rev) (printCluster sampleCluster) = Some (nodes', slots) \<and>
     topoFingerprint rev nodes = topoFingerprint sampleOrder nodes' \<and>
     list_all2 same_node (AllMasters (Update rev NewTopology nodes slots [])) (AllMasters (Update sampleOrder NewTopology nodes' slots []))"
proof -
  have m: "map_iter sampleOrder" "map_iter rev" by (simp_all add: map_iter_def sampleOrder_def)
  have o: "set (sampleOrder ks) = set ks" for ks by (simp add: sampleOrder_def)
  obtain nodes slots where p: "parseClusterNodes sampleOrder (\<lambda>_. sampleOrder) (printCluster sampleCluster) = Some (nodes, slots)"
    and n: "\<And>a. map_of nodes a = map_option
       (\<lambda>n. n\<lparr>nReplicas := filter (\<lambda>r. replicaOf (nodeMap sampleCluster) r (nID n)) (sampleOrder (map nAddr sampleCluster))\<rparr>)
       (map_of (nodeMap sampleCluster) a)"
    using parseClusterNodes_printed [OF sampleCluster_wf, of sampleOrder "\<lambda>_. sampleOrder"] o by blast
  have "ids_distinct nodes"
  proof (rule ids_distinct_cong [of "nodeMap sampleCluster"])
    show "map_option nID (map_of (nodeMap sampleCluster) a) = map_option nID (map_of nodes a)" for a
      by (simp add: n option.map_comp comp_def)
    show "ids_distinct (nodeMap sampleCluster)" by (simp add: ids_distinct_def nodeMap_def sampleCluster_def)
  qed
  from topology_order_independent [OF p this m(1,2) m(1,2) m(2,1) m(2,1)] p show ?thesis by blast
qed

text \<open>
  Replica selection is a fair round robin: as many consecutive selections as the master of a
  slot has replicas return each replica exactly once, in a rotation of the replica list, as long
  as the counter does not wrap around.
\<close>

theorem GetReplicaForSlot_fair:
  assumes "GetNodeForSlot t slot = Some m" "nReplicas m \<noteq> []"
    "unat (rrCounter t) + length (nReplicas m) < 2 ^ 64"
  shows "pickReplicas (length (nReplicas m)) t slot =
      map (GetNodeByAddr t) (rotate (unat (rrCounter t) + 1) (nReplicas m)) \<and>
    mset (pickReplicas (length (nReplicas m)) t slot) = mset (map (GetNodeByAddr t) (nReplicas m))"
proof -
  have "mset (rotate1 xs) = mset xs" for xs :: "bytes list" by (cases xs) simp_all
  then have "mset (rotate k xs) = mset xs" for k and xs :: "bytes list"
    by (induction k) simp_all
  then show ?thesis unfolding pickReplicas_rotate [OF assms] by (simp only: mset_map simp_thms)
qed

theorem GetReplicaForSlot_fair_witness:
  "\<exists>t m. GetNodeForSlot t 0 = Some m \<and> nReplicas m = [''b'', ''c''] \<and>
     map (map_option nAddr) (pickReplicas 2 t 0) = [Some ''c'', Some ''b'']"
proof -
  let ?m = "(newNode ''1'' ''a'')\<lparr>nReplicas := [''b'', ''c'']\<rparr>"
  let ?t = "Update (\<lambda>ks. ks) NewTopology [(''a'', ?m), (''b'', newNode ''2'' ''b''), (''c'', newNode ''3'' ''c'')]
    (\<lambda>_. Some ''a'') []"
  have rr: "rrCounter ?t = 0" by (simp add: Update_def NewTopology_def Let_def)
  have g: "GetNodeForSlot ?t 0 = Some ?m" by (simp add: GetNodeForSlot_def GetNodeByAddr_def ClusterSlots_def)
  have "pickReplicas (length (nReplicas ?m)) ?t 0 =
      map (GetNodeByAddr ?t) (rotate (unat (rrCounter ?t) + 1) (nReplicas ?m))"
    by (rule GetReplicaForSlot_fair [THEN conjunct1, OF g]) (simp_all add: rr)
  then have "pickReplicas 2 ?t 0 = map (GetNodeByAddr ?t) [''c'', ''b'']"
    by (simp add: rr numeral_2_eq_2 del: pickReplicas.simps)
  then have "map (map_option nAddr) (pickReplicas 2 ?t 0) = [Some ''c'', Some ''b'']"
    by (simp add: GetNodeByAddr_def newNode_def del: pickReplicas.simps)
  with g show ?thesis by (intro exI [of _ ?t] exI [of _ ?m]) simp
qed

text \<open>
  C34. A refresh uses the first entry point that answers, whatever failed before it. Its result
  is a consistent topology one version further; when the fingerprint changed, the addresses of
  the new topology become the entry points, in order, and exactly the nodes that disappeared
  are reported to the hook that closes their connections.
\<close>

theorem refresh_first_answer:
  assumes "entryPoints m = bad @ ep # rest" "\<forall>b \<in> set bad. \<exists>err. refreshFrom e m b = Some (Inl err)"
    and "refreshFrom e m ep = Some (Inr (m', removed))" "\<And>i. map_iter (envOrd e i)"
  shows "refresh e m = Some (Inr (m', removed)) \<and>
    topoVersion (mgrTopo m') = wrap64 (topoVersion (mgrTopo m) + 1) \<and>
    nodes_ok (snNodes (tSnap (mgrTopo m'))) \<and>
    (snFingerprint (tSnap (mgrTopo m')) \<noteq> snFingerprint (tSnap (mgrTopo m)) \<longrightarrow>
       sorted (entryPoints m') \<and> set (entryPoints m') = fst ` set (snNodes (tSnap (mgrTopo m'))) \<and>
       set removed = fst ` set (snNodes (tSnap (mgrTopo m))) - fst ` set (snNodes (tSnap (mgrTopo m'))))"
proof -
  obtain nodes slots raw where
    *: "parseClusterNodes (envOrd e 0) (envInner e) raw = Some (nodes, slots)"
      "mgrTopo m' = Update (envOrd e 2) (mgrTopo m) nodes slots (topoFingerprint (envOrd e 1) nodes)"
      "topoFingerprint (envOrd e 1) nodes \<noteq> snFingerprint (tSnap (mgrTopo m)) \<longrightarrow>
       entryPoints m' = sort (envOrd e 3 (map fst nodes)) \<and>
       removed = filter (\<lambda>a. map_of nodes a = None) (envOrd e 4 (map fst (snNodes (tSnap (mgrTopo m)))))"
    using refreshFrom_ok [OF assms(3)] by metis
  have "{a \<in> A. map_of nodes a = None} = A - fst ` set nodes" for A
    by (auto simp: map_of_eq_None_iff)
  then show ?thesis
    using * parseClusterNodes_wf [OF *(1)] refreshAll_first [OF assms(2,3)] assms(1,4)
    by (simp add: refresh_def map_iter_set)
qed

theorem refresh_first_answer_witness:
  "\<exists>e m m' removed. refresh e m = Some (Inr (m', removed)) \<and> entryPoints m = [''x'', ''h:9''] \<and>
     topoVersion (mgrTopo m') = 1"
proof -
  let ?raw = "printCluster sampleCluster"
  let ?e = "\<lparr>envOrd = (\<lambda>_. sampleOrder), envInner = (\<lambda>_. sampleOrder),
    envNet = (\<lambda>a. if a = ''h:9'' then Some ([], EncodeBulkString ?raw) else None)\<rparr>"
  let ?m = "NewManager [''x'', ''h:9''] [] []"
  obtain nodes slots where p: "parseClusterNodes sampleOrder (\<lambda>_. sampleOrder) ?raw = Some (nodes, slots)"
    using sampleCluster_parse by blast
  have "go_slice (EncodeBulkString ?raw @ [])" by code_simp
  then have "ReadValue (EncodeBulkString ?raw) = Inr (BulkV ?raw, [])"
    using readValue_encoded [OF wf_bulk, of ?raw "[]" "length (EncodeBulkString ?raw)"]
    by (auto simp: ReadValue_def ReadByte_def enc_simps(5))
  then have f: "fetchClusterNodes (EncodeBulkString ?raw) = Inr ?raw"
    by (simp add: fetchClusterNodes_def IsError_def BulkV_def)
  obtain m' removed where r: "refreshFrom ?e ?m ''h:9'' = Some (Inr (m', removed))"
    using p f by (simp add: refreshFrom_def NewManager_def Let_def) (metis surj_pair)
  have "refreshFrom ?e ?m ''x'' = Some (Inl (DialErr ''x''))" by (simp add: refreshFrom_def)
  with refresh_first_answer [of ?m "[''x'']" "''h:9''" "[]" ?e, OF _ _ r] show ?thesis
    by (intro exI [of _ ?e] exI [of _ ?m] exI [of _ m'] exI [of _ removed])
      (simp add: NewManager_def NewTopology_def map_iter_def sampleOrder_def wrap64_def)
qed

text \<open>
  When no entry point answers, the refresh reports one error per entry point, and a round of
  the refresh loop leaves the topology and the entry points as they were.
\<close>

theorem refreshRound_failure:
  assumes "\<forall>b \<in> set (entryPoints m). \<exists>err. refreshFrom e (m\<lparr>refreshCh := False\<rparr>) b = Some (Inl err)"
  shows "(\<exists>errs. refresh e (m\<lparr>refreshCh := False\<rparr>) = Some (Inl errs) \<and> length errs = length (entryPoints m)) \<and>
    (\<exists>m'. refreshRound e False m = Some (m', []) \<and> mgrTopo m' = mgrTopo m \<and> entryPoints m' = entryPoints m)"
proof -
  obtain errs where "refresh e (m\<lparr>refreshCh := False\<rparr>) = Some (Inl errs)" "length errs = length (entryPoints m)"
    using refreshAll_fail [of "entryPoints m" e "m\<lparr>refreshCh := False\<rparr>" "[]"] assms
    by (auto simp: refresh_def)
  then show ?thesis by (simp add: refreshRound_def Let_def)
qed

theorem refreshRound_failure_witness:
  "refreshRound \<lparr>envOrd = (\<lambda>_. sampleOrder), envInner = (\<lambda>_. sampleOrder), envNet = (\<lambda>_. None)\<rparr> False
     (NewManager [''x''] [] []) = Some (NewManager [''x''] [] [], [])"
  using refreshRound_failure [of "NewManager [''x''] [] []"
      "\<lparr>envOrd = (\<lambda>_. sampleOrder), envInner = (\<lambda>_. sampleOrder), envNet = (\<lambda>_. None)\<rparr>"]
  by (simp add: refreshRound_def refresh_def refreshFrom_def NewManager_def)

text \<open>A slot range that ends at the largest integer makes the parser loop for ever.\<close>

lemma parseSlotField_diverges: "parseSlotField addr ''0-9223372036854775807'' st = None"
proof -
  have "fmt_int 0 = ''0''" "fmt_int 9223372036854775807 = ''9223372036854775807''"
    by (simp_all add: fmt_int_def fmt_nat.simps)
  then have "Atoi ''0'' = Some 0" "Atoi ''9223372036854775807'' = Some 9223372036854775807"
    using parse_int64_fmt_int [of 0] parse_int64_fmt_int [of 9223372036854775807] by (simp_all add: in_int64_def)
  then show ?thesis by (cases st) (simp add: parseSlotField_def has_prefix_def)
qed

end
