(* ===== verification/RespQueue.thy ===== *)
theory RespQueue
  imports Resp_Correct
begin

text \<open>
  The reply queue of a client connection, \<^verbatim>\<open>src/pkg/engine/handler.go\<close>: requests are answered
  out of order by several backends, and the replies leave in the order of the requests. A
  request allocates a slot with an absolute index; a reply fills the slot; the ready slots at
  the head of the queue are written. Multi-key requests collect one sub-reply per group before
  they fill their slot. The capacity bookkeeping of the Go slice is not visible and left out.
\<close>

section \<open>Definitions\<close>

record subResponse =
  subIdx :: nat
  subData :: bytes

text \<open>The merge function may panic, which is \<^term>\<open>None\<close>.\<close>

record fanInState =
  fiTotal :: nat
  fiReceived :: nat
  fiSubData :: "subResponse list"
  fiMergeFunc :: "subResponse list \<Rightarrow> bytes option"

record responseSlot =
  rsReady :: bool
  rsData :: bytes
  rsFanIn :: "fanInState option"

record rqueue =
  respQueue :: "responseSlot list"
  respBase :: int

definition newQueue :: rqueue where
  "newQueue = \<lparr>respQueue = [], respBase = 0\<rparr>"

definition allocResponseSlot :: "rqueue \<Rightarrow> int \<times> rqueue" where
  "allocResponseSlot q =
     (respBase q + int (length (respQueue q)),
      q\<lparr>respQueue := respQueue q @ [\<lparr>rsReady = False, rsData = [], rsFanIn = None\<rparr>]\<rparr>)"

text \<open>The number of ready slots at the head of the queue.\<close>

definition readyHead :: "responseSlot list \<Rightarrow> nat" where
  "readyHead slots = length (takeWhile rsReady slots)"

text \<open>Take the first \<open>head\<close> slots off the queue; their data is what is written.\<close>

definition popHead :: "nat \<Rightarrow> rqueue \<Rightarrow> rqueue \<times> bytes list" where
  "popHead head q =
     (q\<lparr>respQueue := drop head (respQueue q), respBase := respBase q + int head\<rparr>,
      map rsData (take head (respQueue q)))"

definition inQueue :: "int \<Rightarrow> rqueue \<Rightarrow> bool" where
  "inQueue absIdx q \<longleftrightarrow> 0 \<le> absIdx - respBase q \<and> absIdx - respBase q < int (length (respQueue q))"

definition setReady :: "nat \<Rightarrow> bytes \<Rightarrow> rqueue \<Rightarrow> rqueue" where
  "setReady rel data q =
     q\<lparr>respQueue := (respQueue q)[rel := (respQueue q ! rel)\<lparr>rsReady := True, rsData := data\<rparr>]\<rparr>"

definition fillResponseSlotInLoop :: "int \<Rightarrow> bytes \<Rightarrow> rqueue \<Rightarrow> rqueue \<times> bytes list" where
  "fillResponseSlotInLoop absIdx data q =
     (if \<not> inQueue absIdx q then (q, [])
      else (let q' = setReady (nat (absIdx - respBase q)) data q;
                head = readyHead (respQueue q')
            in if head = 0 then (q', []) else popHead head q'))"

text \<open>The shared tail of the two accumulating fills: write out only when the slot is the first unready one.\<close>

definition accumulateAt :: "nat \<Rightarrow> bytes \<Rightarrow> rqueue \<Rightarrow> rqueue \<times> bytes list" where
  "accumulateAt rel data q =
     (let q' = setReady rel data q
      in if rel = readyHead (respQueue q) then popHead (readyHead (respQueue q')) q' else (q', []))"

definition accumulateResponseSlot :: "int \<Rightarrow> bytes \<Rightarrow> rqueue \<Rightarrow> rqueue \<times> bytes list" where
  "accumulateResponseSlot absIdx data q =
     (if \<not> inQueue absIdx q then (q, [])
      else (let rel = nat (absIdx - respBase q)
            in if rsFanIn (respQueue q ! rel) \<noteq> None then (q, []) else accumulateAt rel data q))"

definition setFanIn :: "nat \<Rightarrow> fanInState option \<Rightarrow> rqueue \<Rightarrow> rqueue" where
  "setFanIn rel fi q = q\<lparr>respQueue := (respQueue q)[rel := (respQueue q ! rel)\<lparr>rsFanIn := fi\<rparr>]\<rparr>"

definition accumulateFanInSubResponse ::
  "int \<Rightarrow> nat \<Rightarrow> bytes \<Rightarrow> rqueue \<Rightarrow> (rqueue \<times> bytes list) option" where
  "accumulateFanInSubResponse absIdx idx data q =
     (if \<not> inQueue absIdx q then Some (q, [])
      else (let rel = nat (absIdx - respBase q)
            in case rsFanIn (respQueue q ! rel) of
                 None \<Rightarrow> Some (q, [])
               | Some fi \<Rightarrow>
                  if idx \<ge> length (fiSubData fi) then None
                  else (let fi' = fi\<lparr>fiSubData := (fiSubData fi)[idx := \<lparr>subIdx = idx, subData = data\<rparr>],
                                     fiReceived := fiReceived fi + 1\<rparr>
                        in if fiReceived fi' < fiTotal fi' then Some (setFanIn rel (Some fi') q, [])
                           else (case fiMergeFunc fi' (fiSubData fi') of
                                   None \<Rightarrow> None
                                 | Some merged \<Rightarrow> Some (accumulateAt rel merged (setFanIn rel None q))))))"

text \<open>The start of a fan-in: the slot just allocated gets its state.\<close>

definition startFanIn :: "int \<Rightarrow> fanInState \<Rightarrow> rqueue \<Rightarrow> rqueue" where
  "startFanIn absIdx fi q = setFanIn (nat (absIdx - respBase q)) (Some fi) q"


section \<open>Runs\<close>

datatype rqop = Alloc | Fill int bytes | Accum int bytes | Sub int nat bytes | Fan int fanInState

fun rqstep :: "rqop \<Rightarrow> rqueue \<Rightarrow> (rqueue \<times> bytes list) option" where
  "rqstep Alloc q = Some (snd (allocResponseSlot q), [])"
| "rqstep (Fill i d) q = Some (fillResponseSlotInLoop i d q)"
| "rqstep (Accum i d) q = Some (accumulateResponseSlot i d q)"
| "rqstep (Sub i k d) q = accumulateFanInSubResponse i k d q"
| "rqstep (Fan i fi) q = Some (if inQueue i q then startFanIn i fi q else q, [])"

fun rqrun :: "rqop list \<Rightarrow> rqueue \<Rightarrow> (rqueue \<times> bytes list) option" where
  "rqrun [] q = Some (q, [])"
| "rqrun (p # ps) q =
     (case rqstep p q of
        None \<Rightarrow> None
      | Some (q', out) \<Rightarrow> (case rqrun ps q' of None \<Rightarrow> None | Some (q'', outs) \<Rightarrow> Some (q'', out @ outs)))"

text \<open>The data \<open>d\<close> was given by one of the operations for the slot \<open>i\<close>.\<close>

definition supplied :: "rqop set \<Rightarrow> int \<Rightarrow> bytes \<Rightarrow> bool" where
  "supplied ops i d \<longleftrightarrow> Fill i d \<in> ops \<or> Accum i d \<in> ops \<or>
     (\<exists>fi subs. Fan i fi \<in> ops \<and> fiMergeFunc fi subs = Some d)"

lemma supplied_mono: "supplied A i d \<Longrightarrow> A \<subseteq> B \<Longrightarrow> supplied B i d"
  by (auto simp: supplied_def)

text \<open>
  The invariant: the head of the queue is not ready, ready slots hold data that was supplied for
  their index, and a collecting slot merges with the function it was started with.
\<close>

definition slot_ok :: "rqop set \<Rightarrow> int \<Rightarrow> responseSlot \<Rightarrow> bool" where
  "slot_ok ops i s \<longleftrightarrow> (rsReady s \<longrightarrow> supplied ops i (rsData s)) \<and>
     (\<forall>fi. rsFanIn s = Some fi \<longrightarrow> (\<exists>fi0. Fan i fi0 \<in> ops \<and> fiMergeFunc fi0 = fiMergeFunc fi))"

definition slots_inv :: "rqop set \<Rightarrow> rqueue \<Rightarrow> bool" where
  "slots_inv ops q \<longleftrightarrow>
     (\<forall>j < length (respQueue q). slot_ok ops (respBase q + int j) (respQueue q ! j))"

definition flushed :: "rqueue \<Rightarrow> bool" where
  "flushed q \<longleftrightarrow> respQueue q = [] \<or> \<not> rsReady (hd (respQueue q))"

lemma slot_ok_mono: "slot_ok A i s \<Longrightarrow> A \<subseteq> B \<Longrightarrow> slot_ok B i s"
  unfolding slot_ok_def using supplied_mono by blast

lemma slots_inv_mono: "slots_inv A q \<Longrightarrow> A \<subseteq> B \<Longrightarrow> slots_inv B q"
  unfolding slots_inv_def using slot_ok_mono by blast

lemma readyHead_flushed: "flushed q \<Longrightarrow> readyHead (respQueue q) = 0"
  by (cases "respQueue q") (auto simp: flushed_def readyHead_def)

lemma readyHead_le: "readyHead slots \<le> length slots"
  by (simp add: readyHead_def length_takeWhile_le)

lemma readyHead_drop: "\<not> (drop (readyHead slots) slots \<noteq> [] \<and> rsReady (hd (drop (readyHead slots) slots)))"
  by (metis dropWhile_eq_drop hd_dropWhile readyHead_def)

lemma readyHead_ready: "j < readyHead slots \<Longrightarrow> rsReady (slots ! j)"
  unfolding readyHead_def by (metis nth_mem set_takeWhileD takeWhile_nth)

lemma popHead_flushed: "flushed (fst (popHead (readyHead (respQueue q)) q))"
  using readyHead_drop [of "respQueue q"] by (auto simp: popHead_def flushed_def)

lemma popHead_inv:
  assumes "slots_inv ops q" "head \<le> length (respQueue q)"
  shows "slots_inv ops (fst (popHead head q))"
  unfolding slots_inv_def
proof (intro allI impI)
  fix j assume j: "j < length (respQueue (fst (popHead head q)))"
  then have "head + j < length (respQueue q)" by (simp add: popHead_def)
  with assms(1) have "slot_ok ops (respBase q + int (head + j)) (respQueue q ! (head + j))"
    unfolding slots_inv_def by blast
  then show "slot_ok ops (respBase (fst (popHead head q)) + int j) (respQueue (fst (popHead head q)) ! j)"
    using assms(2) by (simp add: popHead_def algebra_simps)
qed

text \<open>What \<open>popHead\<close> writes: the data of consecutive slots, starting at the base.\<close>

definition emits :: "rqop set \<Rightarrow> rqueue \<Rightarrow> rqueue \<times> bytes list \<Rightarrow> bool" where
  "emits ops q r \<longleftrightarrow>
     respBase (fst r) = respBase q + int (length (snd r)) \<and>
     (\<forall>j < length (snd r). supplied ops (respBase q + int j) (snd r ! j))"

lemma popHead_emits:
  assumes "slots_inv ops q" shows "emits ops q (popHead (readyHead (respQueue q)) q)"
proof -
  have "supplied ops (respBase q + int j) (map rsData (take (readyHead (respQueue q)) (respQueue q)) ! j)"
    if "j < readyHead (respQueue q)" for j
    using that assms readyHead_le [of "respQueue q"] readyHead_ready [OF that]
    by (auto simp: slots_inv_def slot_ok_def)
  then show ?thesis using readyHead_le [of "respQueue q"] by (simp add: emits_def popHead_def)
qed

lemma emits_none: "respBase q' = respBase q \<Longrightarrow> emits ops q (q', [])"
  by (simp add: emits_def)

lemma slots_inv_update:
  assumes "slots_inv ops q" "rel < length (respQueue q)" "slot_ok ops (respBase q + int rel) s"
  shows "slots_inv ops (q\<lparr>respQueue := (respQueue q)[rel := s]\<rparr>)"
  using assms unfolding slots_inv_def by (auto simp: nth_list_update)

lemma setReady_inv:
  assumes "slots_inv ops q" "rel < length (respQueue q)" "supplied ops (respBase q + int rel) data"
  shows "slots_inv ops (setReady rel data q)"
  unfolding setReady_def
proof (rule slots_inv_update [OF assms(1,2)])
  have "slot_ok ops (respBase q + int rel) (respQueue q ! rel)" using assms(1,2) by (simp add: slots_inv_def)
  with assms(3) show "slot_ok ops (respBase q + int rel) ((respQueue q ! rel)\<lparr>rsReady := True, rsData := data\<rparr>)"
    by (simp add: slot_ok_def)
qed

lemma respBase_simps [simp]:
  "respBase (setReady rel data q) = respBase q" "respBase (setFanIn rel fi q) = respBase q"
  "length (respQueue (setReady rel data q)) = length (respQueue q)"
  "length (respQueue (setFanIn rel fi q)) = length (respQueue q)"
  by (simp_all add: setReady_def setFanIn_def)

lemma readyHead_setReady_other:
  assumes "flushed q" "rel \<noteq> 0" "rel < length (respQueue q)"
  shows "readyHead (respQueue (setReady rel data q)) = 0"
  using assms by (cases "respQueue q"; cases rel) (auto simp: setReady_def flushed_def readyHead_def)

lemma readyHead_setReady_0:
  "respQueue q \<noteq> [] \<Longrightarrow> readyHead (respQueue (setReady 0 data q)) \<noteq> 0"
  by (cases "respQueue q") (auto simp: setReady_def readyHead_def)

text \<open>In a flushed queue, the two ways to fill a slot are the same.\<close>

lemma accumulateAt_eq:
  assumes "flushed q" "rel < length (respQueue q)"
  shows "accumulateAt rel data q =
    (let q' = setReady rel data q; head = readyHead (respQueue q')
     in if head = 0 then (q', []) else popHead head q')"
proof (cases "rel = 0")
  case True
  then show ?thesis
    using assms readyHead_flushed [OF assms(1)] readyHead_setReady_0 [of q data]
    by (auto simp: accumulateAt_def Let_def)
next
  case False
  then show ?thesis
    using readyHead_flushed [OF assms(1)] readyHead_setReady_other [OF assms(1) False assms(2)]
    by (simp add: accumulateAt_def Let_def)
qed

lemma accumulate_fill:
  assumes "flushed q" "inQueue absIdx q" "rsFanIn (respQueue q ! nat (absIdx - respBase q)) = None"
  shows "accumulateResponseSlot absIdx data q = fillResponseSlotInLoop absIdx data q"
proof -
  have "nat (absIdx - respBase q) < length (respQueue q)" using assms(2) by (simp add: inQueue_def nat_less_iff)
  from accumulateAt_eq [OF assms(1) this] assms show ?thesis
    by (simp add: accumulateResponseSlot_def fillResponseSlotInLoop_def Let_def)
qed

text \<open>The step lemma of all fills.\<close>

definition step_ok :: "rqop set \<Rightarrow> rqueue \<Rightarrow> rqueue \<times> bytes list \<Rightarrow> bool" where
  "step_ok ops q r \<longleftrightarrow> slots_inv ops (fst r) \<and> flushed (fst r) \<and> emits ops q r"

lemma fill_step:
  assumes "slots_inv ops q" "flushed q" "rel < length (respQueue q)" "supplied ops (respBase q + int rel) data"
  shows "step_ok ops q
    (let q' = setReady rel data q; head = readyHead (respQueue q')
     in if head = 0 then (q', []) else popHead head q')"
proof -
  let ?q = "setReady rel data q"
  have inv: "slots_inv ops ?q" by (rule setReady_inv [OF assms(1,3,4)])
  show ?thesis
  proof (cases "readyHead (respQueue ?q) = 0")
    case True
    then have "flushed ?q" by (cases "respQueue ?q") (auto simp: flushed_def readyHead_def split: if_splits)
    with True inv show ?thesis by (simp add: step_ok_def emits_none)
  next
    case False
    from popHead_emits [OF inv] have "emits ops q (popHead (readyHead (respQueue ?q)) ?q)"
      by (simp add: emits_def)
    with False popHead_inv [OF inv readyHead_le] show ?thesis
      by (simp add: step_ok_def popHead_flushed Let_def)
  qed
qed

lemma same_step: "slots_inv ops q \<Longrightarrow> flushed q \<Longrightarrow> step_ok ops q (q, [])"
  by (simp add: step_ok_def emits_none)

lemma inQueueE:
  assumes "inQueue i q" obtains rel where "rel < length (respQueue q)" "i = respBase q + int rel" "nat (i - respBase q) = rel"
  using assms by (intro that [of "nat (i - respBase q)"]) (auto simp: inQueue_def nat_less_iff)

lemma setFanIn_ok:
  assumes "slots_inv ops q" "flushed q" "rel < length (respQueue q)"
    "\<forall>f. fi = Some f \<longrightarrow> (\<exists>f0. Fan (respBase q + int rel) f0 \<in> ops \<and> fiMergeFunc f0 = fiMergeFunc f)"
  shows "slots_inv ops (setFanIn rel fi q) \<and> flushed (setFanIn rel fi q)"
proof
  have "slot_ok ops (respBase q + int rel) (respQueue q ! rel)" using assms(1,3) by (simp add: slots_inv_def)
  with assms(4) have "slot_ok ops (respBase q + int rel) ((respQueue q ! rel)\<lparr>rsFanIn := fi\<rparr>)"
    by (simp add: slot_ok_def)
  then show "slots_inv ops (setFanIn rel fi q)"
    unfolding setFanIn_def by (rule slots_inv_update [OF assms(1,3)])
  show "flushed (setFanIn rel fi q)"
    using assms(2,3) by (cases "respQueue q"; cases rel) (auto simp: setFanIn_def flushed_def)
qed

lemma fanIn_step:
  assumes "slots_inv ops q" "flushed q" "accumulateFanInSubResponse i k d q = Some r"
  shows "step_ok ops q r"
proof (cases "inQueue i q")
  case False
  with assms show ?thesis by (auto simp: accumulateFanInSubResponse_def same_step)
next
  case True
  then obtain rel where rel: "rel < length (respQueue q)" "i = respBase q + int rel" "nat (i - respBase q) = rel"
    by (rule inQueueE)
  show ?thesis
  proof (cases "rsFanIn (respQueue q ! rel)")
    case None
    with True rel(2) assms show ?thesis by (auto simp: accumulateFanInSubResponse_def same_step)
  next
    case (Some fi)
    let ?fi = "fi\<lparr>fiSubData := (fiSubData fi)[k := \<lparr>subIdx = k, subData = d\<rparr>], fiReceived := fiReceived fi + 1\<rparr>"
    have "slot_ok ops i (respQueue q ! rel)" using assms(1) rel by (simp add: slots_inv_def)
    with Some obtain f0 where f0: "Fan i f0 \<in> ops" "fiMergeFunc f0 = fiMergeFunc fi" by (auto simp: slot_ok_def)
    have r: "r = (setFanIn rel (Some ?fi) q, []) \<or>
        (\<exists>merged. fiMergeFunc fi (fiSubData ?fi) = Some merged \<and> r = accumulateAt rel merged (setFanIn rel None q))"
      using assms(3) True Some rel(2)
      by (auto simp: accumulateFanInSubResponse_def Let_def split: if_splits option.splits)
    have fan: "slots_inv ops (setFanIn rel f q) \<and> flushed (setFanIn rel f q)"
      if "\<forall>g. f = Some g \<longrightarrow> fiMergeFunc g = fiMergeFunc fi" for f
      using that f0 rel by (intro setFanIn_ok [OF assms(1,2)]) auto
    from r show ?thesis
    proof
      assume "r = (setFanIn rel (Some ?fi) q, [])"
      with fan [of "Some ?fi"] show ?thesis by (simp add: step_ok_def emits_none)
    next
      assume "\<exists>merged. fiMergeFunc fi (fiSubData ?fi) = Some merged \<and> r = accumulateAt rel merged (setFanIn rel None q)"
      then obtain merged where m: "fiMergeFunc fi (fiSubData ?fi) = Some merged"
          "r = accumulateAt rel merged (setFanIn rel None q)" by blast
      from m(1) f0 rel(2) have "supplied ops (respBase q + int rel) merged"
        unfolding supplied_def by metis
      then have "step_ok ops (setFanIn rel None q) r"
        unfolding m(2) using fan [of None] rel(1)
        by (subst accumulateAt_eq) (auto intro: fill_step)
      then show ?thesis by (simp add: step_ok_def emits_def)
    qed
  qed
qed

lemma rqstep_ok:
  assumes "slots_inv ops q" "flushed q" "rqstep p q = Some r" "p \<in> ops"
  shows "step_ok ops q r"
proof (cases p)
  case Alloc
  have "slots_inv ops (snd (allocResponseSlot q))"
    using assms(1) by (auto simp: slots_inv_def allocResponseSlot_def nth_append slot_ok_def less_Suc_eq)
  moreover have "flushed (snd (allocResponseSlot q))"
    using assms(2) by (cases "respQueue q") (auto simp: flushed_def allocResponseSlot_def)
  moreover have "respBase (snd (allocResponseSlot q)) = respBase q" by (simp add: allocResponseSlot_def)
  ultimately show ?thesis using assms(3) Alloc by (auto simp: step_ok_def emits_none)
next
  case (Fill i d)
  show ?thesis
  proof (cases "inQueue i q")
    case False
    with Fill assms show ?thesis by (auto simp: fillResponseSlotInLoop_def same_step)
  next
    case True
    then obtain rel where rel: "rel < length (respQueue q)" "i = respBase q + int rel" "nat (i - respBase q) = rel"
      by (rule inQueueE)
    have "supplied ops (respBase q + int rel) d" using Fill assms(4) rel(2) by (simp add: supplied_def)
    from fill_step [OF assms(1,2) rel(1) this] show ?thesis
      using Fill assms(3) True rel(3) by (simp add: fillResponseSlotInLoop_def Let_def)
  qed
next
  case (Accum i d)
  show ?thesis
  proof (cases "inQueue i q \<and> rsFanIn (respQueue q ! nat (i - respBase q)) = None")
    case False
    with Accum assms show ?thesis by (auto simp: accumulateResponseSlot_def Let_def same_step)
  next
    case True
    then obtain rel where rel: "rel < length (respQueue q)" "i = respBase q + int rel" "nat (i - respBase q) = rel"
      using inQueueE by blast
    have "supplied ops (respBase q + int rel) d" using Accum assms(4) rel(2) by (simp add: supplied_def)
    from fill_step [OF assms(1,2) rel(1) this] accumulateAt_eq [OF assms(2) rel(1)] show ?thesis
      using Accum assms(3) True rel(3) by (simp add: accumulateResponseSlot_def Let_def)
  qed
next
  case (Sub i k d)
  with assms fanIn_step show ?thesis by simp
next
  case (Fan i fi)
  show ?thesis
  proof (cases "inQueue i q")
    case False
    with Fan assms show ?thesis by (auto simp: same_step)
  next
    case True
    then obtain rel where rel: "rel < length (respQueue q)" "i = respBase q + int rel" "nat (i - respBase q) = rel"
      by (rule inQueueE)
    have "slots_inv ops (setFanIn rel (Some fi) q) \<and> flushed (setFanIn rel (Some fi) q)"
      using assms(4) Fan rel by (intro setFanIn_ok [OF assms(1,2)]) auto
    with Fan assms(3) True rel(3) show ?thesis by (auto simp: step_ok_def emits_none startFanIn_def)
  qed
qed

lemma rqrun_ok:
  assumes "slots_inv ops q" "flushed q" "rqrun ps q = Some r" "set ps \<subseteq> ops"
  shows "step_ok ops q r"
  using assms
proof (induction ps arbitrary: q r)
  case Nil
  then show ?case by (auto simp: same_step)
next
  case (Cons p ps)
  obtain q' out q'' outs where *: "rqstep p q = Some (q', out)" "rqrun ps q' = Some (q'', outs)" "r = (q'', out @ outs)"
    using Cons.prems(3) by (auto split: option.splits)
  have 1: "step_ok ops q (q', out)" using Cons.prems by (intro rqstep_ok [OF _ _ *(1)]) auto
  have 2: "step_ok ops q' (q'', outs)"
    using Cons.prems 1 by (intro Cons.IH [OF _ _ *(2)]) (auto simp: step_ok_def)
  have "supplied ops (respBase q + int j) ((out @ outs) ! j)" if j: "j < length (out @ outs)" for j
  proof (cases "j < length out")
    case True
    with 1 show ?thesis by (simp add: step_ok_def emits_def nth_append)
  next
    case False
    with j have k: "j - length out < length outs" by simp
    have b: "respBase q + int j = respBase q' + int (j - length out)"
      using 1 False by (simp add: step_ok_def emits_def)
    have "supplied ops (respBase q' + int (j - length out)) (outs ! (j - length out))"
      using 2 k unfolding step_ok_def emits_def by auto
    with False show ?thesis unfolding b by (simp add: nth_append)
  qed
  with 1 2 show ?case unfolding *(3) by (simp add: step_ok_def emits_def)
qed


section \<open>Properties\<close>

text \<open>
  C1. Replies leave in the order of the requests, each exactly once: after any sequence of
  allocations, fills, accumulating fills and fan-ins, the k-th reply written to the client is
  one that was produced for the k-th request, and as many replies were written as slots left
  the queue.
\<close>

theorem replies_in_order:
  assumes "rqrun ops newQueue = Some (q, outs)"
  shows "respBase q = int (length outs) \<and> (\<forall>k < length outs. supplied (set ops) (int k) (outs ! k))"
proof -
  have "step_ok (set ops) newQueue (q, outs)"
    by (rule rqrun_ok [OF _ _ assms]) (auto simp: slots_inv_def flushed_def newQueue_def)
  then show ?thesis by (simp add: step_ok_def emits_def newQueue_def)
qed

theorem replies_in_order_witness:
  "\<exists>q. rqrun [Alloc, Alloc, Fill 1 ''b'', Accum 0 ''a''] newQueue = Some (q, [''a'', ''b'']) \<and> respBase q = 2"
proof -
  obtain q where q: "rqrun [Alloc, Alloc, Fill 1 ''b'', Accum 0 ''a''] newQueue = Some (q, [''a'', ''b''])"
    by (simp add: newQueue_def allocResponseSlot_def fillResponseSlotInLoop_def accumulateResponseSlot_def
        inQueue_def setReady_def readyHead_def popHead_def accumulateAt_def)
  from replies_in_order [OF q] q show ?thesis by simp
qed

text \<open>
  C30. No reply waits without need: whenever the queue is not empty, its oldest request is still
  unanswered, so that once every request has been answered the queue is empty.
\<close>

theorem replies_flushed:
  assumes "rqrun ops newQueue = Some (q, outs)"
  shows "respQueue q = [] \<or> \<not> rsReady (hd (respQueue q))"
proof -
  have "step_ok (set ops) newQueue (q, outs)"
    by (rule rqrun_ok [OF _ _ assms]) (auto simp: slots_inv_def flushed_def newQueue_def)
  then show ?thesis by (simp add: step_ok_def flushed_def)
qed

theorem replies_flushed_witness:
  "\<exists>q. rqrun [Alloc, Alloc, Fill 1 ''b''] newQueue = Some (q, []) \<and> length (respQueue q) = 2 \<and> \<not> rsReady (hd (respQueue q))"
proof -
  obtain q where q: "rqrun [Alloc, Alloc, Fill 1 ''b''] newQueue = Some (q, [])" "length (respQueue q) = 2"
    by (simp add: newQueue_def allocResponseSlot_def fillResponseSlotInLoop_def
        inQueue_def setReady_def readyHead_def popHead_def)
  from replies_flushed [OF q(1)] q show ?thesis by auto
qed

text \<open>
  The accumulating fill of the backend loop, which copies data only for replies that must
  wait, does the same as the plain fill on every queue the program can reach.
\<close>

theorem accumulate_is_fill:
  assumes "rqrun ops newQueue = Some (q, outs)" "inQueue absIdx q"
    and "rsFanIn (respQueue q ! nat (absIdx - respBase q)) = None"
  shows "accumulateResponseSlot absIdx data q = fillResponseSlotInLoop absIdx data q"
proof -
  have "step_ok (set ops) newQueue (q, outs)"
    by (rule rqrun_ok [OF _ _ assms(1)]) (auto simp: slots_inv_def flushed_def newQueue_def)
  then show ?thesis using assms(2,3) by (intro accumulate_fill) (auto simp: step_ok_def)
qed

theorem accumulate_is_fill_witness:
  "\<exists>q. rqrun [Alloc, Alloc] newQueue = Some (q, []) \<and>
     accumulateResponseSlot 1 ''b'' q = fillResponseSlotInLoop 1 ''b'' q"
proof -
  obtain q where q: "rqrun [Alloc, Alloc] newQueue = Some (q, [])" "inQueue 1 q" "rsFanIn (respQueue q ! nat (1 - respBase q)) = None"
    by (simp add: newQueue_def allocResponseSlot_def inQueue_def)
  from accumulate_is_fill [OF q] q(1) show ?thesis by blast
qed

end
