(* ===== verification/Alist_Extra.thy ===== *)
theory Alist_Extra
  imports Main "HOL-Library.AList" "HOL-Library.Multiset"
begin

text \<open>
  Association lists with distinct keys stand for the Go maps of the event loop. This theory adds
  sums over their values: what an update or a deletion does to the multiset of all the requests
  that are stored in a map of queues.
\<close>

definition keys_ok :: "('k \<times> 'v) list \<Rightarrow> bool" where
  "keys_ok al \<longleftrightarrow> distinct (map fst al)"

definition vsum :: "('v \<Rightarrow> 'm::comm_monoid_add) \<Rightarrow> ('k \<times> 'v) list \<Rightarrow> 'm" where
  "vsum f al = sum_list (map (f \<circ> snd) al)"

lemma vsum_simps [simp]: "vsum f [] = 0" "vsum f (kv # al) = f (snd kv) + vsum f al"
  by (simp_all add: vsum_def)

lemma keys_ok_Nil [simp]: "keys_ok []"
  by (simp add: keys_ok_def)

lemma keys_ok_update [simp]: "keys_ok al \<Longrightarrow> keys_ok (AList.update k v al)"
  by (simp add: keys_ok_def distinct_update)

lemma keys_ok_delete [simp]: "keys_ok al \<Longrightarrow> keys_ok (AList.delete k al)"
  by (simp add: keys_ok_def distinct_delete)

lemma map_of_delete [simp]: "map_of (AList.delete k al) = (map_of al)(k := None)"
  by (rule delete_conv')

lemma vsum_update_Some:
  assumes "keys_ok al" "map_of al k = Some v"
  shows "vsum f (AList.update k v' al) + f v = vsum f al + f v'"
  using assms
proof (induction al)
  case (Cons kv al)
  obtain k0 v0 where kv: "kv = (k0, v0)" by (cases kv)
  show ?case
  proof (cases "k0 = k")
    case True
    then show ?thesis using Cons.prems(2) by (simp add: kv ac_simps)
  next
    case False
    then have "vsum f (AList.update k v' al) + f v = vsum f al + f v'"
      using Cons by (simp add: kv keys_ok_def)
    then show ?thesis using False by (simp add: kv add.assoc)
  qed
qed simp

lemma vsum_update_None:
  "map_of al k = None \<Longrightarrow> vsum f (AList.update k v al) = vsum f al + f v"
  by (induction al) (auto simp: ac_simps split: if_splits)

lemma vsum_delete_Some:
  assumes "keys_ok al" "map_of al k = Some v"
  shows "vsum f (AList.delete k al) + f v = vsum f al"
  using assms
proof (induction al)
  case (Cons kv al)
  obtain k0 v0 where kv: "kv = (k0, v0)" by (cases kv)
  show ?case
  proof (cases "k0 = k")
    case True
    then have "AList.delete k al = al"
      using Cons.prems(1) by (intro delete_id) (auto simp: kv keys_ok_def)
    with True show ?thesis using Cons.prems(2) by (simp add: kv ac_simps)
  next
    case False
    then show ?thesis using Cons by (simp add: kv keys_ok_def add.assoc)
  qed
qed simp

lemma delete_None: "map_of al k = None \<Longrightarrow> AList.delete k al = al"
  by (rule delete_id) (simp add: map_of_eq_None_iff)

text \<open>Applying a function to all the values.\<close>

definition vmap :: "('v \<Rightarrow> 'w) \<Rightarrow> ('k \<times> 'v) list \<Rightarrow> ('k \<times> 'w) list" where
  "vmap g al = map (\<lambda>(k, v). (k, g v)) al"

lemma map_of_vmap [simp]: "map_of (vmap g al) k = map_option g (map_of al k)"
  by (induction al) (auto simp: vmap_def)

lemma keys_ok_vmap [simp]: "keys_ok (vmap g al) = keys_ok al"
  by (simp add: keys_ok_def vmap_def comp_def case_prod_unfold)

lemma vsum_vmap: "vsum f (vmap g al) = vsum (\<lambda>v. f (g v)) al"
  by (induction al) (auto simp: vmap_def)

lemma vsum_cong: "(\<And>v. f v = g v) \<Longrightarrow> vsum f al = vsum g al"
  by (induction al) auto

end
