(* ===== verification/BackendMux.thy ===== *)
theory BackendMux
  imports RespQueue Request Topology Alist_Extra
begin

text \<open>
  The backend multiplexer, \<^verbatim>\<open>src/pkg/engine/backend_mux.go\<close>: one connection per event loop and
  node carries the requests of all the clients of the loop; replies come back in order and are
  matched with the oldest pending request; redirections are followed up to a bound.

  The state of an event loop holds the connections with their pending requests (the part of the
  Go slice behind \<^verbatim>\<open>head\<close>) and write buffers, the requests that wait for a connection to be
  dialled, the reply queues of the clients and the write accumulator. What a handler does to the
  outside is a list of effects in order. Go's maps are association lists; the order in which the
  source ranges over them cannot be observed on any one connection.
\<close>

section \<open>State and effects\<close>

record pendingClientReq =
  pcConn :: nat
  pcSlot :: int
  pcDepth :: int
  pcReq :: "Request option"
  pcSkip :: bool
  pcAsk :: bool
  pcFanIn :: bool
  pcFanInIdx :: nat

record backendMuxConn =
  mcPending :: "pendingClientReq list"
  mcWriteBuf :: bytes

record loopState =
  lsConns :: "(bytes \<times> backendMuxConn) list"
  lsDialing :: "(bytes \<times> pendingClientReq list) list"
  lsClients :: "nat \<Rightarrow> rqueue option"
  lsAccum :: "(nat \<times> bytes list) list"
  lsMuxCount :: "bytes \<Rightarrow> int"

text \<open>
  Writing to a backend and to a client, starting to dial, an asynchronous fill of a reply slot,
  a reply handed to a client's queue, a request for a topology refresh, and closing a connection.
\<close>

datatype effect =
    BackendWrite bytes bytes
  | ClientWrite nat "bytes list"
  | Register bytes
  | AsyncFill nat int bytes
  | Reply nat int bytes
  | Refresh
  | CloseBackend bytes

text \<open>
  The environment: the error of resolving or registering an address, if any, and whether the
  topology has the address as a replica.
\<close>

record menv =
  meDialErr :: "bytes \<Rightarrow> bytes option"
  meTopo :: Topology

definition newBackendMux :: loopState where
  "newBackendMux = \<lparr>lsConns = [], lsDialing = [], lsClients = (\<lambda>_. None), lsAccum = [], lsMuxCount = (\<lambda>_. 0)\<rparr>"


section \<open>Sending\<close>

definition rawBytes :: "Request \<Rightarrow> bytes" where
  "rawBytes req = (if 0 < length (Raw req) then Raw req else EncodeCommandBytes (Args req))"

text \<open>The bytes of a request; the sentinels carry no request of their own to send.\<close>

definition reqBytes :: "pendingClientReq \<Rightarrow> bytes" where
  "reqBytes p = (case pcReq p of None \<Rightarrow> [] | Some r \<Rightarrow> rawBytes r)"

definition dialQueue :: "loopState \<Rightarrow> bytes \<Rightarrow> pendingClientReq list" where
  "dialQueue ls addr = (case map_of (lsDialing ls) addr of None \<Rightarrow> [] | Some q \<Rightarrow> q)"

definition fillErrors :: "loopState \<Rightarrow> bytes \<Rightarrow> pendingClientReq list \<Rightarrow> effect list" where
  "fillErrors ls msg reqs =
     concat (map (\<lambda>r. if pcSkip r then []
                      else (case lsClients ls (pcConn r) of
                              None \<Rightarrow> []
                            | Some _ \<Rightarrow> [AsyncFill (pcConn r) (pcSlot r) (EncodeError msg)])) reqs)"

definition failDialing :: "bytes \<Rightarrow> bytes \<Rightarrow> loopState \<Rightarrow> loopState \<times> effect list" where
  "failDialing addr msg ls =
     (ls\<lparr>lsDialing := AList.delete addr (lsDialing ls)\<rparr>, fillErrors ls msg (dialQueue ls addr))"

definition dialBackend :: "menv \<Rightarrow> bytes \<Rightarrow> loopState \<Rightarrow> loopState \<times> effect list" where
  "dialBackend env addr ls =
     (case meDialErr env addr of
        Some msg \<Rightarrow> failDialing addr msg ls
      | None \<Rightarrow> (ls, [Register addr]))"

definition send :: "menv \<Rightarrow> bytes \<Rightarrow> pendingClientReq \<Rightarrow> loopState \<Rightarrow> loopState \<times> effect list" where
  "send env addr req ls =
     (case map_of (lsConns ls) addr of
        Some bc \<Rightarrow>
          (ls\<lparr>lsConns := AList.update addr
                (bc\<lparr>mcPending := mcPending bc @ [req], mcWriteBuf := mcWriteBuf bc @ reqBytes req\<rparr>)
                (lsConns ls)\<rparr>, [])
      | None \<Rightarrow>
          (let q = dialQueue ls addr @ [req];
               ls' = ls\<lparr>lsDialing := AList.update addr q (lsDialing ls)\<rparr>
           in if length q = 1 then dialBackend env addr ls' else (ls', [])))"

definition flushBackendWrites :: "loopState \<Rightarrow> loopState \<times> effect list" where
  "flushBackendWrites ls =
     (ls\<lparr>lsConns := vmap (\<lambda>bc. bc\<lparr>mcWriteBuf := []\<rparr>) (lsConns ls)\<rparr>,
      concat (map (\<lambda>(addr, bc). if mcWriteBuf bc = [] then [] else [BackendWrite addr (mcWriteBuf bc)]) (lsConns ls)))"

definition askingBytes :: bytes where
  "askingBytes = ''*1'' @ CRLF @ ''$6'' @ CRLF @ ''ASKING'' @ CRLF"

definition readonlyBytes :: bytes where
  "readonlyBytes = ''*1'' @ CRLF @ ''$8'' @ CRLF @ ''READONLY'' @ CRLF"

definition sendAsk :: "menv \<Rightarrow> bytes \<Rightarrow> pendingClientReq \<Rightarrow> loopState \<Rightarrow> loopState \<times> effect list" where
  "sendAsk env addr req ls =
     (let skip = req\<lparr>pcSkip := True, pcAsk := True, pcFanIn := False, pcFanInIdx := 0\<rparr>
      in case map_of (lsConns ls) addr of
           Some bc \<Rightarrow>
             (ls\<lparr>lsConns := AList.update addr (bc\<lparr>mcPending := mcPending bc @ [skip, req]\<rparr>) (lsConns ls)\<rparr>,
              [BackendWrite addr askingBytes, BackendWrite addr (reqBytes req)])
         | None \<Rightarrow>
             (let wasEmpty = (dialQueue ls addr = []);
                  ls' = ls\<lparr>lsDialing := AList.update addr (dialQueue ls addr @ [skip, req]) (lsDialing ls)\<rparr>
              in if wasEmpty then dialBackend env addr ls' else (ls', [])))"


section \<open>Connection events\<close>

definition isReplicaAddr :: "Topology \<Rightarrow> bytes \<Rightarrow> bool" where
  "isReplicaAddr t addr =
     (case GetNodeByAddr t addr of None \<Rightarrow> False | Some n \<Rightarrow> nRole n = RoleReplica)"

definition readonlySentinel :: "pendingClientReq \<Rightarrow> pendingClientReq" where
  "readonlySentinel r =
     \<lparr>pcConn = pcConn r, pcSlot = pcSlot r, pcDepth = 0, pcReq = None, pcSkip = True, pcAsk = False,
      pcFanIn = False, pcFanInIdx = 0\<rparr>"

text \<open>What \<open>onOpen\<close> writes for a queued request.\<close>

definition openWrite :: "bytes \<Rightarrow> pendingClientReq \<Rightarrow> effect" where
  "openWrite addr r = BackendWrite addr (if pcAsk r then askingBytes else reqBytes r)"

definition onOpen :: "menv \<Rightarrow> bytes \<Rightarrow> loopState \<Rightarrow> loopState \<times> effect list" where
  "onOpen env addr ls =
     (let queued = dialQueue ls addr;
          ro = isReplicaAddr (meTopo env) addr \<and> 0 < length queued;
          pending = (if ro then [readonlySentinel (hd queued)] else []) @ queued
      in (ls\<lparr>lsConns := AList.update addr \<lparr>mcPending = pending, mcWriteBuf = []\<rparr> (lsConns ls),
             lsMuxCount := (lsMuxCount ls)(addr := lsMuxCount ls addr + 1),
             lsDialing := AList.delete addr (lsDialing ls)\<rparr>,
          (if ro then [BackendWrite addr readonlyBytes] else []) @ map (openWrite addr) queued))"

definition onClose :: "bytes \<Rightarrow> loopState \<Rightarrow> loopState \<times> effect list" where
  "onClose addr ls =
     (case map_of (lsConns ls) addr of
        None \<Rightarrow> (ls, [])
      | Some bc \<Rightarrow>
         (ls\<lparr>lsConns := AList.delete addr (lsConns ls),
             lsMuxCount := (lsMuxCount ls)(addr := lsMuxCount ls addr - 1)\<rparr>,
          fillErrors ls (''ERR cluster node disconnected: '' @ addr) (mcPending bc)))"


section \<open>Replies\<close>

definition maxMuxRedirects :: int where
  "maxMuxRedirects = 16"

definition addAccum :: "nat \<Rightarrow> bytes list \<Rightarrow> (nat \<times> bytes list) list \<Rightarrow> (nat \<times> bytes list) list" where
  "addAccum c iov acc =
     (if iov = [] then acc
      else AList.update c ((case map_of acc c of None \<Rightarrow> [] | Some old \<Rightarrow> old) @ iov) acc)"

text \<open>Handing a reply to the queue of its client; \<^term>\<open>None\<close> when the merge function panics.\<close>

definition deliver :: "pendingClientReq \<Rightarrow> bytes \<Rightarrow> loopState \<Rightarrow> (loopState \<times> effect list) option" where
  "deliver req raw ls =
     (case lsClients ls (pcConn req) of
        None \<Rightarrow> Some (ls, [])
      | Some q \<Rightarrow>
         (case (if pcFanIn req then accumulateFanInSubResponse (pcSlot req) (pcFanInIdx req) raw q
                else Some (accumulateResponseSlot (pcSlot req) raw q)) of
            None \<Rightarrow> None
          | Some (q', iov) \<Rightarrow>
             Some (ls\<lparr>lsClients := (lsClients ls)(pcConn req \<mapsto> q'),
                       lsAccum := addAccum (pcConn req) iov (lsAccum ls)\<rparr>,
                   [Reply (pcConn req) (pcSlot req) raw])))"

definition redirected :: "pendingClientReq \<Rightarrow> pendingClientReq" where
  "redirected req = req\<lparr>pcDepth := pcDepth req + 1, pcSkip := False, pcAsk := False\<rparr>"

text \<open>One complete reply on the connection to \<open>addr\<close>.\<close>

definition handleReply :: "menv \<Rightarrow> bytes \<Rightarrow> bytes \<Rightarrow> ErrorKind \<Rightarrow> bytes \<Rightarrow> loopState
    \<Rightarrow> (loopState \<times> effect list) option" where
  "handleReply env addr raw kind errMsg ls =
     (case map_of (lsConns ls) addr of
        None \<Rightarrow> Some (ls, [])
      | Some bc \<Rightarrow>
         (case mcPending bc of
            [] \<Rightarrow> Some (ls, [])
          | req # rest \<Rightarrow>
             (let ls' = ls\<lparr>lsConns := AList.update addr (bc\<lparr>mcPending := rest\<rparr>) (lsConns ls)\<rparr>
              in if pcSkip req then Some (ls', [])
                 else (case (if pcDepth req < maxMuxRedirects then parseRedirectionMsg errMsg else None) of
                         Some (_, newAddr) \<Rightarrow>
                           if kind = ErrorKindMoved then
                             (case send env newAddr (redirected req) ls' of (s, es) \<Rightarrow> Some (s, Refresh # es))
                           else if kind = ErrorKindAsk then Some (sendAsk env newAddr (redirected req) ls')
                           else deliver req raw ls'
                       | None \<Rightarrow> deliver req raw ls'))))"

definition flushWriteAccum :: "loopState \<Rightarrow> loopState \<times> effect list" where
  "flushWriteAccum ls =
     (ls\<lparr>lsAccum := []\<rparr>,
      concat (map (\<lambda>(c, iov). if iov = [] then [] else [ClientWrite c iov]) (lsAccum ls)))"

text \<open>
  The loop of \<open>onTraffic\<close>: scan, cut off and handle one reply after the other. The result has the
  bytes consumed. \<^term>\<open>None\<close> is a panic; the fuel, more than the length of the buffer, never
  runs out.
\<close>

fun trafficLoop :: "menv \<Rightarrow> bytes \<Rightarrow> nat \<Rightarrow> bytes \<Rightarrow> nat \<Rightarrow> loopState \<Rightarrow> (loopState \<times> effect list \<times> nat) option" where
  "trafficLoop env addr 0 buf consumed ls = None"
| "trafficLoop env addr (Suc fuel) buf consumed ls =
     (if drop consumed buf = [] then Some (ls, [], consumed)
      else (case ScanValue (drop consumed buf) of
              Inl _ \<Rightarrow> None
            | Inr (n, kind, errMsg) \<Rightarrow>
               if n = 0 then Some (ls, [], consumed)
               else if n < 0 then None
               else (case handleReply env addr (take (nat n) (drop consumed buf)) kind errMsg ls of
                       None \<Rightarrow> None
                     | Some (ls', es) \<Rightarrow>
                        (case trafficLoop env addr fuel buf (consumed + nat n) ls' of
                           None \<Rightarrow> None
                         | Some (ls'', es', tot) \<Rightarrow> Some (ls'', es @ es', tot)))))"

text \<open>\<open>onTraffic\<close> with the bytes buffered on the connection; the number is what it discards.\<close>

definition onTraffic :: "menv \<Rightarrow> bytes \<Rightarrow> bytes \<Rightarrow> loopState \<Rightarrow> (loopState \<times> effect list \<times> nat) option" where
  "onTraffic env addr buf ls =
     (if map_of (lsConns ls) addr = None then Some (ls, [CloseBackend addr], 0)
      else if buf = [] then Some (ls, [], 0)
      else (case trafficLoop env addr (Suc (length buf)) buf 0 ls of
              None \<Rightarrow> None
            | Some (ls1, es1, tot) \<Rightarrow>
               (case flushWriteAccum ls1 of (ls2, es2) \<Rightarrow>
                (case flushBackendWrites ls2 of (ls3, es3) \<Rightarrow> Some (ls3, es1 @ es2 @ es3, tot)))))"

definition connCountByAddr :: "loopState \<Rightarrow> bytes \<Rightarrow> nat" where
  "connCountByAddr ls addr = length (filter (\<lambda>(a, _). a = addr) (lsConns ls))"

end
