(* ===== verification/BackendMux_Correct.thy ===== *)
theory BackendMux_Correct
  imports BackendMux
begin

text \<open>
  Properties of the backend multiplexer: no request of a connected client is lost or answered
  twice, and redirections are bounded.
\<close>

section \<open>Conservation of requests\<close>

text \<open>
  The requests of the clients \<open>D\<close> that wait for a reply, as a multiset of connection and reply
  slot, and the replies given by effects. The sentinels, whose replies are skipped, do not count.
\<close>

definition targets :: "nat set \<Rightarrow> pendingClientReq list \<Rightarrow> (nat \<times> int) multiset" where
  "targets D ps = image_mset (\<lambda>p. (pcConn p, pcSlot p)) (filter_mset (\<lambda>p. \<not> pcSkip p \<and> pcConn p \<in> D) (mset ps))"

definition outstanding :: "nat set \<Rightarrow> loopState \<Rightarrow> (nat \<times> int) multiset" where
  "outstanding D ls = vsum (\<lambda>bc. targets D (mcPending bc)) (lsConns ls) + vsum (targets D) (lsDialing ls)"

fun answer :: "nat set \<Rightarrow> effect \<Rightarrow> (nat \<times> int) multiset" where
  "answer D (AsyncFill c s d) = (if c \<in> D then {#(c, s)#} else {#})"
| "answer D (Reply c s d) = (if c \<in> D then {#(c, s)#} else {#})"
| "answer D e = {#}"

definition answered :: "nat set \<Rightarrow> effect list \<Rightarrow> (nat \<times> int) multiset" where
  "answered D es = sum_list (map (answer D) es)"

lemma targets_simps [simp]:
  "targets D [] = {#}" "targets D (ps @ qs) = targets D ps + targets D qs"
  "targets D (p # ps) = (if \<not> pcSkip p \<and> pcConn p \<in> D then {#(pcConn p, pcSlot p)#} else {#}) + targets D ps"
  by (simp_all add: targets_def)

lemma answered_simps [simp]:
  "answered D [] = {#}" "answered D (es @ fs) = answered D es + answered D fs"
  "answered D (e # es) = answer D e + answered D es"
  by (simp_all add: answered_def)

text \<open>
  The invariant of the maps: a waiting queue is never empty, and an address is not dialled while
  it has a connection; the clients of \<open>D\<close> are connected.
\<close>

definition mux_ok :: "nat set \<Rightarrow> loopState \<Rightarrow> bool" where
  "mux_ok D ls \<longleftrightarrow> keys_ok (lsConns ls) \<and> keys_ok (lsDialing ls) \<and>
     (\<forall>a q. map_of (lsDialing ls) a = Some q \<longrightarrow> q \<noteq> [] \<and> map_of (lsConns ls) a = None) \<and>
     D \<subseteq> dom (lsClients ls)"

definition conserves :: "nat set \<Rightarrow> loopState \<Rightarrow> (nat \<times> int) multiset \<Rightarrow> loopState \<times> effect list \<Rightarrow> bool" where
  "conserves D ls new r \<longleftrightarrow>
     mux_ok D (fst r) \<and> outstanding D ls + new = outstanding D (fst r) + answered D (snd r)"

lemma conserves_trans:
  assumes "conserves D ls m (ls1, es1)" "conserves D ls1 n (ls2, es2)"
  shows "conserves D ls (m + n) (ls2, es1 @ es2)"
proof -
  have "outstanding D ls + (m + n) = (outstanding D ls + m) + n" by (simp add: ac_simps)
  also have "\<dots> = (outstanding D ls1 + n) + answered D es1"
    using assms(1) by (simp add: conserves_def ac_simps)
  also have "\<dots> = outstanding D ls2 + (answered D es1 + answered D es2)"
    using assms(2) by (simp add: conserves_def ac_simps)
  finally show ?thesis using assms(2) by (simp add: conserves_def)
qed

lemma answered_fillErrors:
  "D \<subseteq> dom (lsClients ls) \<Longrightarrow> answered D (fillErrors ls msg ps) = targets D ps"
  by (induction ps) (auto simp: fillErrors_def split: option.splits)

lemma outstanding_conns:
  assumes "keys_ok (lsConns ls)" "map_of (lsConns ls) a = Some bc"
  shows "outstanding D (ls\<lparr>lsConns := AList.update a bc' (lsConns ls)\<rparr>) + targets D (mcPending bc) =
    outstanding D ls + targets D (mcPending bc')"
proof -
  have "vsum (\<lambda>bc. targets D (mcPending bc)) (AList.update a bc' (lsConns ls)) + targets D (mcPending bc) =
      vsum (\<lambda>bc. targets D (mcPending bc)) (lsConns ls) + targets D (mcPending bc')"
    using vsum_update_Some [OF assms, of "\<lambda>bc. targets D (mcPending bc)" bc'] by simp
  then show ?thesis by (simp add: outstanding_def ac_simps)
qed

lemma mux_ok_conns:
  "mux_ok D ls \<Longrightarrow> map_of (lsConns ls) a \<noteq> None \<Longrightarrow> mux_ok D (ls\<lparr>lsConns := AList.update a bc (lsConns ls)\<rparr>)"
  by (cases "map_of (lsDialing ls) a") (auto simp: mux_ok_def update_conv')

text \<open>Adding requests to a waiting queue.\<close>

lemma outstanding_dial:
  assumes "mux_ok D ls"
  shows "outstanding D (ls\<lparr>lsDialing := AList.update a (dialQueue ls a @ ps) (lsDialing ls)\<rparr>) =
    outstanding D ls + targets D ps"
proof (cases "map_of (lsDialing ls) a")
  case None
  then show ?thesis
    by (simp add: outstanding_def dialQueue_def vsum_update_None ac_simps)
next
  case (Some q)
  have "vsum (targets D) (AList.update a (q @ ps) (lsDialing ls)) + targets D q =
      (vsum (targets D) (lsDialing ls) + targets D ps) + targets D q"
    using vsum_update_Some [OF _ Some, of "targets D" "q @ ps"] assms by (simp add: mux_ok_def ac_simps)
  then show ?thesis using Some by (simp add: outstanding_def dialQueue_def ac_simps)
qed

lemma mux_ok_dial:
  assumes "mux_ok D ls" "map_of (lsConns ls) a = None" "ps \<noteq> []"
  shows "mux_ok D (ls\<lparr>lsDialing := AList.update a (dialQueue ls a @ ps) (lsDialing ls)\<rparr>)"
  using assms by (auto simp: mux_ok_def update_conv' split: if_splits)

lemma failDialing_conserves:
  assumes "mux_ok D ls" shows "conserves D ls {#} (failDialing a msg ls)"
proof (cases "map_of (lsDialing ls) a")
  case None
  with assms show ?thesis
    by (simp add: conserves_def failDialing_def dialQueue_def delete_None fillErrors_def)
next
  case (Some q)
  have "vsum (targets D) (AList.delete a (lsDialing ls)) + targets D q = vsum (targets D) (lsDialing ls)"
    using vsum_delete_Some [OF _ Some, of "targets D"] assms by (simp add: mux_ok_def)
  then have "outstanding D ls = outstanding D (ls\<lparr>lsDialing := AList.delete a (lsDialing ls)\<rparr>) + targets D q"
    by (simp add: outstanding_def ac_simps)
  moreover have "mux_ok D (ls\<lparr>lsDialing := AList.delete a (lsDialing ls)\<rparr>)"
    using assms by (auto simp: mux_ok_def delete_conv')
  moreover have "answered D (fillErrors ls msg q) = targets D q"
    using assms by (simp add: answered_fillErrors mux_ok_def)
  ultimately show ?thesis using Some by (simp add: conserves_def failDialing_def dialQueue_def)
qed

lemma dialBackend_conserves: "mux_ok D ls \<Longrightarrow> conserves D ls {#} (dialBackend env a ls)"
  by (auto simp: dialBackend_def failDialing_conserves split: option.splits) (simp add: conserves_def)

text \<open>Queueing for a dial, which both ways of sending share.\<close>

lemma queue_conserves:
  assumes "mux_ok D ls" "map_of (lsConns ls) a = None" "ps \<noteq> []"
  shows "conserves D ls (targets D ps)
    (let ls' = ls\<lparr>lsDialing := AList.update a (dialQueue ls a @ ps) (lsDialing ls)\<rparr>
     in if b then dialBackend env a ls' else (ls', []))"
proof -
  let ?ls = "ls\<lparr>lsDialing := AList.update a (dialQueue ls a @ ps) (lsDialing ls)\<rparr>"
  have 1: "conserves D ls (targets D ps) (?ls, [])"
    using outstanding_dial [OF assms(1), of a ps] mux_ok_dial [OF assms] by (simp add: conserves_def)
  moreover have "conserves D ls (targets D ps) (dialBackend env a ?ls)"
    using conserves_trans [OF 1, of "{#}" "fst (dialBackend env a ?ls)" "snd (dialBackend env a ?ls)"]
      dialBackend_conserves [OF mux_ok_dial [OF assms]] by simp
  ultimately show ?thesis by (simp add: Let_def)
qed

lemma send_conserves:
  assumes "mux_ok D ls" shows "conserves D ls (targets D [p]) (send env a p ls)"
proof (cases "map_of (lsConns ls) a")
  case None
  have "length (dialQueue ls a @ [p]) = 1 \<longleftrightarrow> dialQueue ls a = []" by simp
  with queue_conserves [OF assms None, of "[p]" "dialQueue ls a = []" env] None show ?thesis
    by (simp add: send_def Let_def)
next
  case (Some bc)
  let ?bc = "bc\<lparr>mcPending := mcPending bc @ [p], mcWriteBuf := mcWriteBuf bc @ reqBytes p\<rparr>"
  have "outstanding D (ls\<lparr>lsConns := AList.update a ?bc (lsConns ls)\<rparr>) + targets D (mcPending bc) =
      (outstanding D ls + targets D [p]) + targets D (mcPending bc)"
    using outstanding_conns [OF _ Some, of D ?bc] assms by (simp add: mux_ok_def ac_simps)
  then have "outstanding D (ls\<lparr>lsConns := AList.update a ?bc (lsConns ls)\<rparr>) = outstanding D ls + targets D [p]"
    by (simp only: add_right_cancel)
  moreover have "mux_ok D (ls\<lparr>lsConns := AList.update a ?bc (lsConns ls)\<rparr>)"
    using assms Some by (intro mux_ok_conns) auto
  ultimately show ?thesis using Some by (simp add: conserves_def send_def del: targets_simps(3))
qed

lemma sendAsk_conserves:
  assumes "mux_ok D ls" shows "conserves D ls (targets D [p]) (sendAsk env a p ls)"
proof -
  let ?skip = "p\<lparr>pcSkip := True, pcAsk := True, pcFanIn := False, pcFanInIdx := 0\<rparr>"
  have t: "targets D [?skip, p] = targets D [p]" by simp
  show ?thesis
  proof (cases "map_of (lsConns ls) a")
    case None
    with queue_conserves [OF assms None, of "[?skip, p]" "dialQueue ls a = []" env, unfolded t] show ?thesis
      by (simp add: sendAsk_def Let_def)
  next
    case (Some bc)
    let ?bc = "bc\<lparr>mcPending := mcPending bc @ [?skip, p]\<rparr>"
    have "outstanding D (ls\<lparr>lsConns := AList.update a ?bc (lsConns ls)\<rparr>) + targets D (mcPending bc) =
        (outstanding D ls + targets D [p]) + targets D (mcPending bc)"
      using outstanding_conns [OF _ Some, of D ?bc] assms by (simp add: mux_ok_def ac_simps)
    then have "outstanding D (ls\<lparr>lsConns := AList.update a ?bc (lsConns ls)\<rparr>) = outstanding D ls + targets D [p]"
      by (simp only: add_right_cancel)
    moreover have "mux_ok D (ls\<lparr>lsConns := AList.update a ?bc (lsConns ls)\<rparr>)"
      using assms Some by (intro mux_ok_conns) auto
    ultimately show ?thesis using Some by (simp add: conserves_def sendAsk_def Let_def del: targets_simps(3))
  qed
qed

lemma deliver_conserves:
  assumes "mux_ok D ls" "deliver p raw ls = Some r" "\<not> pcSkip p"
  shows "mux_ok D (fst r) \<and> outstanding D (fst r) = outstanding D ls \<and> answered D (snd r) = targets D [p]"
proof (cases "lsClients ls (pcConn p)")
  case None
  with assms have "r = (ls, [])" "pcConn p \<notin> D" by (auto simp: deliver_def mux_ok_def)
  with assms show ?thesis by simp
next
  case (Some q)
  with assms(2) obtain q' iov where r: "r = (ls\<lparr>lsClients := (lsClients ls)(pcConn p \<mapsto> q'),
      lsAccum := addAccum (pcConn p) iov (lsAccum ls)\<rparr>, [Reply (pcConn p) (pcSlot p) raw])"
    by (auto simp: deliver_def split: option.splits prod.splits)
  with assms(1,3) show ?thesis by (auto simp: mux_ok_def outstanding_def)
qed

text \<open>
  The cases of a reply: nothing pending, a sentinel's reply, a redirection of either kind, and
  a reply for the client.
\<close>

abbreviation popped :: "bytes \<Rightarrow> backendMuxConn \<Rightarrow> pendingClientReq list \<Rightarrow> loopState \<Rightarrow> loopState" where
  "popped a bc rest ls \<equiv> ls\<lparr>lsConns := AList.update a (bc\<lparr>mcPending := rest\<rparr>) (lsConns ls)\<rparr>"

abbreviation askSentinel :: "pendingClientReq \<Rightarrow> pendingClientReq" where
  "askSentinel p \<equiv> p\<lparr>pcSkip := True, pcAsk := True, pcFanIn := False, pcFanInIdx := 0\<rparr>"

lemma handleReplyE:
  assumes "handleReply env a raw kind msg ls = Some r"
  obtains (idle) "r = (ls, [])"
  | (sentinel) bc req rest where "map_of (lsConns ls) a = Some bc" "mcPending bc = req # rest"
      "pcSkip req" "r = (popped a bc rest ls, [])"
  | (moved) bc req rest newAddr s es where "map_of (lsConns ls) a = Some bc" "mcPending bc = req # rest"
      "\<not> pcSkip req" "pcDepth req < maxMuxRedirects"
      "send env newAddr (redirected req) (popped a bc rest ls) = (s, es)" "r = (s, Refresh # es)"
  | (ask) bc req rest newAddr where "map_of (lsConns ls) a = Some bc" "mcPending bc = req # rest"
      "\<not> pcSkip req" "pcDepth req < maxMuxRedirects" "kind = ErrorKindAsk"
      "r = sendAsk env newAddr (redirected req) (popped a bc rest ls)"
  | (deliver) bc req rest where "map_of (lsConns ls) a = Some bc" "mcPending bc = req # rest"
      "\<not> pcSkip req" "deliver req raw (popped a bc rest ls) = Some r"
proof (cases "\<exists>bc req rest. map_of (lsConns ls) a = Some bc \<and> mcPending bc = req # rest")
  case False
  with assms have "r = (ls, [])" by (auto simp: handleReply_def split: option.splits list.splits)
  then show ?thesis by (rule idle)
next
  case True
  then obtain bc req rest where bc: "map_of (lsConns ls) a = Some bc" "mcPending bc = req # rest" by blast
  show ?thesis
  proof (cases "pcSkip req")
    case True
    with assms bc show ?thesis by (intro sentinel [OF bc]) (simp_all add: handleReply_def)
  next
    case False
    let ?red = "if pcDepth req < maxMuxRedirects then parseRedirectionMsg msg else None"
    show ?thesis
    proof (cases ?red)
      case None
      with False assms bc show ?thesis by (intro deliver [OF bc]) (simp_all add: handleReply_def Let_def)
    next
      case (Some x)
      then have d: "pcDepth req < maxMuxRedirects" by (auto split: if_splits)
      obtain sl newAddr where x: "x = (sl, newAddr)" by (cases x)
      consider "kind = ErrorKindMoved" | "kind = ErrorKindAsk" | "kind \<noteq> ErrorKindMoved" "kind \<noteq> ErrorKindAsk" by blast
      then show ?thesis
      proof cases
        case 1
        obtain t es where "send env newAddr (redirected req) (popped a bc rest ls) = (t, es)" by force
        with 1 False Some x d assms bc show ?thesis
          by (intro moved [OF bc]) (auto simp: handleReply_def Let_def)
      next
        case 2
        with False Some x d assms bc show ?thesis
          by (intro ask [OF bc]) (auto simp: handleReply_def Let_def)
      next
        case 3
        with False Some x d assms bc show ?thesis
          by (intro deliver [OF bc]) (simp_all add: handleReply_def Let_def)
      qed
    qed
  qed
qed

lemma trafficLoop_SucE:
  assumes "trafficLoop env a (Suc f) buf k ls = Some (ls', es, n)"
  obtains (stop) "ls' = ls" "es = []" "n = k"
  | (reply) kind msg m ls1 es1 es2 where "drop k buf \<noteq> []" "ScanValue (drop k buf) = Inr (m, kind, msg)" "0 < m"
      "handleReply env a (take (nat m) (drop k buf)) kind msg ls = Some (ls1, es1)"
      "trafficLoop env a f buf (k + nat m) ls1 = Some (ls', es2, n)" "es = es1 @ es2"
proof (cases "drop k buf = []")
  case True
  with assms stop show ?thesis by simp
next
  case False
  with assms obtain m kind msg where sc: "ScanValue (drop k buf) = Inr (m, kind, msg)" "0 \<le> m"
    by (simp split: sum.splits prod.splits if_splits)
  show ?thesis
  proof (cases "m = 0")
    case True
    with assms False sc stop show ?thesis by simp
  next
    case nz: False
    with sc have m: "0 < m" by simp
    with assms False sc nz obtain ls1 es1 es2 where
      "handleReply env a (take (nat m) (drop k buf)) kind msg ls = Some (ls1, es1)"
      "trafficLoop env a f buf (k + nat m) ls1 = Some (ls', es2, n)" "es = es1 @ es2"
      by (simp split: option.splits prod.splits)
    with reply [OF False sc(1) m] show ?thesis by blast
  qed
qed

lemma pop_conserves:
  assumes "mux_ok D ls" "map_of (lsConns ls) a = Some bc" "mcPending bc = req # rest"
  shows "mux_ok D (popped a bc rest ls)" "outstanding D ls = outstanding D (popped a bc rest ls) + targets D [req]"
proof -
  show "mux_ok D (popped a bc rest ls)" using assms by (intro mux_ok_conns) auto
  have "outstanding D (popped a bc rest ls) + (targets D [req] + targets D rest) = outstanding D ls + targets D rest"
    using outstanding_conns [OF _ assms(2), of D "bc\<lparr>mcPending := rest\<rparr>"] assms(1,3) by (simp add: mux_ok_def)
  then show "outstanding D ls = outstanding D (popped a bc rest ls) + targets D [req]"
    by (simp add: add.assoc [symmetric])
qed

lemma targets_redirected: "\<not> pcSkip p \<Longrightarrow> targets D [redirected p] = targets D [p]"
  by (simp add: redirected_def)

lemma handleReply_conserves:
  assumes "mux_ok D ls" "handleReply env a raw kind msg ls = Some r"
  shows "conserves D ls {#} r"
  using assms(2)
proof (cases rule: handleReplyE)
  case idle
  with assms(1) show ?thesis by (simp add: conserves_def)
next
  case (sentinel bc req rest)
  with pop_conserves [OF assms(1) sentinel(1,2)] show ?thesis by (simp add: conserves_def)
next
  case (moved bc req rest newAddr s es)
  note pop = pop_conserves [OF assms(1) moved(1,2)]
  from send_conserves [OF pop(1), of "redirected req" env newAddr] moved(3,5,6) pop(2) show ?thesis
    by (simp add: conserves_def targets_redirected del: targets_simps(3))
next
  case (ask bc req rest newAddr)
  note pop = pop_conserves [OF assms(1) ask(1,2)]
  from sendAsk_conserves [OF pop(1), of "redirected req" env newAddr] ask(3,6) pop(2) show ?thesis
    by (simp add: conserves_def targets_redirected del: targets_simps(3))
next
  case (deliver bc req rest)
  note pop = pop_conserves [OF assms(1) deliver(1,2)]
  from deliver_conserves [OF pop(1) deliver(4,3)] pop(2) show ?thesis
    by (simp add: conserves_def del: targets_simps(3))
qed

lemma trafficLoop_conserves:
  assumes "mux_ok D ls" "trafficLoop env a f buf k ls = Some (ls', es, n)"
  shows "conserves D ls {#} (ls', es)"
  using assms
proof (induction f arbitrary: k ls es)
  case 0
  then show ?case by simp
next
  case (Suc f)
  from Suc.prems(2) show ?case
  proof (cases rule: trafficLoop_SucE)
    case stop
    with Suc.prems(1) show ?thesis by (simp add: conserves_def)
  next
    case (reply kind msg m ls1 es1 es2)
    from handleReply_conserves [OF Suc.prems(1) reply(4)] have 1: "conserves D ls {#} (ls1, es1)" .
    then have "mux_ok D ls1" by (simp add: conserves_def)
    from conserves_trans [OF 1 Suc.IH [OF this reply(5)]] reply(6) show ?thesis by simp
  qed
qed

lemma flush_conserves:
  assumes "mux_ok D ls"
  shows "conserves D ls {#} (flushBackendWrites ls)" "conserves D ls {#} (flushWriteAccum ls)"
proof -
  have "answered D (concat (map (\<lambda>(a, bc). if mcWriteBuf bc = [] then [] else [BackendWrite a (mcWriteBuf bc)]) xs)) = {#}"
    for xs :: "(bytes \<times> backendMuxConn) list" by (induction xs) auto
  moreover have "answered D (concat (map (\<lambda>(c, iov). if iov = [] then [] else [ClientWrite c iov]) xs)) = {#}"
    for xs by (induction xs) auto
  moreover have "mux_ok D (ls\<lparr>lsConns := vmap (\<lambda>bc. bc\<lparr>mcWriteBuf := []\<rparr>) (lsConns ls)\<rparr>)"
    using assms by (auto simp: mux_ok_def)
  moreover have "mux_ok D (ls\<lparr>lsAccum := []\<rparr>)" using assms by (simp add: mux_ok_def)
  ultimately show "conserves D ls {#} (flushBackendWrites ls)" "conserves D ls {#} (flushWriteAccum ls)"
    by (simp_all add: conserves_def flushBackendWrites_def flushWriteAccum_def outstanding_def vsum_vmap)
qed

lemma onTrafficE:
  assumes "onTraffic env a buf ls = Some (ls', es, n)"
  obtains (idle) "ls' = ls" "es = [] \<or> es = [CloseBackend a]"
  | (replies) ls1 es1 ls2 es2 es3 where "trafficLoop env a (Suc (length buf)) buf 0 ls = Some (ls1, es1, n)"
      "flushWriteAccum ls1 = (ls2, es2)" "flushBackendWrites ls2 = (ls', es3)" "es = es1 @ es2 @ es3"
proof (cases "map_of (lsConns ls) a = None \<or> buf = []")
  case True
  with assms have "ls' = ls \<and> (es = [] \<or> es = [CloseBackend a])"
    unfolding onTraffic_def by (auto simp del: trafficLoop.simps split: if_splits)
  with idle show ?thesis by blast
next
  case False
  with assms show ?thesis
    unfolding onTraffic_def by (auto simp del: trafficLoop.simps intro: replies split: option.splits prod.splits)
qed

lemma onTraffic_conserves:
  assumes "mux_ok D ls" "onTraffic env a buf ls = Some (ls', es, n)"
  shows "conserves D ls {#} (ls', es)"
  using assms(2)
proof (cases rule: onTrafficE)
  case idle
  with assms show ?thesis by (auto simp: conserves_def)
next
  case *: (replies ls1 es1 ls2 es2 es3)
  have 1: "conserves D ls {#} (ls1, es1)" by (rule trafficLoop_conserves [OF assms(1) *(1)])
  then have 2: "conserves D ls1 {#} (ls2, es2)"
    using flush_conserves(2) [of D ls1] *(2) by (simp add: conserves_def)
  then have 3: "conserves D ls2 {#} (ls', es3)"
    using flush_conserves(1) [of D ls2] *(3) by (simp add: conserves_def)
  from conserves_trans [OF 1 conserves_trans [OF 2 3]] *(4) show ?thesis by simp
qed

lemma answered_openWrite: "answered D (map (openWrite a) ps) = {#}"
  by (induction ps) (auto simp: openWrite_def)

lemma onOpen_conserves:
  assumes "mux_ok D ls" "map_of (lsDialing ls) a = Some q"
  shows "conserves D ls {#} (onOpen env a ls)"
proof -
  have conn: "map_of (lsConns ls) a = None" using assms by (simp add: mux_ok_def)
  let ?ro = "isReplicaAddr (meTopo env) a \<and> 0 < length q"
  let ?p = "(if ?ro then [readonlySentinel (hd q)] else []) @ q"
  have p: "targets D ?p = targets D q" by (simp add: readonlySentinel_def)
  have "vsum (targets D) (AList.delete a (lsDialing ls)) + targets D q = vsum (targets D) (lsDialing ls)"
    using vsum_delete_Some [OF _ assms(2), of "targets D"] assms(1) by (simp add: mux_ok_def)
  moreover have "vsum (\<lambda>bc. targets D (mcPending bc)) (AList.update a \<lparr>mcPending = ?p, mcWriteBuf = []\<rparr> (lsConns ls)) =
      vsum (\<lambda>bc. targets D (mcPending bc)) (lsConns ls) + targets D q"
    using vsum_update_None [OF conn, of "\<lambda>bc. targets D (mcPending bc)" "\<lparr>mcPending = ?p, mcWriteBuf = []\<rparr>"] p
    by (simp del: targets_simps)
  ultimately have "outstanding D (fst (onOpen env a ls)) = outstanding D ls"
    using assms(2) by (simp add: onOpen_def Let_def outstanding_def dialQueue_def ac_simps del: targets_simps)
  moreover have "mux_ok D (fst (onOpen env a ls))"
    using assms(1) by (auto simp: onOpen_def Let_def mux_ok_def update_conv' delete_conv')
  moreover have "answered D (snd (onOpen env a ls)) = {#}"
    by (simp add: onOpen_def Let_def answered_openWrite)
  ultimately show ?thesis by (simp add: conserves_def)
qed

lemma onClose_conserves:
  assumes "mux_ok D ls" shows "conserves D ls {#} (onClose a ls)"
proof (cases "map_of (lsConns ls) a")
  case None
  with assms show ?thesis by (simp add: onClose_def conserves_def)
next
  case (Some bc)
  have "vsum (\<lambda>bc. targets D (mcPending bc)) (AList.delete a (lsConns ls)) + targets D (mcPending bc) =
      vsum (\<lambda>bc. targets D (mcPending bc)) (lsConns ls)"
    using vsum_delete_Some [OF _ Some, of "\<lambda>bc. targets D (mcPending bc)"] assms by (simp add: mux_ok_def)
  then have "outstanding D ls = outstanding D (fst (onClose a ls)) + targets D (mcPending bc)"
    using Some by (simp add: onClose_def outstanding_def ac_simps)
  moreover have "mux_ok D (fst (onClose a ls))"
    using assms Some by (auto simp: onClose_def mux_ok_def delete_conv')
  ultimately show ?thesis
    using Some assms by (simp add: conserves_def onClose_def answered_fillErrors mux_ok_def)
qed


section \<open>Runs of the event loop\<close>

text \<open>
  The events of an event loop. A connection opens, or fails to open, only for an address that
  requests wait for: \<open>send\<close> and \<open>sendAsk\<close> register exactly then. Clients outside \<open>D\<close> may come and
  go.
\<close>

datatype mevent =
    MSend bytes pendingClientReq | MFlush | MOpen bytes | MDialFail bytes bytes | MClose bytes
  | MTraffic bytes bytes | MConnect nat | MDisconnect nat

inductive mstep :: "menv \<Rightarrow> nat set \<Rightarrow> loopState \<Rightarrow> mevent \<Rightarrow> effect list \<Rightarrow> loopState \<Rightarrow> bool"
  for env D where
  "send env a p ls = (ls', es) \<Longrightarrow> mstep env D ls (MSend a p) es ls'"
| "flushBackendWrites ls = (ls', es) \<Longrightarrow> mstep env D ls MFlush es ls'"
| "map_of (lsDialing ls) a = Some q \<Longrightarrow> onOpen env a ls = (ls', es) \<Longrightarrow> mstep env D ls (MOpen a) es ls'"
| "failDialing a msg ls = (ls', es) \<Longrightarrow> mstep env D ls (MDialFail a msg) es ls'"
| "onClose a ls = (ls', es) \<Longrightarrow> mstep env D ls (MClose a) es ls'"
| "onTraffic env a buf ls = Some (ls', es, n) \<Longrightarrow> mstep env D ls (MTraffic a buf) es ls'"
| "mstep env D ls (MConnect c) [] (ls\<lparr>lsClients := (lsClients ls)(c \<mapsto> newQueue)\<rparr>)"
| "c \<notin> D \<Longrightarrow> mstep env D ls (MDisconnect c) [] (ls\<lparr>lsClients := (lsClients ls)(c := None)\<rparr>)"

inductive mrun :: "menv \<Rightarrow> nat set \<Rightarrow> loopState \<Rightarrow> mevent list \<Rightarrow> effect list \<Rightarrow> loopState \<Rightarrow> bool"
  for env D where
  "mrun env D ls [] [] ls"
| "mstep env D ls e es ls1 \<Longrightarrow> mrun env D ls1 evs fs ls2 \<Longrightarrow> mrun env D ls (e # evs) (es @ fs) ls2"

inductive_cases mrun_ConsE: "mrun env D ls (e # evs) es ls'"
inductive_cases mrun_NilE: "mrun env D ls [] es ls'"

fun submitted :: "nat set \<Rightarrow> mevent \<Rightarrow> (nat \<times> int) multiset" where
  "submitted D (MSend a p) = targets D [p]"
| "submitted D e = {#}"

lemma mstep_conserves:
  "mstep env D ls e es ls' \<Longrightarrow> mux_ok D ls \<Longrightarrow> conserves D ls (submitted D e) (ls', es)"
proof (induction rule: mstep.induct)
  case (1 a p ls ls' es)
  then show ?case using send_conserves [of D ls p env a] by (simp del: targets_simps)
next
  case (2 ls ls' es)
  then show ?case using flush_conserves(1) [of D ls] by simp
next
  case (3 ls a q ls' es)
  then show ?case using onOpen_conserves [of D ls a q env] by simp
next
  case (4 a msg ls ls' es)
  then show ?case using failDialing_conserves [of D ls a msg] by simp
next
  case (5 a ls ls' es)
  then show ?case using onClose_conserves [of D ls a] by simp
next
  case (6 a buf ls ls' es n)
  then show ?case using onTraffic_conserves by simp
next
  case (7 ls c)
  then show ?case by (auto simp: conserves_def mux_ok_def outstanding_def)
next
  case (8 c ls)
  then show ?case by (auto simp: conserves_def mux_ok_def outstanding_def)
qed

lemma mrun_conserves:
  "mrun env D ls evs es ls' \<Longrightarrow> mux_ok D ls \<Longrightarrow>
   conserves D ls (sum_list (map (submitted D) evs)) (ls', es)"
proof (induction rule: mrun.induct)
  case (1 ls)
  then show ?case by (simp add: conserves_def)
next
  case (2 ls e es ls1 evs fs ls2)
  have 1: "conserves D ls (submitted D e) (ls1, es)" by (rule mstep_conserves) fact+
  then have "mux_ok D ls1" by (simp add: conserves_def)
  from conserves_trans [OF 1 "2.IH" [OF this]] show ?case by simp
qed


section \<open>Redirections\<close>

text \<open>Every stored request satisfies a predicate.\<close>

definition all_pending :: "(pendingClientReq \<Rightarrow> bool) \<Rightarrow> loopState \<Rightarrow> bool" where
  "all_pending P ls \<longleftrightarrow>
     (\<forall>a bc. map_of (lsConns ls) a = Some bc \<longrightarrow> (\<forall>p \<in> set (mcPending bc). P p)) \<and>
     (\<forall>a q. map_of (lsDialing ls) a = Some q \<longrightarrow> (\<forall>p \<in> set q. P p))"

lemma all_pending_dialQueue: "all_pending P ls \<Longrightarrow> p \<in> set (dialQueue ls a) \<Longrightarrow> P p"
  by (cases "map_of (lsDialing ls) a") (auto simp: all_pending_def dialQueue_def)

lemma all_pending_conns:
  "all_pending P ls \<Longrightarrow> \<forall>p \<in> set (mcPending bc). P p \<Longrightarrow>
   all_pending P (ls\<lparr>lsConns := AList.update a bc (lsConns ls)\<rparr>)"
  by (auto simp: all_pending_def update_conv')

lemma all_pending_dial:
  "all_pending P ls \<Longrightarrow> \<forall>p \<in> set q. P p \<Longrightarrow> all_pending P (ls\<lparr>lsDialing := AList.update a q (lsDialing ls)\<rparr>)"
  by (auto simp: all_pending_def update_conv')

lemma all_pending_undial: "all_pending P ls \<Longrightarrow> all_pending P (ls\<lparr>lsDialing := AList.delete a (lsDialing ls)\<rparr>)"
  by (auto simp: all_pending_def delete_conv')

lemma dialBackend_pending: "all_pending P ls \<Longrightarrow> all_pending P (fst (dialBackend env a ls))"
  by (auto simp: dialBackend_def failDialing_def all_pending_undial split: option.splits)

lemma send_pending:
  assumes "all_pending P ls" "P p" shows "all_pending P (fst (send env a p ls))"
proof (cases "map_of (lsConns ls) a")
  case None
  have "all_pending P (ls\<lparr>lsDialing := AList.update a (dialQueue ls a @ [p]) (lsDialing ls)\<rparr>)"
    using assms by (intro all_pending_dial) (auto dest: all_pending_dialQueue)
  with None show ?thesis by (auto simp: send_def Let_def dialBackend_pending)
next
  case (Some bc)
  with assms show ?thesis
    by (auto simp: send_def all_pending_def update_conv')
qed

lemma sendAsk_pending:
  assumes "all_pending P ls" "P p" "P (p\<lparr>pcSkip := True, pcAsk := True, pcFanIn := False, pcFanInIdx := 0\<rparr>)"
  shows "all_pending P (fst (sendAsk env a p ls))"
proof (cases "map_of (lsConns ls) a")
  case None
  have "all_pending P (ls\<lparr>lsDialing := AList.update a
      (dialQueue ls a @ [p\<lparr>pcSkip := True, pcAsk := True, pcFanIn := False, pcFanInIdx := 0\<rparr>, p]) (lsDialing ls)\<rparr>)"
    using assms by (intro all_pending_dial) (auto dest: all_pending_dialQueue)
  with None show ?thesis by (auto simp: sendAsk_def Let_def dialBackend_pending)
next
  case (Some bc)
  with assms show ?thesis
    by (auto simp: sendAsk_def all_pending_def update_conv' Let_def)
qed

lemma deliver_pending: "deliver p raw ls = Some r \<Longrightarrow> all_pending P ls \<Longrightarrow> all_pending P (fst r)"
  by (auto simp: deliver_def all_pending_def split: option.splits prod.splits)

lemma all_pending_pop:
  assumes "all_pending P ls" "map_of (lsConns ls) a = Some bc" "mcPending bc = req # rest"
  shows "all_pending P (popped a bc rest ls)" "P req"
proof -
  have *: "\<forall>p \<in> set (mcPending bc). P p" using assms(1,2) by (simp add: all_pending_def)
  then show "all_pending P (popped a bc rest ls)"
    using assms(3) by (intro all_pending_conns [OF assms(1)]) simp
  show "P req" using * assms(3) by simp
qed

text \<open>A predicate that a redirection keeps is kept by the replies.\<close>

lemma handleReply_pending:
  assumes "handleReply env a raw kind msg ls = Some r" "all_pending P ls"
    and red: "\<And>p. P p \<Longrightarrow> \<not> pcSkip p \<Longrightarrow> pcDepth p < maxMuxRedirects \<Longrightarrow>
      P (redirected p) \<and> P (askSentinel (redirected p))"
  shows "all_pending P (fst r)"
proof -
  note pop = all_pending_pop [OF assms(2)]
  from assms(1) show ?thesis
  proof (cases rule: handleReplyE)
    case idle
    with assms(2) show ?thesis by simp
  next
    case (sentinel bc req rest)
    with pop(1) show ?thesis by simp
  next
    case (moved bc req rest newAddr s es)
    from send_pending [OF pop(1) [OF moved(1,2)], of "redirected req" env newAddr]
      red [OF pop(2) [OF moved(1,2)] moved(3,4)] moved(5,6) show ?thesis by simp
  next
    case (ask bc req rest newAddr)
    from sendAsk_pending [OF pop(1) [OF ask(1,2)], of "redirected req" env newAddr]
      red [OF pop(2) [OF ask(1,2)] ask(3,4)] ask(6) show ?thesis by simp
  next
    case (deliver bc req rest)
    from deliver_pending [OF deliver(4) pop(1) [OF deliver(1,2)]] show ?thesis .
  qed
qed

text \<open>A predicate that redirections keep and the sentinels satisfy.\<close>

definition redirect_closed :: "(pendingClientReq \<Rightarrow> bool) \<Rightarrow> bool" where
  "redirect_closed P \<longleftrightarrow> (\<forall>r. P (readonlySentinel r)) \<and>
     (\<forall>p. P p \<longrightarrow> \<not> pcSkip p \<longrightarrow> pcDepth p < maxMuxRedirects \<longrightarrow> P (redirected p) \<and> P (askSentinel (redirected p)))"

lemma trafficLoop_pending:
  "redirect_closed P \<Longrightarrow> all_pending P ls \<Longrightarrow> trafficLoop env a f buf k ls = Some (ls', es, n) \<Longrightarrow> all_pending P ls'"
proof (induction f arbitrary: k ls es)
  case 0
  then show ?case by simp
next
  case (Suc f)
  from Suc.prems(3) show ?case
  proof (cases rule: trafficLoop_SucE)
    case stop
    with Suc.prems(2) show ?thesis by simp
  next
    case (reply kind msg m ls1 es1 es2)
    have "all_pending P ls1"
      using handleReply_pending [OF reply(4) Suc.prems(2)] Suc.prems(1) by (simp add: redirect_closed_def)
    from Suc.IH [OF Suc.prems(1) this reply(5)] show ?thesis .
  qed
qed

lemma mstep_pending:
  assumes "mstep env D ls e es ls'" "redirect_closed P" "all_pending P ls" "\<forall>a p. e = MSend a p \<longrightarrow> P p"
  shows "all_pending P ls'"
  using assms
proof (induction rule: mstep.induct)
  case (1 a p ls ls' es)
  then show ?case using send_pending [of P ls p env a] by simp
next
  case (2 ls ls' es)
  then show ?case by (auto simp: flushBackendWrites_def all_pending_def)
next
  case (3 ls a q ls' es)
  have "P (readonlySentinel r)" for r using 3 by (simp add: redirect_closed_def)
  moreover have "\<forall>p \<in> set (dialQueue ls a). P p" using 3 all_pending_dialQueue by blast
  ultimately show ?case
    using 3 by (auto simp: onOpen_def Let_def all_pending_def update_conv' delete_conv' split: if_splits)
next
  case (4 a msg ls ls' es)
  then show ?case by (auto simp: failDialing_def all_pending_undial)
next
  case (5 a ls ls' es)
  then show ?case by (auto simp: onClose_def all_pending_def delete_conv' split: option.splits if_splits)
next
  case (6 a buf ls ls' es n)
  show ?case
    using "6.hyps"
  proof (cases rule: onTrafficE)
    case idle
    with 6 show ?thesis by simp
  next
    case (replies ls1 es1 ls2 es2 es3)
    with trafficLoop_pending [OF "6.prems"(1,2) replies(1)] show ?thesis
      by (auto simp: flushBackendWrites_def flushWriteAccum_def all_pending_def)
  qed
qed (auto simp: all_pending_def)

lemma mrun_pending:
  "mrun env D ls evs es ls' \<Longrightarrow> redirect_closed P \<Longrightarrow> all_pending P ls \<Longrightarrow> \<forall>a p. MSend a p \<in> set evs \<longrightarrow> P p \<Longrightarrow>
   all_pending P ls'"
proof (induction rule: mrun.induct)
  case (2 ls e es ls1 evs fs ls2)
  then show ?case using mstep_pending [OF "2.hyps"(1)] by simp
qed simp

text \<open>
  The requests that wait for a reply of a node, on a connection or for one, and the redirections:
  \<open>hop\<close> relates the request whose reply is being handled to a request that is waiting only after
  that. Its closed form says that a redirection is followed only below the limit, and that it
  counts itself.
\<close>

definition waitingReqs :: "loopState \<Rightarrow> pendingClientReq set" where
  "waitingReqs ls = {p. \<not> pcSkip p \<and> ((\<exists>a bc. map_of (lsConns ls) a = Some bc \<and> p \<in> set (mcPending bc)) \<or> (\<exists>a. p \<in> set (dialQueue ls a)))}"

definition hop :: "menv \<Rightarrow> pendingClientReq \<Rightarrow> pendingClientReq \<Rightarrow> bool" where
  "hop env p p' \<longleftrightarrow> (\<exists>a raw kind msg ls bc rest ls' es.
     map_of (lsConns ls) a = Some bc \<and> mcPending bc = p # rest \<and> \<not> pcSkip p \<and>
     handleReply env a raw kind msg ls = Some (ls', es) \<and> p' \<in> waitingReqs ls' \<and> p' \<notin> waitingReqs (popped a bc rest ls))"

lemma all_pending_mono: "all_pending P ls \<Longrightarrow> (\<And>p. P p \<Longrightarrow> Q p) \<Longrightarrow> all_pending Q ls"
  unfolding all_pending_def by blast

lemma all_pending_iff: "all_pending Q ls \<longleftrightarrow>
    (\<forall>a bc. map_of (lsConns ls) a = Some bc \<longrightarrow> (\<forall>p \<in> set (mcPending bc). Q p)) \<and> (\<forall>a. \<forall>p \<in> set (dialQueue ls a). Q p)"
proof -
  have "(\<forall>p \<in> set (dialQueue ls a). Q p) \<longleftrightarrow> (\<forall>q. map_of (lsDialing ls) a = Some q \<longrightarrow> (\<forall>p \<in> set q. Q p))" for a
    unfolding dialQueue_def by (cases "map_of (lsDialing ls) a") simp_all
  then show ?thesis by (simp add: all_pending_def)
qed

lemma waitingReqs_subset: "waitingReqs ls \<subseteq> S \<longleftrightarrow> all_pending (\<lambda>p. pcSkip p \<or> p \<in> S) ls"
  unfolding waitingReqs_def all_pending_iff by blast

lemma handleReply_waiting:
  assumes "map_of (lsConns ls) a = Some bc" "mcPending bc = p # rest" "\<not> pcSkip p"
    and "handleReply env a raw kind msg ls = Some r"
  shows "waitingReqs (fst r) \<subseteq> (if pcDepth p < maxMuxRedirects then {redirected p} else {}) \<union> waitingReqs (popped a bc rest ls)"
proof -
  let ?S = "insert (redirected p) (waitingReqs (popped a bc rest ls))"
  have "all_pending (\<lambda>q. pcSkip q \<or> q \<in> waitingReqs (popped a bc rest ls)) (popped a bc rest ls)" by (simp flip: waitingReqs_subset)
  then have old: "all_pending (\<lambda>q. pcSkip q \<or> q \<in> ?S) (popped a bc rest ls)" by (rule all_pending_mono) blast
  have new: "all_pending (\<lambda>q. pcSkip q \<or> q \<in> ?S) (fst (send env b (redirected p) (popped a bc rest ls)))"
    "all_pending (\<lambda>q. pcSkip q \<or> q \<in> ?S) (fst (sendAsk env b (redirected p) (popped a bc rest ls)))" for b
    by (rule send_pending [OF old], simp) (rule sendAsk_pending [OF old], simp_all)
  have d: "waitingReqs (fst r') = waitingReqs (popped a bc rest ls)" if "deliver p raw (popped a bc rest ls) = Some r'" for r'
    using that by (auto simp: deliver_def waitingReqs_def dialQueue_def split: option.splits prod.splits)
  show ?thesis
  proof (cases "if pcDepth p < maxMuxRedirects then parseRedirectionMsg msg else None")
    case None
    then have "deliver p raw (popped a bc rest ls) = Some r" using assms by (simp add: handleReply_def)
    from d [OF this] show ?thesis by simp
  next
    case (Some x)
    then have lim: "pcDepth p < maxMuxRedirects" by (simp split: if_splits)
    obtain sl b where x: "x = (sl, b)" by (cases x)
    let ?send = "send env b (redirected p) (popped a bc rest ls)" and ?ask = "sendAsk env b (redirected p) (popped a bc rest ls)"
    have "handleReply env a raw kind msg ls = (if kind = ErrorKindMoved then Some (fst ?send, Refresh # snd ?send)
        else if kind = ErrorKindAsk then Some ?ask else deliver p raw (popped a bc rest ls))"
      using assms(1-3) Some by (simp add: handleReply_def x split_beta Let_def)
    then consider "deliver p raw (popped a bc rest ls) = Some r" | "fst r = fst ?send" | "fst r = fst ?ask"
      using assms(4) by (auto split: if_splits)
    then have "waitingReqs (fst r) \<subseteq> ?S"
    proof cases
      case 1
      then show ?thesis using d by blast
    next
      case 2
      show ?thesis unfolding waitingReqs_subset 2 by (rule new)
    next
      case 3
      show ?thesis unfolding waitingReqs_subset 3 by (rule new)
    qed
    with lim show ?thesis by simp
  qed
qed

lemma hopI:
  "map_of (lsConns ls) a = Some bc \<Longrightarrow> mcPending bc = p # rest \<Longrightarrow> \<not> pcSkip p \<Longrightarrow>
   handleReply env a raw kind msg ls = Some (ls', es) \<Longrightarrow> p' \<in> waitingReqs ls' \<Longrightarrow> p' \<notin> waitingReqs (popped a bc rest ls) \<Longrightarrow> hop env p p'"
  unfolding hop_def by blast

lemma hop_iff: "hop env p p' \<longleftrightarrow> \<not> pcSkip p \<and> pcDepth p < maxMuxRedirects \<and> p' = redirected p"
proof
  assume "hop env p p'"
  then obtain a raw kind msg ls bc rest ls' es where *: "map_of (lsConns ls) a = Some bc" "mcPending bc = p # rest" "\<not> pcSkip p"
    "handleReply env a raw kind msg ls = Some (ls', es)" "p' \<in> waitingReqs ls'" "p' \<notin> waitingReqs (popped a bc rest ls)"
    unfolding hop_def by blast
  from handleReply_waiting [OF *(1-4)] *(3,5,6) show "\<not> pcSkip p \<and> pcDepth p < maxMuxRedirects \<and> p' = redirected p"
    by (cases "pcDepth p < maxMuxRedirects") auto
next
  assume p: "\<not> pcSkip p \<and> pcDepth p < maxMuxRedirects \<and> p' = redirected p"
  let ?bc = "\<lparr>mcPending = [p], mcWriteBuf = []\<rparr>"
  let ?ls = "newBackendMux\<lparr>lsConns := [(''b'', ?bc)]\<rparr>"
  have "parseRedirectionMsg ''MOVED 1 b'' = Some (1, ''b'')" by code_simp
  then obtain ls' es where r: "handleReply env ''b'' [] ErrorKindMoved ''MOVED 1 b'' ?ls = Some (ls', es)" "p' \<in> waitingReqs ls'"
    using p by (auto simp: handleReply_def send_def waitingReqs_def redirected_def)
  have n: "p' \<notin> waitingReqs (popped ''b'' ?bc [] ?ls)" by (auto simp: waitingReqs_def newBackendMux_def dialQueue_def split: if_splits)
  show "hop env p p'" using p by (intro hopI [OF _ _ _ r n]) simp_all
qed

lemma hops_depth: "(hop env ^^ n) p p' \<Longrightarrow> pcDepth p = 0 \<Longrightarrow> int n = pcDepth p' \<and> n \<le> 16"
proof (induction n arbitrary: p')
  case (Suc n)
  then obtain q where "(hop env ^^ n) p q" "hop env q p'" by auto
  with Suc.IH [OF this(1)] Suc.prems(2) show ?case by (simp add: hop_iff redirected_def maxMuxRedirects_def)
qed simp

lemma mrun_history:
  assumes "mrun env D (newBackendMux\<lparr>lsClients := cl\<rparr>) evs es ls" "p \<in> waitingReqs ls"
  shows "\<exists>a q n. MSend a q \<in> set evs \<and> (hop env ^^ n) q p"
proof -
  let ?H = "{p. \<exists>a q n. MSend a q \<in> set evs \<and> (hop env ^^ n) q p}"
  have step: "redirected p \<in> ?H" if "p \<in> ?H" "\<not> pcSkip p" "pcDepth p < maxMuxRedirects" for p
  proof -
    from that(1) obtain a q n where q: "MSend a q \<in> set evs" "(hop env ^^ n) q p" by blast
    have "(hop env ^^ Suc n) q (redirected p)" using q(2) that(2,3) by (intro relpowp_Suc_I [of n _ q p]) (simp_all add: hop_iff)
    with q(1) show ?thesis by blast
  qed
  have "all_pending (\<lambda>p. pcSkip p \<or> p \<in> ?H) ls"
  proof (rule mrun_pending [OF assms(1)])
    show "redirect_closed (\<lambda>p. pcSkip p \<or> p \<in> ?H)"
      using step by (auto simp: redirect_closed_def readonlySentinel_def)
    show "all_pending (\<lambda>p. pcSkip p \<or> p \<in> ?H) (newBackendMux\<lparr>lsClients := cl\<rparr>)" by (simp add: all_pending_def newBackendMux_def)
    show "\<forall>a p. MSend a p \<in> set evs \<longrightarrow> pcSkip p \<or> p \<in> ?H" using relpowp_0_I [of "hop env"] by blast
  qed
  then have "waitingReqs ls \<subseteq> ?H" unfolding waitingReqs_subset .
  with assms(2) show ?thesis by blast
qed



section \<open>Properties\<close>

text \<open>
  C2. No request is lost and none is answered twice: over any run of the event loop, of sends,
  flushes, replies in arbitrary pieces, redirections, connections that open, fail or close, the
  requests that clients which stay connected submitted are exactly those still waiting together
  with those answered.
\<close>

theorem requests_conserved:
  assumes "mrun env D (newBackendMux\<lparr>lsClients := cl\<rparr>) evs es ls" "D \<subseteq> dom cl"
  shows "sum_list (map (submitted D) evs) = outstanding D ls + answered D es"
proof -
  have "mux_ok D (newBackendMux\<lparr>lsClients := cl\<rparr>)" using assms(2) by (simp add: mux_ok_def newBackendMux_def)
  from mrun_conserves [OF assms(1) this] show ?thesis
    by (simp add: conserves_def outstanding_def newBackendMux_def)
qed

definition sampleReq :: pendingClientReq where
  "sampleReq = \<lparr>pcConn = 1, pcSlot = 0, pcDepth = 0,
     pcReq = Some \<lparr>Args = [''GET'', ''k''], Raw = [], Cmd = ''GET''\<rparr>,
     pcSkip = False, pcAsk = False, pcFanIn = False, pcFanInIdx = 0\<rparr>"

definition sampleEnv :: menv where
  "sampleEnv = \<lparr>meDialErr = (\<lambda>_. None), meTopo = NewTopology\<rparr>"

theorem requests_conserved_witness:
  "\<exists>ls. mrun sampleEnv {1} (newBackendMux\<lparr>lsClients := [1 \<mapsto> newQueue]\<rparr>) [MSend ''h:1'' sampleReq] [Register ''h:1''] ls \<and>
     outstanding {1} ls = {#(1, 0)#}"
proof -
  let ?ls = "newBackendMux\<lparr>lsClients := [1 \<mapsto> newQueue]\<rparr>"
  obtain ls where "send sampleEnv ''h:1'' sampleReq ?ls = (ls, [Register ''h:1''])"
    by (simp add: send_def newBackendMux_def dialQueue_def dialBackend_def sampleEnv_def)
  then have m: "mrun sampleEnv {1} ?ls [MSend ''h:1'' sampleReq] ([Register ''h:1''] @ []) ls"
    by (blast intro: mrun.intros mstep.intros)
  from requests_conserved [OF m] m show ?thesis by (auto simp: sampleReq_def)
qed

text \<open>
  C27. Redirections are bounded: when every request enters with depth 0, a request that waits for
  a reply comes from a submitted request by as many redirections that the handler of replies
  followed as its depth says, at most 16, and no chain of such redirections is longer than 16,
  whatever the nodes answer.
\<close>

theorem redirects_bounded:
  assumes "mrun env D (newBackendMux\<lparr>lsClients := cl\<rparr>) evs es ls" "\<forall>a p. MSend a p \<in> set evs \<longrightarrow> pcDepth p = 0"
    and "p \<in> waitingReqs ls"
  shows "(\<exists>a q n. MSend a q \<in> set evs \<and> (hop env ^^ n) q p \<and> pcDepth p = int n \<and> n \<le> 16) \<and>
    (\<forall>a q n p'. MSend a q \<in> set evs \<longrightarrow> (hop env ^^ n) q p' \<longrightarrow> n \<le> 16)"
proof -
  obtain a q n where q: "MSend a q \<in> set evs" "(hop env ^^ n) q p" using mrun_history [OF assms(1,3)] by blast
  have d: "pcDepth p' = int m \<and> m \<le> 16" if "MSend b r \<in> set evs" "(hop env ^^ m) r p'" for b r m p'
    using hops_depth [OF that(2)] assms(2) that(1) by simp
  show ?thesis using q d by blast
qed

theorem redirects_bounded_witness:
  "\<exists>ls. mrun sampleEnv {1} (newBackendMux\<lparr>lsClients := [1 \<mapsto> newQueue]\<rparr>)
       [MSend ''h:1'' sampleReq, MOpen ''h:1'', MTraffic ''h:1'' (''-MOVED 1 h:1'' @ CRLF)]
       [Register ''h:1'', BackendWrite ''h:1'' (reqBytes sampleReq), Refresh, BackendWrite ''h:1'' (reqBytes sampleReq)] ls \<and>
     redirected sampleReq \<in> waitingReqs ls \<and> (\<exists>n. 0 < n \<and> n \<le> 16 \<and> (hop sampleEnv ^^ n) sampleReq (redirected sampleReq))"
proof -
  let ?ls = "newBackendMux\<lparr>lsClients := [1 \<mapsto> newQueue]\<rparr>" and ?buf = "''-MOVED 1 h:1'' @ CRLF"
  define ls1 where "ls1 = fst (send sampleEnv ''h:1'' sampleReq ?ls)"
  define ls2 where "ls2 = fst (onOpen sampleEnv ''h:1'' ls1)"
  define ls3 where "ls3 = fst (the (onTraffic sampleEnv ''h:1'' ?buf ls2))"
  have s: "send sampleEnv ''h:1'' sampleReq ?ls = (ls1, [Register ''h:1''])" "map_of (lsDialing ls1) ''h:1'' = Some [sampleReq]"
    "lsConns ls1 = []" "lsAccum ls1 = []"
    by (simp_all add: ls1_def send_def newBackendMux_def dialQueue_def dialBackend_def sampleEnv_def)
  have nr: "\<not> isReplicaAddr (meTopo sampleEnv) ''h:1''"
    by (simp add: isReplicaAddr_def sampleEnv_def GetNodeByAddr_def NewTopology_def)
  have "\<not> pcAsk sampleReq" by (simp add: sampleReq_def)
  with s nr have o: "onOpen sampleEnv ''h:1'' ls1 = (ls2, [BackendWrite ''h:1'' (reqBytes sampleReq)])"
    "lsConns ls2 = [(''h:1'', \<lparr>mcPending = [sampleReq], mcWriteBuf = []\<rparr>)]" "lsAccum ls2 = lsAccum ls1"
    by (simp_all add: ls2_def onOpen_def dialQueue_def Let_def openWrite_def)
  have scan: "ScanValue ?buf = Inr (14, ErrorKindMoved, ''MOVED 1 h:1'')" "length ?buf = 14" by code_simp+
  have red: "parseRedirectionMsg ''MOVED 1 h:1'' = Some (1, ''h:1'')" by code_simp
  have rb: "reqBytes (redirected sampleReq) = reqBytes sampleReq" "reqBytes sampleReq \<noteq> []"
    by (simp_all add: reqBytes_def redirected_def) code_simp
  have "\<not> pcSkip sampleReq" "pcDepth sampleReq < maxMuxRedirects" by (simp_all add: sampleReq_def maxMuxRedirects_def)
  then have h: "handleReply sampleEnv ''h:1'' raw ErrorKindMoved ''MOVED 1 h:1'' ls2 =
      Some (ls2\<lparr>lsConns := [(''h:1'', \<lparr>mcPending = [redirected sampleReq], mcWriteBuf = reqBytes sampleReq\<rparr>)]\<rparr>, [Refresh])" for raw
    by (simp add: handleReply_def o(2) red send_def rb(1))
  have "trafficLoop sampleEnv ''h:1'' (Suc (length ?buf)) ?buf 0 ls2 =
      Some (ls2\<lparr>lsConns := [(''h:1'', \<lparr>mcPending = [redirected sampleReq], mcWriteBuf = reqBytes sampleReq\<rparr>)]\<rparr>, [Refresh], 14)"
    using scan h by (cases "length ?buf") simp_all
  then have t: "onTraffic sampleEnv ''h:1'' ?buf ls2 = Some (ls3, [Refresh, BackendWrite ''h:1'' (reqBytes sampleReq)], 14)"
    "lsConns ls3 = [(''h:1'', \<lparr>mcPending = [redirected sampleReq], mcWriteBuf = []\<rparr>)]"
    using o(2,3) s(4) rb(2) by (simp_all add: ls3_def onTraffic_def flushWriteAccum_def flushBackendWrites_def vmap_def)
  have w: "redirected sampleReq \<in> waitingReqs ls3" by (simp add: waitingReqs_def t(2) redirected_def)
  have m: "mrun sampleEnv {1} ?ls [MSend ''h:1'' sampleReq, MOpen ''h:1'', MTraffic ''h:1'' ?buf]
      ([Register ''h:1''] @ [BackendWrite ''h:1'' (reqBytes sampleReq)] @ [Refresh, BackendWrite ''h:1'' (reqBytes sampleReq)] @ []) ls3"
    using s(1,2) o(1) t(1) by (blast intro: mrun.intros mstep.intros)
  from redirects_bounded [OF m _ w] obtain n where n: "n \<le> 16" "(hop sampleEnv ^^ n) sampleReq (redirected sampleReq)"
    by (auto simp: sampleReq_def)
  have "redirected sampleReq \<noteq> sampleReq" by (simp add: sampleReq_def redirected_def)
  then have "0 < n" using n(2) by (cases n) auto
  with m w n show ?thesis by auto
qed

text \<open>
  C32. When a node goes away every request that waited on its connection is answered with an
  error, and the connection is forgotten, so that the next request dials again.
\<close>

theorem onClose_answers_all:
  assumes "map_of (lsConns ls) a = Some bc" "onClose a ls = (ls', es)"
    and "p \<in> set (mcPending bc)" "\<not> pcSkip p" "lsClients ls (pcConn p) \<noteq> None"
  shows "AsyncFill (pcConn p) (pcSlot p) (EncodeError (''ERR cluster node disconnected: '' @ a)) \<in> set es \<and>
    map_of (lsConns ls') a = None"
  using assms by (force simp: onClose_def fillErrors_def delete_conv')

theorem onClose_answers_all_witness:
  "AsyncFill 1 0 (EncodeError ''ERR cluster node disconnected: h:1'') \<in>
     set (snd (onClose ''h:1'' (newBackendMux\<lparr>lsConns := [(''h:1'', \<lparr>mcPending = [sampleReq], mcWriteBuf = []\<rparr>)],
       lsClients := [1 \<mapsto> newQueue]\<rparr>)))"
proof -
  let ?ls = "newBackendMux\<lparr>lsConns := [(''h:1'', \<lparr>mcPending = [sampleReq], mcWriteBuf = []\<rparr>)], lsClients := [1 \<mapsto> newQueue]\<rparr>"
  obtain ls' es where "onClose ''h:1'' ?ls = (ls', es)" by (cases "onClose ''h:1'' ?ls")
  with onClose_answers_all [of ?ls "''h:1''" _ ls' es sampleReq] show ?thesis
    by (simp add: newBackendMux_def sampleReq_def)
qed

end
