(* ===== verification/BackendMux_Wire.thy ===== *)
theory BackendMux_Wire
  imports BackendMux_Correct
begin

text \<open>
  Order on the connections of the backend multiplexer: the bytes go out in the order in which the
  replies will be matched with the pending requests, except for what follows an \<^verbatim>\<open>ASK\<close> redirection.
\<close>

section \<open>Wire order\<close>

text \<open>The bytes that stand for a pending entry on the connection, and what effects write to an address.\<close>

definition wireBytes :: "pendingClientReq \<Rightarrow> bytes" where
  "wireBytes p = (if pcAsk p then askingBytes else if pcReq p = None then readonlyBytes else reqBytes p)"

fun wireOf :: "bytes \<Rightarrow> effect list \<Rightarrow> bytes" where
  "wireOf a [] = []"
| "wireOf a (BackendWrite b d # es) = (if b = a then d else []) @ wireOf a es"
| "wireOf a (_ # es) = wireOf a es"

lemma wireOf_append [simp]: "wireOf a (es @ fs) = wireOf a es @ wireOf a fs"
  by (induction a es rule: wireOf.induct) auto

text \<open>
  A step keeps the wire of a connection in order: at most \<open>n\<close> replies are taken from the front of
  the pending list, new entries go to its end, and what was buffered followed by the bytes of the
  new entries is what was written followed by what is buffered now. In a step of the loop only
  the connection to \<open>c\<close> takes replies.
\<close>

definition wire_step :: "nat \<Rightarrow> backendMuxConn \<Rightarrow> bytes \<Rightarrow> backendMuxConn \<Rightarrow> bool" where
  "wire_step n bc w bc' \<longleftrightarrow>
     (\<exists>added replied. length replied \<le> n \<and> mcPending bc @ added = replied @ mcPending bc' \<and>
        mcWriteBuf bc @ concat (map wireBytes added) = w @ mcWriteBuf bc')"

definition wire_ok :: "bytes \<Rightarrow> nat \<Rightarrow> loopState \<Rightarrow> loopState \<times> effect list \<Rightarrow> bool" where
  "wire_ok c n ls r \<longleftrightarrow> (\<forall>a bc. map_of (lsConns ls) a = Some bc \<longrightarrow>
     (\<exists>bc'. map_of (lsConns (fst r)) a = Some bc' \<and> wire_step (if a = c then n else 0) bc (wireOf a (snd r)) bc'))"

lemma wire_stepI:
  "mcPending bc @ added = replied @ mcPending bc' \<Longrightarrow> length replied \<le> n \<Longrightarrow>
   mcWriteBuf bc @ concat (map wireBytes added) = w @ mcWriteBuf bc' \<Longrightarrow> wire_step n bc w bc'"
  unfolding wire_step_def by blast

lemma wire_step_refl: "wire_step n bc [] bc"
  by (rule wire_stepI [of _ "[]" "[]"]) simp_all

lemma wire_step_trans:
  assumes "wire_step m bc w bc1" "wire_step n bc1 w1 bc2" shows "wire_step (m + n) bc (w @ w1) bc2"
proof -
  from assms obtain a r a1 r1 where
    1: "length r \<le> m" "mcPending bc @ a = r @ mcPending bc1" "mcWriteBuf bc @ concat (map wireBytes a) = w @ mcWriteBuf bc1"
    and 2: "length r1 \<le> n" "mcPending bc1 @ a1 = r1 @ mcPending bc2"
      "mcWriteBuf bc1 @ concat (map wireBytes a1) = w1 @ mcWriteBuf bc2"
    unfolding wire_step_def by blast
  show ?thesis
  proof (rule wire_stepI)
    show "mcPending bc @ a @ a1 = (r @ r1) @ mcPending bc2" using 1(2) 2(2) by (metis append.assoc)
    show "length (r @ r1) \<le> m + n" using 1(1) 2(1) by simp
    show "mcWriteBuf bc @ concat (map wireBytes (a @ a1)) = (w @ w1) @ mcWriteBuf bc2"
      using 1(3) 2(3) by simp (metis append.assoc)
  qed
qed

lemma wire_ok_trans:
  assumes "wire_ok c m ls (ls1, es1)" "wire_ok c n ls1 (ls2, es2)" shows "wire_ok c (m + n) ls (ls2, es1 @ es2)"
  unfolding wire_ok_def
proof (intro allI impI)
  fix a bc assume "map_of (lsConns ls) a = Some bc"
  with assms(1) obtain bc1 where 1: "map_of (lsConns ls1) a = Some bc1"
      "wire_step (if a = c then m else 0) bc (wireOf a es1) bc1" by (fastforce simp: wire_ok_def)
  with assms(2) obtain bc2 where 2: "map_of (lsConns ls2) a = Some bc2"
      "wire_step (if a = c then n else 0) bc1 (wireOf a es2) bc2" by (fastforce simp: wire_ok_def)
  from wire_step_trans [OF 1(2) 2(2)] 2(1)
  show "\<exists>bc'. map_of (lsConns (fst (ls2, es1 @ es2))) a = Some bc' \<and>
      wire_step (if a = c then m + n else 0) bc (wireOf a (snd (ls2, es1 @ es2))) bc'"
    by (auto split: if_splits)
qed

lemma wire_ok_same: "lsConns ls' = lsConns ls \<Longrightarrow> (\<And>a. wireOf a es = []) \<Longrightarrow> wire_ok c n ls (ls', es)"
  using wire_step_refl by (simp add: wire_ok_def)

lemma wireOf_fillErrors [simp]: "wireOf a (fillErrors ls msg ps) = []"
  by (induction ps) (auto simp: fillErrors_def split: option.splits)

lemma dialBackend_wire: "wire_ok c 0 ls (dialBackend env a ls)"
  by (auto simp: dialBackend_def failDialing_def intro!: wire_ok_same split: option.splits)

lemma queue_wire:
  "wire_ok c 0 ls (let ls' = ls\<lparr>lsDialing := d\<rparr> in if b then dialBackend env a ls' else (ls', []))"
proof -
  have "wire_ok c 0 ls (ls\<lparr>lsDialing := d\<rparr>, [])" by (rule wire_ok_same) simp_all
  with wire_ok_trans [OF this, of 0 "fst (dialBackend env a (ls\<lparr>lsDialing := d\<rparr>))"
      "snd (dialBackend env a (ls\<lparr>lsDialing := d\<rparr>))"] dialBackend_wire [of c "ls\<lparr>lsDialing := d\<rparr>" env a]
  show ?thesis by (simp add: Let_def)
qed

lemma wire_ok_conn:
  assumes "map_of (lsConns ls) a = Some bc" "wire_step (if a = c then n else 0) bc (wireOf a es) bc'" "\<And>b. b \<noteq> a \<Longrightarrow> wireOf b es = []"
  shows "wire_ok c n ls (ls\<lparr>lsConns := AList.update a bc' (lsConns ls)\<rparr>, es)"
  using assms wire_step_refl by (auto simp: wire_ok_def update_conv')

definition plain_req :: "pendingClientReq \<Rightarrow> bool" where
  "plain_req p \<longleftrightarrow> \<not> pcAsk p \<and> pcReq p \<noteq> None"

lemma send_wire:
  assumes "plain_req p" shows "wire_ok c 0 ls (send env a p ls)"
proof (cases "map_of (lsConns ls) a")
  case None
  with queue_wire [of c ls _ "length (dialQueue ls a @ [p]) = 1" env a] show ?thesis
    by (simp add: send_def Let_def)
next
  case (Some bc)
  have "wire_step 0 bc [] (bc\<lparr>mcPending := mcPending bc @ [p], mcWriteBuf := mcWriteBuf bc @ reqBytes p\<rparr>)"
    using assms by (intro wire_stepI [of _ "[p]" "[]"]) (auto simp: wireBytes_def plain_req_def)
  with Some show ?thesis by (auto simp: send_def intro: wire_ok_conn)
qed

text \<open>An \<open>ASKING\<close> pair is written past the buffer: the order is kept only when the buffer is empty.\<close>

lemma sendAsk_wire:
  assumes "plain_req p" "\<forall>bc. map_of (lsConns ls) a = Some bc \<longrightarrow> mcWriteBuf bc = []"
  shows "wire_ok c 0 ls (sendAsk env a p ls)"
proof (cases "map_of (lsConns ls) a")
  case None
  with queue_wire [of c ls _ "dialQueue ls a = []" env a] show ?thesis
    by (simp add: sendAsk_def Let_def)
next
  case (Some bc)
  let ?skip = "p\<lparr>pcSkip := True, pcAsk := True, pcFanIn := False, pcFanInIdx := 0\<rparr>"
  have "wire_step 0 bc (askingBytes @ reqBytes p) (bc\<lparr>mcPending := mcPending bc @ [?skip, p]\<rparr>)"
    using assms Some by (intro wire_stepI [of _ "[?skip, p]" "[]"]) (auto simp: wireBytes_def plain_req_def)
  with Some show ?thesis by (auto simp: sendAsk_def Let_def intro!: wire_ok_conn)
qed

lemma flushBackendWrites_wire:
  assumes "keys_ok (lsConns ls)" shows "wire_ok c 0 ls (flushBackendWrites ls)"
proof -
  have "wireOf a (concat (map (\<lambda>(b, bc). if mcWriteBuf bc = [] then [] else [BackendWrite b (mcWriteBuf bc)]) xs)) =
      (case map_of xs a of None \<Rightarrow> [] | Some bc \<Rightarrow> mcWriteBuf bc)" if "keys_ok xs" for a xs
    using that
  proof (induction xs)
    case (Cons x xs)
    obtain b bc where x: "x = (b, bc)" by (cases x)
    have "map_of xs b = None" using Cons.prems by (simp add: x keys_ok_def map_of_eq_None_iff)
    with Cons show ?case by (auto simp: x keys_ok_def)
  qed simp
  note w = this [OF assms]
  have "wire_step 0 bc (mcWriteBuf bc) (bc\<lparr>mcWriteBuf := []\<rparr>)" for bc
    by (rule wire_stepI [of _ "[]" "[]"]) simp_all
  then show ?thesis by (auto simp: wire_ok_def flushBackendWrites_def w)
qed

lemma pop_wire:
  assumes "map_of (lsConns ls) a = Some bc" "mcPending bc = req # rest"
  shows "wire_ok a 1 ls (popped a bc rest ls, [])"
proof (rule wire_ok_conn [OF assms(1)])
  show "wire_step (if a = a then 1 else 0) bc (wireOf a []) (bc\<lparr>mcPending := rest\<rparr>)"
    using assms(2) by (intro wire_stepI [of _ "[]" "[req]"]) simp_all
qed simp

lemma handleReply_wire:
  assumes "handleReply env a raw kind msg ls = Some r" "kind \<noteq> ErrorKindAsk"
    "all_pending (\<lambda>p. pcSkip p \<or> plain_req p) ls"
  shows "wire_ok a 1 ls r"
  using assms(1)
proof (cases rule: handleReplyE)
  case idle
  then show ?thesis by (simp add: wire_ok_same)
next
  case (sentinel bc req rest)
  from pop_wire [OF sentinel(1,2)] sentinel(4) show ?thesis by simp
next
  case (moved bc req rest newAddr s es)
  have "plain_req req"
    using all_pending_pop(2) [OF assms(3) moved(1,2)] moved(3) by simp
  then have "plain_req (redirected req)" by (simp add: plain_req_def redirected_def)
  from send_wire [OF this, of a "popped a bc rest ls" env newAddr] moved(5)
  have "wire_ok a 0 (popped a bc rest ls) (s, Refresh # es)" by (simp add: wire_ok_def)
  from wire_ok_trans [OF pop_wire [OF moved(1,2)] this] moved(6) show ?thesis by simp
next
  case (ask bc req rest newAddr)
  with assms(2) show ?thesis by simp
next
  case (deliver bc req rest)
  obtain s es where r: "r = (s, es)" by (cases r)
  have "lsConns s = lsConns (popped a bc rest ls) \<and> (\<forall>b. wireOf b es = [])"
    using deliver(4) r by (auto simp: deliver_def split: option.splits prod.splits)
  then have "wire_ok a 0 (popped a bc rest ls) (s, es)" by (intro wire_ok_same) simp_all
  from wire_ok_trans [OF pop_wire [OF deliver(1,2)] this] r show ?thesis by simp
qed

text \<open>The kinds of the replies that the traffic loop will handle.\<close>

fun scanKinds :: "nat \<Rightarrow> bytes \<Rightarrow> ErrorKind list" where
  "scanKinds 0 buf = []"
| "scanKinds (Suc f) buf =
     (if buf = [] then []
      else (case ScanValue buf of
              Inl _ \<Rightarrow> []
            | Inr (n, kind, _) \<Rightarrow> if n \<le> 0 then [] else kind # scanKinds f (drop (nat n) buf)))"

lemma scanKinds_Nil [simp]: "scanKinds f [] = []"
  by (cases f) simp_all

lemma redirected_plain:
  "pcSkip p \<or> plain_req p \<Longrightarrow> \<not> pcSkip p \<Longrightarrow>
   (pcSkip (redirected p) \<or> plain_req (redirected p)) \<and>
   (pcSkip (askSentinel (redirected p)) \<or> plain_req (askSentinel (redirected p)))"
  by (simp add: plain_req_def redirected_def)

lemma trafficLoop_wire:
  assumes "trafficLoop env a f buf k ls = Some (ls', es, n)"
    "ErrorKindAsk \<notin> set (scanKinds f (drop k buf))" "all_pending (\<lambda>p. pcSkip p \<or> plain_req p) ls"
  shows "wire_ok a (length (scanKinds f (drop k buf))) ls (ls', es)"
  using assms
proof (induction f arbitrary: k ls es)
  case 0
  then show ?case by simp
next
  case (Suc f)
  from Suc.prems(1) show ?case
  proof (cases rule: trafficLoop_SucE)
    case stop
    then show ?thesis by (simp add: wire_ok_same)
  next
    case (reply kind msg m ls1 es1 es2)
    have k: "kind \<noteq> ErrorKindAsk" "ErrorKindAsk \<notin> set (scanKinds f (drop (k + nat m) buf))"
      using Suc.prems(2) reply(1-3) by (auto simp: add.commute)
    have "wire_ok a 1 ls (ls1, es1)" by (rule handleReply_wire [OF reply(4) k(1) Suc.prems(3)])
    moreover have "all_pending (\<lambda>p. pcSkip p \<or> plain_req p) ls1"
      using handleReply_pending [OF reply(4) Suc.prems(3) redirected_plain] by simp
    with Suc.IH [OF reply(5) k(2)] have "wire_ok a (length (scanKinds f (drop (k + nat m) buf))) ls1 (ls', es2)" .
    ultimately have "wire_ok a (1 + length (scanKinds f (drop (k + nat m) buf))) ls (ls', es)"
      unfolding reply(6) by (rule wire_ok_trans)
    with reply(1-3) show ?thesis by (simp add: add.commute)
  qed
qed


section \<open>Properties\<close>

text \<open>
  C14. Reply matching: in a batch of replies without \<^verbatim>\<open>ASK\<close> redirections, every connection keeps
  its order. Replies are taken by the oldest pending entries, new entries join at the end, and
  the bytes written and buffered are those of the pending entries in their order; so the n-th
  reply on a connection always answers the n-th request on it.
\<close>

theorem onTraffic_wire_order:
  assumes "onTraffic env a buf ls = Some (ls', es, n)"
    and "ErrorKindAsk \<notin> set (scanKinds (Suc (length buf)) buf)"
    and "all_pending (\<lambda>p. pcSkip p \<or> plain_req p) ls" "mux_ok {} ls"
    and "map_of (lsConns ls) b = Some bc"
  shows "\<exists>bc' added replied. map_of (lsConns ls') b = Some bc' \<and>
    length replied \<le> (if b = a then length (scanKinds (Suc (length buf)) buf) else 0) \<and>
    mcPending bc @ added = replied @ mcPending bc' \<and>
    mcWriteBuf bc @ concat (map wireBytes added) = wireOf b es @ mcWriteBuf bc'"
proof -
  let ?n = "length (scanKinds (Suc (length buf)) buf)"
  have "wire_ok a ?n ls (ls', es)"
    using assms(1)
  proof (cases rule: onTrafficE)
    case idle
    then show ?thesis by (intro wire_ok_same) auto
  next
    case *: (replies ls1 es1 ls2 es2 es3)
    have 1: "wire_ok a ?n ls (ls1, es1)"
      using trafficLoop_wire [OF *(1) _ assms(3)] assms(2) by (simp del: scanKinds.simps)
    have cl: "wireOf c (concat (map (\<lambda>(c, iov). if iov = [] then [] else [ClientWrite c iov]) xs)) = []" for c xs
      by (induction xs) auto
    have 2: "wire_ok a 0 ls1 (ls2, es2)"
      using *(2) cl by (intro wire_ok_same) (auto simp: flushWriteAccum_def)
    have "mux_ok {} ls1" using trafficLoop_conserves [OF assms(4) *(1)] by (simp add: conserves_def)
    then have "keys_ok (lsConns ls2)" using *(2) by (auto simp: flushWriteAccum_def mux_ok_def)
    from flushBackendWrites_wire [OF this] *(3) have 3: "wire_ok a 0 ls2 (ls', es3)" by simp
    from wire_ok_trans [OF 1 wire_ok_trans [OF 2 3]] *(4) show ?thesis by simp
  qed
  with assms(5) show ?thesis by (fastforce simp: wire_ok_def wire_step_def)
qed

theorem onTraffic_wire_order_witness:
  "\<exists>ls' es n bc'. onTraffic sampleEnv ''h:1'' (''+OK'' @ CRLF)
       (newBackendMux\<lparr>lsConns := [(''h:1'', \<lparr>mcPending = [sampleReq], mcWriteBuf = []\<rparr>)], lsClients := [1 \<mapsto> newQueue]\<rparr>)
     = Some (ls', es, n) \<and> map_of (lsConns ls') ''h:1'' = Some bc'"
proof -
  let ?ls = "newBackendMux\<lparr>lsConns := [(''h:1'', \<lparr>mcPending = [sampleReq], mcWriteBuf = []\<rparr>)], lsClients := [1 \<mapsto> newQueue]\<rparr>"
  define buf where "buf = ''+OK'' @ CRLF"
  have s: "ScanValue buf = Inr (5, ErrorKindNone, [])" "length buf = Suc 4"
    and d: "drop 5 buf = []" "take 5 buf = buf" "buf \<noteq> []" unfolding buf_def by code_simp+
  have "parseRedirectionMsg [] = None" by code_simp
  moreover obtain q iov where "accumulateResponseSlot 0 buf newQueue = (q, iov)" by force
  ultimately obtain ls1 es1 where h: "handleReply sampleEnv ''h:1'' buf ErrorKindNone [] ?ls = Some (ls1, es1)"
    by (simp add: handleReply_def sampleReq_def Let_def deliver_def)
  have "trafficLoop sampleEnv ''h:1'' (Suc 4) buf 5 ls1 = Some (ls1, [], 5)"
    by (subst trafficLoop.simps(2), subst d(1), rule if_P [OF refl])
  with s h d have "trafficLoop sampleEnv ''h:1'' (Suc (Suc 4)) buf 0 ?ls = Some (ls1, es1, 5)"
    by (subst trafficLoop.simps(2)) (simp del: trafficLoop.simps)
  then obtain ls' es n where t: "onTraffic sampleEnv ''h:1'' buf ?ls = Some (ls', es, n)"
    using s(2) d(3) by (simp add: onTraffic_def flushWriteAccum_def flushBackendWrites_def del: trafficLoop.simps)
  have k: "ErrorKindAsk \<notin> set (scanKinds (Suc (length buf)) buf)"
    using s(1) d by (subst scanKinds.simps(2)) simp
  have "all_pending (\<lambda>p. pcSkip p \<or> plain_req p) ?ls" "mux_ok {} ?ls"
    by (simp_all add: newBackendMux_def all_pending_def plain_req_def sampleReq_def mux_ok_def keys_ok_def)
  from onTraffic_wire_order [OF t k this, of "''h:1''" "\<lparr>mcPending = [sampleReq], mcWriteBuf = []\<rparr>"] t show ?thesis
    unfolding buf_def by auto
qed

text \<open>
  With bytes in the buffer, an \<^verbatim>\<open>ASK\<close> pair overtakes them: the entries are pending in one order and
  on the wire in the other.
\<close>

lemma sendAsk_overtakes:
  "\<exists>ls p ls' es. map_of (lsConns ls) ''h'' = Some \<lparr>mcPending = [p], mcWriteBuf = reqBytes p\<rparr> \<and>
     sendAsk env ''h'' p ls = (ls', es) \<and> \<not> wire_ok ''h'' 0 ls (ls', es)"
proof -
  let ?ls = "newBackendMux\<lparr>lsConns := [(''h'', \<lparr>mcPending = [sampleReq], mcWriteBuf = reqBytes sampleReq\<rparr>)]\<rparr>"
  let ?skip = "sampleReq\<lparr>pcSkip := True, pcAsk := True, pcFanIn := False, pcFanInIdx := 0\<rparr>"
  let ?bc = "\<lparr>mcPending = [sampleReq], mcWriteBuf = reqBytes sampleReq\<rparr>"
  let ?bc' = "\<lparr>mcPending = [sampleReq, ?skip, sampleReq], mcWriteBuf = reqBytes sampleReq\<rparr>"
  have q: "reqBytes sampleReq = ''*2'' @ CRLF @ ''$3'' @ CRLF @ ''GET'' @ CRLF @ ''$1'' @ CRLF @ ''k'' @ CRLF"
    by (simp add: reqBytes_def sampleReq_def rawBytes_def enc_simps fmt_int_def fmt_nat.simps)
  have "\<not> wire_step 0 ?bc (askingBytes @ reqBytes sampleReq) ?bc'"
    by (auto simp: wire_step_def q askingBytes_def)
  moreover have "sendAsk env ''h'' sampleReq ?ls =
      (?ls\<lparr>lsConns := [(''h'', ?bc')]\<rparr>, [BackendWrite ''h'' askingBytes, BackendWrite ''h'' (reqBytes sampleReq)])"
    by (simp add: sendAsk_def newBackendMux_def)
  ultimately have "\<not> wire_ok ''h'' 0 ?ls (sendAsk env ''h'' sampleReq ?ls)" by (simp add: wire_ok_def)
  then show ?thesis
    by (intro exI [of _ ?ls] exI [of _ sampleReq] exI [of _ "fst (sendAsk env ''h'' sampleReq ?ls)"]
        exI [of _ "snd (sendAsk env ''h'' sampleReq ?ls)"]) simp
qed

end
