(* ===== verification/Config.thy ===== *)
theory Config
  imports Go_Strings
begin

text \<open>
  The configuration, \<^verbatim>\<open>src/pkg/config/config.go\<close>: the defaults, the loader of the line-based
  configuration file and the functional options. Durations are nanoseconds. A file is its
  content, \<^term>\<open>None\<close> when it cannot be opened; \<^verbatim>\<open>time.ParseDuration\<close>, whose results no other part
  of the program uses, is a parameter.
\<close>

section \<open>Definitions\<close>

datatype ReadMode = ReadModeMasterOnly | ReadModeMasterSlave | ReadModeSlaveOnly

definition ParseReadMode :: "bytes \<Rightarrow> ReadMode \<times> bool" where
  "ParseReadMode s =
     (if s = ''master-only'' then (ReadModeMasterOnly, True)
      else if s = ''master-slave'' then (ReadModeMasterSlave, True)
      else if s = ''slave-only'' then (ReadModeSlaveOnly, True)
      else (ReadModeMasterOnly, False))"

record Config =
  cfgBind :: bytes
  cfgPort :: int
  cfgEntryPoints :: "bytes list"
  cfgUsername :: bytes
  cfgPassword :: bytes
  cfgClientPassword :: bytes
  cfgPoolSize :: int
  cfgWorkers :: int
  cfgIdleTimeout :: int
  cfgReadTimeout :: int
  cfgRefreshInterval :: int
  cfgLogLevel :: bytes
  cfgMaxRedirects :: int
  cfgReadMode :: ReadMode
  cfgMaxClients :: int

definition second :: int where "second = 1000000000"

definition Default :: Config where
  "Default =
     \<lparr>cfgBind = ''0.0.0.0'', cfgPort = 7777, cfgEntryPoints = [], cfgUsername = [], cfgPassword = [],
      cfgClientPassword = [], cfgPoolSize = 20, cfgWorkers = 0, cfgIdleTimeout = 30 * second,
      cfgReadTimeout = 10 * second, cfgRefreshInterval = 5 * second, cfgLogLevel = ''info'',
      cfgMaxRedirects = 16, cfgReadMode = ReadModeMasterOnly, cfgMaxClients = 0\<rparr>"

definition Addr :: "Config \<Rightarrow> bytes" where
  "Addr c = cfgBind c @ '':'' @ fmt_int (cfgPort c)"

datatype cerr = OpenErr | Invalid bytes bytes | TooLong | NoEntryPoints

text \<open>An option whose value is parsed: an error names the option and the value.\<close>

definition parsed :: "bytes \<Rightarrow> (bytes \<Rightarrow> 'a option) \<Rightarrow> bytes \<Rightarrow> ('a \<Rightarrow> Config) \<Rightarrow> cerr + Config" where
  "parsed name p val f = (case p val of None \<Rightarrow> Inl (Invalid name val) | Some x \<Rightarrow> Inr (f x))"

definition setOption :: "(bytes \<Rightarrow> int option) \<Rightarrow> bytes \<Rightarrow> bytes \<Rightarrow> Config \<Rightarrow> cerr + Config" where
  "setOption parseDuration key val cfg =
     (if key = ''bind'' then Inr (cfg\<lparr>cfgBind := val\<rparr>)
      else if key = ''port'' then parsed ''port'' Atoi val (\<lambda>n. cfg\<lparr>cfgPort := n\<rparr>)
      else if key = ''cluster'' then Inr (cfg\<lparr>cfgEntryPoints := cfgEntryPoints cfg @ [val]\<rparr>)
      else if key = ''username'' then Inr (cfg\<lparr>cfgUsername := val\<rparr>)
      else if key = ''password'' \<or> key = ''auth'' then Inr (cfg\<lparr>cfgPassword := val\<rparr>)
      else if key = ''auth-user'' then Inr (cfg\<lparr>cfgUsername := val\<rparr>)
      else if key = ''pool-size'' \<or> key = ''connections-pool-size''
        then parsed ''pool-size'' Atoi val (\<lambda>n. cfg\<lparr>cfgPoolSize := n\<rparr>)
      else if key = ''idle-timeout''
        then parsed ''idle-timeout'' parseDuration val (\<lambda>d. cfg\<lparr>cfgIdleTimeout := d\<rparr>)
      else if key = ''refresh-interval''
        then parsed ''refresh-interval'' parseDuration val (\<lambda>d. cfg\<lparr>cfgRefreshInterval := d\<rparr>)
      else if key = ''log-level'' then Inr (cfg\<lparr>cfgLogLevel := val\<rparr>)
      else if key = ''max-redirects'' then parsed ''max-redirects'' Atoi val (\<lambda>n. cfg\<lparr>cfgMaxRedirects := n\<rparr>)
      else if key = ''read-timeout''
        then parsed ''read-timeout'' parseDuration val (\<lambda>d. cfg\<lparr>cfgReadTimeout := d\<rparr>)
      else if key = ''client-password'' then Inr (cfg\<lparr>cfgClientPassword := val\<rparr>)
      else if key = ''read-replica''
        then Inr (if val = ''yes'' \<or> val = ''1'' \<or> val = ''true'' then cfg\<lparr>cfgReadMode := ReadModeMasterSlave\<rparr> else cfg)
      else if key = ''read-mode''
        then Inr (case ParseReadMode val of (m, ok) \<Rightarrow> if ok then cfg\<lparr>cfgReadMode := m\<rparr> else cfg)
      else if key = ''max-clients'' then parsed ''max-clients'' Atoi val (\<lambda>n. cfg\<lparr>cfgMaxClients := n\<rparr>)
      else if key = ''workers'' then parsed ''workers'' Atoi val (\<lambda>n. cfg\<lparr>cfgWorkers := n\<rparr>)
      else Inr cfg)"

definition loadLine :: "(bytes \<Rightarrow> int option) \<Rightarrow> bytes \<Rightarrow> Config \<Rightarrow> cerr + Config" where
  "loadLine parseDuration text cfg =
     (let line = trim_space text in
      if line = [] \<or> has_prefix line ''#'' then Inr cfg
      else (case splitN (CHR '' '') (Suc (Suc 0)) line of
              [k, v] \<Rightarrow> setOption parseDuration (to_lower (trim_space k)) (trim_space v) cfg
            | _ \<Rightarrow> Inr cfg))"

text \<open>
  The tokens of \<^verbatim>\<open>bufio.Scanner\<close>: the lines of the file, an empty last one left out. Its buffer
  holds \<open>65536\<close> bytes with the newline, a longer line ends the scan with an error. The carriage
  return that it drops from the end of a line is white space for \<open>loadLine\<close>.
\<close>

definition scanLines :: "bytes \<Rightarrow> bytes list" where
  "scanLines content = (let ls = split_char LF content in if last ls = [] then butlast ls else ls)"

definition maxScanTokenSize :: nat where "maxScanTokenSize = 65536"

fun loadLines :: "(bytes \<Rightarrow> int option) \<Rightarrow> bytes list \<Rightarrow> Config \<Rightarrow> cerr + Config" where
  "loadLines parseDuration [] cfg = Inr cfg"
| "loadLines parseDuration (l # ls) cfg =
     (if length l \<ge> maxScanTokenSize then Inl TooLong
      else (case loadLine parseDuration l cfg of
              Inl e \<Rightarrow> Inl e
            | Inr cfg' \<Rightarrow> loadLines parseDuration ls cfg'))"

definition Load :: "(bytes \<Rightarrow> int option) \<Rightarrow> bytes option \<Rightarrow> cerr + Config" where
  "Load parseDuration file =
     (case file of
        None \<Rightarrow> Inl OpenErr
      | Some content \<Rightarrow>
         (case loadLines parseDuration (scanLines content) Default of
            Inl e \<Rightarrow> Inl e
          | Inr cfg \<Rightarrow> if cfgEntryPoints cfg = [] then Inl NoEntryPoints else Inr cfg))"

definition FromArgs :: "bytes list \<Rightarrow> (Config \<Rightarrow> Config) list \<Rightarrow> Config" where
  "FromArgs eps opts = fold (\<lambda>f c. f c) opts (Default\<lparr>cfgEntryPoints := eps\<rparr>)"

definition WithPort :: "int \<Rightarrow> Config \<Rightarrow> Config" where
  "WithPort port c = c\<lparr>cfgPort := port\<rparr>"

definition WithPassword :: "bytes \<Rightarrow> bytes \<Rightarrow> Config \<Rightarrow> Config" where
  "WithPassword username password c = c\<lparr>cfgUsername := username, cfgPassword := password\<rparr>"

definition WithClientPassword :: "bytes \<Rightarrow> Config \<Rightarrow> Config" where
  "WithClientPassword password c = c\<lparr>cfgClientPassword := password\<rparr>"

definition WithPoolSize :: "int \<Rightarrow> Config \<Rightarrow> Config" where
  "WithPoolSize n c = c\<lparr>cfgPoolSize := n\<rparr>"

definition WithReadMode :: "ReadMode \<Rightarrow> Config \<Rightarrow> Config" where
  "WithReadMode m c = c\<lparr>cfgReadMode := m\<rparr>"


section \<open>Printing\<close>

text \<open>A configuration as the text of a file; \<open>fd\<close> prints durations.\<close>

definition readModeName :: "ReadMode \<Rightarrow> bytes" where
  "readModeName m = (case m of ReadModeMasterOnly \<Rightarrow> ''master-only'' | ReadModeMasterSlave \<Rightarrow> ''master-slave''
     | ReadModeSlaveOnly \<Rightarrow> ''slave-only'')"

definition optLine :: "bytes \<Rightarrow> bytes \<Rightarrow> (bytes \<times> bytes) list" where
  "optLine key val = (if val = [] then [] else [(key, val)])"

definition options :: "(int \<Rightarrow> bytes) \<Rightarrow> Config \<Rightarrow> (bytes \<times> bytes) list" where
  "options fd c =
     [(''bind'', cfgBind c), (''port'', fmt_int (cfgPort c))] @
     map (\<lambda>e. (''cluster'', e)) (cfgEntryPoints c) @
     optLine ''username'' (cfgUsername c) @ optLine ''password'' (cfgPassword c) @
     optLine ''client-password'' (cfgClientPassword c) @
     [(''pool-size'', fmt_int (cfgPoolSize c)), (''workers'', fmt_int (cfgWorkers c)),
      (''idle-timeout'', fd (cfgIdleTimeout c)), (''read-timeout'', fd (cfgReadTimeout c)),
      (''refresh-interval'', fd (cfgRefreshInterval c)), (''log-level'', cfgLogLevel c),
      (''max-redirects'', fmt_int (cfgMaxRedirects c)), (''read-mode'', readModeName (cfgReadMode c)),
      (''max-clients'', fmt_int (cfgMaxClients c))]"

definition optText :: "bytes \<times> bytes \<Rightarrow> bytes" where
  "optText kv = fst kv @ '' '' @ snd kv"

definition printConfig :: "(int \<Rightarrow> bytes) \<Rightarrow> Config \<Rightarrow> bytes" where
  "printConfig fd c = concat (map (\<lambda>kv. optText kv @ [LF]) (options fd c))"

definition plain_val :: "bytes \<Rightarrow> bool" where
  "plain_val v \<longleftrightarrow> v \<noteq> [] \<and> plain (hd v) \<and> plain (last v) \<and> LF \<notin> set v \<and> length v \<le> 60000"

definition plain_key :: "bytes \<Rightarrow> bool" where
  "plain_key k \<longleftrightarrow> k \<noteq> [] \<and> (\<forall>c \<in> set k. plain c \<and> lower_char c = c) \<and> hd k \<noteq> CHR ''#'' \<and> length k \<le> 100"

definition config_ok :: "(int \<Rightarrow> bytes) \<Rightarrow> Config \<Rightarrow> bool" where
  "config_ok fd c \<longleftrightarrow>
     plain_val (cfgBind c) \<and> plain_val (cfgLogLevel c) \<and> cfgEntryPoints c \<noteq> [] \<and>
     (\<forall>e \<in> set (cfgEntryPoints c). plain_val e) \<and>
     (\<forall>s \<in> {cfgUsername c, cfgPassword c, cfgClientPassword c}. s = [] \<or> plain_val s) \<and>
     (\<forall>n \<in> {cfgPort c, cfgPoolSize c, cfgWorkers c, cfgMaxRedirects c, cfgMaxClients c}. in_int64 n) \<and>
     (\<forall>d \<in> {cfgIdleTimeout c, cfgReadTimeout c, cfgRefreshInterval c}. plain_val (fd d))"


section \<open>Round trip\<close>

lemma length_fmt_nat: "n < 10 ^ k \<Longrightarrow> length (fmt_nat n) \<le> max 1 k"
proof (induction k arbitrary: n)
  case 0
  then show ?case by (simp add: fmt_nat.simps [of 0])
next
  case (Suc k)
  show ?case
  proof (cases "n < 10")
    case True
    then show ?thesis by (simp add: fmt_nat.simps [of n])
  next
    case False
    have "n div 10 < 10 ^ k" using Suc.prems by (simp add: div_less_iff_less_mult ac_simps)
    from Suc.IH [OF this] have "length (fmt_nat (n div 10)) \<le> max 1 k" .
    moreover have "0 < k" using False Suc.prems by (cases k) auto
    ultimately show ?thesis using False by (simp add: fmt_nat.simps [of n])
  qed
qed

lemma plain_number: "is_digit c \<or> c = CHR ''-'' \<Longrightarrow> plain c"
  using plain_digit by auto

lemma plain_val_fmt_int:
  assumes "in_int64 n" shows "plain_val (fmt_int n)"
proof -
  have "nat (- n) < 10 ^ 19" "nat n < 10 ^ 19" using assms by (auto simp: in_int64_def)
  then have "length (fmt_int n) \<le> 20"
    using length_fmt_nat [of "nat (- n)" 19] length_fmt_nat [of "nat n" 19] by (simp add: fmt_int_def)
  moreover have "plain (hd (fmt_int n))" "plain (last (fmt_int n))"
    using fmt_int_digits plain_number hd_in_set last_in_set fmt_int_nonempty by metis+
  ultimately show ?thesis by (simp add: plain_val_def)
qed

lemma plain_val_readModeName: "plain_val (readModeName m)"
  by (cases m) (simp_all add: plain_val_def readModeName_def plain_def less_eq_char_def)

lemma trim_space_val: "plain_val v \<Longrightarrow> trim_space v = v"
  by (simp add: plain_val_def trim_space_plain)

lemma to_lower_key: "plain_key k \<Longrightarrow> to_lower k = k"
  by (simp add: plain_key_def to_lower_def map_idI)

lemma not_plain_blank: "\<not> plain (CHR '' '')" "\<not> plain LF"
  by (simp_all add: plain_def less_eq_char_def)

text \<open>A printed option is read as this option.\<close>

lemma loadLine_optText:
  assumes "plain_key k" "plain_val v"
  shows "loadLine pd (optText (k, v)) cfg = setOption pd k v cfg"
proof -
  let ?l = "k @ '' '' @ v"
  have k: "k \<noteq> []" "plain (hd k)" "plain (last k)" "CHR '' '' \<notin> set k"
    using assms(1) not_plain_blank by (auto simp: plain_key_def)
  have v: "v \<noteq> []" "plain (last v)" using assms(2) by (auto simp: plain_val_def)
  have l: "trim_space ?l = ?l" by (rule trim_space_plain) (use k v in auto)
  have h: "\<not> has_prefix ?l ''#''"
    using k(1) assms(1) by (cases k) (auto simp: has_prefix_def plain_key_def)
  have s: "splitN (CHR '' '') (Suc (Suc 0)) ?l = [k, v]"
    using splitN_Suc_append [OF k(4), of 0 v] by simp
  have tk: "trim_space k = k" using trim_space_plain [OF k(1-3)] .
  show ?thesis
    unfolding loadLine_def optText_def fst_conv snd_conv l Let_def s
    using k(1) h by (simp add: tk to_lower_key [OF assms(1)] trim_space_val [OF assms(2)])
qed

fun applyOptions :: "(bytes \<Rightarrow> int option) \<Rightarrow> (bytes \<times> bytes) list \<Rightarrow> Config \<Rightarrow> cerr + Config" where
  "applyOptions pd [] cfg = Inr cfg"
| "applyOptions pd ((k, v) # kvs) cfg =
     (case setOption pd k v cfg of Inl e \<Rightarrow> Inl e | Inr cfg' \<Rightarrow> applyOptions pd kvs cfg')"

lemma applyOptions_append:
  "applyOptions pd (xs @ ys) cfg =
     (case applyOptions pd xs cfg of Inl e \<Rightarrow> Inl e | Inr cfg' \<Rightarrow> applyOptions pd ys cfg')"
  by (induction pd xs cfg rule: applyOptions.induct) (auto split: sum.splits)

lemma loadLines_options:
  "\<forall>kv \<in> set kvs. plain_key (fst kv) \<and> plain_val (snd kv) \<Longrightarrow>
   loadLines pd (map optText kvs) cfg = applyOptions pd kvs cfg"
proof (induction pd kvs cfg rule: applyOptions.induct)
  case (2 pd k v kvs cfg)
  then have "length (optText (k, v)) < maxScanTokenSize"
    by (simp add: plain_key_def plain_val_def optText_def maxScanTokenSize_def)
  with 2 show ?case by (simp add: loadLine_optText split: sum.split)
qed simp

lemma scanLines_print:
  "\<forall>l \<in> set ls. LF \<notin> set l \<Longrightarrow> scanLines (concat (map (\<lambda>l. l @ [LF]) ls)) = ls"
proof -
  assume ls: "\<forall>l \<in> set ls. LF \<notin> set l"
  have "split_char LF (concat (map (\<lambda>l. l @ [LF]) ls)) = ls @ [[]]"
    using ls by (induction ls) (auto simp: split_char_append)
  then show ?thesis by (simp add: scanLines_def Let_def)
qed

lemma setOption_simps [simp]:
  "setOption pd ''bind'' v c = Inr (c\<lparr>cfgBind := v\<rparr>)"
  "setOption pd ''port'' v c = parsed ''port'' Atoi v (\<lambda>n. c\<lparr>cfgPort := n\<rparr>)"
  "setOption pd ''cluster'' v c = Inr (c\<lparr>cfgEntryPoints := cfgEntryPoints c @ [v]\<rparr>)"
  "setOption pd ''username'' v c = Inr (c\<lparr>cfgUsername := v\<rparr>)"
  "setOption pd ''password'' v c = Inr (c\<lparr>cfgPassword := v\<rparr>)"
  "setOption pd ''client-password'' v c = Inr (c\<lparr>cfgClientPassword := v\<rparr>)"
  "setOption pd ''pool-size'' v c = parsed ''pool-size'' Atoi v (\<lambda>n. c\<lparr>cfgPoolSize := n\<rparr>)"
  "setOption pd ''workers'' v c = parsed ''workers'' Atoi v (\<lambda>n. c\<lparr>cfgWorkers := n\<rparr>)"
  "setOption pd ''idle-timeout'' v c = parsed ''idle-timeout'' pd v (\<lambda>d. c\<lparr>cfgIdleTimeout := d\<rparr>)"
  "setOption pd ''read-timeout'' v c = parsed ''read-timeout'' pd v (\<lambda>d. c\<lparr>cfgReadTimeout := d\<rparr>)"
  "setOption pd ''refresh-interval'' v c = parsed ''refresh-interval'' pd v (\<lambda>d. c\<lparr>cfgRefreshInterval := d\<rparr>)"
  "setOption pd ''log-level'' v c = Inr (c\<lparr>cfgLogLevel := v\<rparr>)"
  "setOption pd ''max-redirects'' v c = parsed ''max-redirects'' Atoi v (\<lambda>n. c\<lparr>cfgMaxRedirects := n\<rparr>)"
  "setOption pd ''read-mode'' v c = Inr (case ParseReadMode v of (m, ok) \<Rightarrow> if ok then c\<lparr>cfgReadMode := m\<rparr> else c)"
  "setOption pd ''max-clients'' v c = parsed ''max-clients'' Atoi v (\<lambda>n. c\<lparr>cfgMaxClients := n\<rparr>)"
  unfolding setOption_def by simp_all

lemma ParseReadMode_name [simp]: "ParseReadMode (readModeName m) = (m, True)"
  by (cases m) (simp_all add: ParseReadMode_def readModeName_def)

lemma applyOptions_cluster:
  "applyOptions pd (map (\<lambda>e. (''cluster'', e)) es) c = Inr (c\<lparr>cfgEntryPoints := cfgEntryPoints c @ es\<rparr>)"
  by (induction es arbitrary: c) simp_all

lemma applyOptions_optLine:
  "applyOptions pd (optLine ''username'' v) c = Inr (if v = [] then c else c\<lparr>cfgUsername := v\<rparr>)"
  "applyOptions pd (optLine ''password'' v) c = Inr (if v = [] then c else c\<lparr>cfgPassword := v\<rparr>)"
  "applyOptions pd (optLine ''client-password'' v) c = Inr (if v = [] then c else c\<lparr>cfgClientPassword := v\<rparr>)"
  by (simp_all add: optLine_def)

lemma applyOptions_options:
  assumes "config_ok fd c" "\<forall>d \<in> {cfgIdleTimeout c, cfgReadTimeout c, cfgRefreshInterval c}. pd (fd d) = Some d"
  shows "applyOptions pd (options fd c) Default = Inr c"
proof -
  have ints: "in_int64 (cfgPort c)" "in_int64 (cfgPoolSize c)" "in_int64 (cfgWorkers c)"
      "in_int64 (cfgMaxRedirects c)" "in_int64 (cfgMaxClients c)"
    using assms(1) by (simp_all add: config_ok_def)
  have "applyOptions pd (options fd c) Default = Inr (Default\<lparr>cfgBind := cfgBind c, cfgPort := cfgPort c,
      cfgEntryPoints := cfgEntryPoints c, cfgUsername := cfgUsername c, cfgPassword := cfgPassword c,
      cfgClientPassword := cfgClientPassword c, cfgPoolSize := cfgPoolSize c, cfgWorkers := cfgWorkers c,
      cfgIdleTimeout := cfgIdleTimeout c, cfgReadTimeout := cfgReadTimeout c,
      cfgRefreshInterval := cfgRefreshInterval c, cfgLogLevel := cfgLogLevel c,
      cfgMaxRedirects := cfgMaxRedirects c, cfgReadMode := cfgReadMode c, cfgMaxClients := cfgMaxClients c\<rparr>)"
    using assms(2) ints
    by (simp add: options_def applyOptions_append applyOptions_cluster applyOptions_optLine parsed_def Default_def)
  then show ?thesis by (simp add: Default_def)
qed

lemma plain_keys:
  "plain_key ''bind''" "plain_key ''port''" "plain_key ''cluster''" "plain_key ''username''"
  "plain_key ''password''" "plain_key ''client-password''" "plain_key ''pool-size''" "plain_key ''workers''"
  "plain_key ''idle-timeout''" "plain_key ''read-timeout''" "plain_key ''refresh-interval''"
  "plain_key ''log-level''" "plain_key ''max-redirects''" "plain_key ''read-mode''" "plain_key ''max-clients''"
  unfolding plain_key_def by code_simp+

lemma plain_key_options: "kv \<in> set (options fd c) \<Longrightarrow> plain_key (fst kv)"
  by (auto simp: options_def optLine_def plain_keys split: if_splits)

lemma plain_val_options: "config_ok fd c \<Longrightarrow> kv \<in> set (options fd c) \<Longrightarrow> plain_val (snd kv)"
  unfolding config_ok_def options_def optLine_def
  by (auto simp: plain_val_fmt_int plain_val_readModeName split: if_splits)

text \<open>
  C35. A configuration survives being written to a file: loading the printed options gives back
  the configuration, every field of it. Values may hold blanks but no line break and no white
  space at their ends; the printer of durations is any that \<^verbatim>\<open>time.ParseDuration\<close> reads back.
\<close>

theorem Load_printConfig:
  assumes "config_ok fd c"
    and "\<forall>d \<in> {cfgIdleTimeout c, cfgReadTimeout c, cfgRefreshInterval c}. parseDuration (fd d) = Some d"
  shows "Load parseDuration (Some (printConfig fd c)) = Inr c"
proof -
  have "LF \<notin> set (optText kv)" if "kv \<in> set (options fd c)" for kv
    using plain_key_options [OF that] plain_val_options [OF assms(1) that] not_plain_blank
    by (auto simp: optText_def plain_key_def plain_val_def)
  then have "scanLines (printConfig fd c) = map optText (options fd c)"
    using scanLines_print [of "map optText (options fd c)"] by (simp add: printConfig_def comp_def)
  moreover have "loadLines parseDuration (map optText (options fd c)) Default = Inr c"
    using applyOptions_options [OF assms] plain_key_options plain_val_options [OF assms(1)]
    by (subst loadLines_options) auto
  moreover have "cfgEntryPoints c \<noteq> []" using assms(1) by (simp add: config_ok_def)
  ultimately show ?thesis by (simp add: Load_def)
qed

theorem Load_printConfig_witness:
  "Load Atoi (Some (printConfig fmt_int (Default\<lparr>cfgEntryPoints := [''10.0.0.1:6379'']\<rparr>))) =
     Inr (Default\<lparr>cfgEntryPoints := [''10.0.0.1:6379'']\<rparr>)"
proof (rule Load_printConfig)
  have "plain_val ''0.0.0.0''" "plain_val ''info''" "plain_val ''10.0.0.1:6379''"
    by (simp_all add: plain_val_def plain_def less_eq_char_def)
  moreover have "in_int64 (30 * second)" "in_int64 (10 * second)" "in_int64 (5 * second)"
    by (simp_all add: in_int64_def second_def)
  ultimately show "config_ok fmt_int (Default\<lparr>cfgEntryPoints := [''10.0.0.1:6379'']\<rparr>)"
    "\<forall>d \<in> {cfgIdleTimeout (Default\<lparr>cfgEntryPoints := [''10.0.0.1:6379'']\<rparr>),
       cfgReadTimeout (Default\<lparr>cfgEntryPoints := [''10.0.0.1:6379'']\<rparr>),
       cfgRefreshInterval (Default\<lparr>cfgEntryPoints := [''10.0.0.1:6379'']\<rparr>)}. Atoi (fmt_int d) = Some d"
    by (simp_all add: config_ok_def Default_def plain_val_fmt_int) (simp_all add: in_int64_def)
qed

end
