(* ===== verification/Router.thy ===== *)
theory Router
  imports Topology Command Config
begin

text \<open>
  The router, \<^verbatim>\<open>src/pkg/router/router.go\<close>: it runs a request on the right node, follows
  redirections, retries, and splits and merges requests that concern several slots or all
  masters. The engine calls it from worker goroutines.

  The connections to the nodes are a parameter, a record of functions over a world state: a
  pipelined request, the two-command exchange of an \<^verbatim>\<open>ASK\<close> redirection, a batch, and the wait
  between two attempts, which a cancelled context cuts short. Where the source starts one
  goroutine per group or per master, their work is done one after the other in an order that is
  a parameter: \<open>goOrd n\<close> is the order in which \<open>n\<close> goroutines finish. A Go error is its message.
\<close>

section \<open>State, environment and results\<close>

definition MaxRedirects :: nat where "MaxRedirects = 16"
definition AskingCmdBytes :: bytes where "AskingCmdBytes = ''*1'' @ CRLF @ ''$6'' @ CRLF @ ''ASKING'' @ CRLF"
definition clusterDownMaxRetry :: nat where "clusterDownMaxRetry = 3"
definition clusterDownRetryDelay :: int where "clusterDownRetryDelay = 100000000"
definition pipeRetryMax :: nat where "pipeRetryMax = 2"
definition pipeRetryDelay :: int where "pipeRetryDelay = 150000000"

record 'w Router =
  rtTopo :: Topology
  rtCounter :: "64 word"
  rtReadMode :: ReadMode
  rtHasRefresher :: bool
  rtRefreshes :: nat
  rtWorld :: 'w

datatype rfail = Fail bytes | Panic

type_synonym routed = "rfail + Value"

text \<open>
  \<open>pipeDo\<close> takes an address, whether the connection is read-only, and the bytes of a command;
  \<open>askDo\<close> sends bytes on a pooled connection and reads one or two replies; \<open>batchDo\<close> sends a batch
  and reads its replies up to an error; \<open>sleepFor\<close> gives the context's error when it is cancelled.
\<close>

record 'w netenv =
  pipeDo :: "bytes \<Rightarrow> bool \<Rightarrow> bytes \<Rightarrow> 'w \<Rightarrow> (bytes + Value) \<times> 'w"
  askDo :: "bytes \<Rightarrow> bytes \<Rightarrow> 'w \<Rightarrow> (bytes + Value \<times> (bytes + Value)) \<times> 'w"
  batchDo :: "bytes \<Rightarrow> bool \<Rightarrow> bytes list list \<Rightarrow> 'w \<Rightarrow> (bytes + Value list \<times> bytes) \<times> 'w"
  sleepFor :: "int \<Rightarrow> 'w \<Rightarrow> bytes option \<times> 'w"
  goOrd :: "nat \<Rightarrow> nat list"

definition NewRouter :: "Topology \<Rightarrow> 'w \<Rightarrow> 'w Router" where
  "NewRouter topo w =
     \<lparr>rtTopo = topo, rtCounter = 0, rtReadMode = ReadModeMasterOnly, rtHasRefresher = False,
      rtRefreshes = 0, rtWorld = w\<rparr>"

definition SetTopoRefresher :: "'w Router \<Rightarrow> 'w Router" where
  "SetTopoRefresher r = r\<lparr>rtHasRefresher := True\<rparr>"

definition SetReadMode :: "ReadMode \<Rightarrow> 'w Router \<Rightarrow> 'w Router" where
  "SetReadMode m r = r\<lparr>rtReadMode := m\<rparr>"

text \<open>Running \<open>n\<close> tasks in the given order; the result of task \<open>i\<close> goes to position \<open>i\<close>.\<close>

fun goAll :: "nat list \<Rightarrow> (nat \<Rightarrow> 's \<Rightarrow> 'a \<times> 's) \<Rightarrow> 'a list \<Rightarrow> 's \<Rightarrow> 'a list \<times> 's" where
  "goAll [] f xs s = (xs, s)"
| "goAll (i # is) f xs s = (case f i s of (x, s') \<Rightarrow> goAll is f (xs[i := x]) s')"

fun goSeq :: "nat list \<Rightarrow> (nat \<Rightarrow> 's \<Rightarrow> 's) \<Rightarrow> 's \<Rightarrow> 's" where
  "goSeq [] f s = s"
| "goSeq (i # is) f s = goSeq is f (f i s)"


section \<open>One request on one node\<close>

definition nodeAddrForSlot :: "'w Router \<Rightarrow> int \<Rightarrow> bool \<Rightarrow> (bytes + bytes) \<times> 'w Router" where
  "nodeAddrForSlot r slot isRead =
     (let addrOf = (\<lambda>n. case n of None \<Rightarrow> Inl (''no node for slot '' @ fmt_int slot) | Some n \<Rightarrow> Inr (nAddr n))
      in if isRead \<and> rtReadMode r = ReadModeMasterSlave then
           (case GetNodeForSlotBalanced (rtTopo r) slot of (n, t) \<Rightarrow> (addrOf n, r\<lparr>rtTopo := t\<rparr>))
         else if isRead \<and> rtReadMode r = ReadModeSlaveOnly then
           (case GetReplicaForSlot (rtTopo r) slot of (n, t) \<Rightarrow>
              (addrOf (case n of None \<Rightarrow> GetNodeForSlot t slot | Some n \<Rightarrow> Some n), r\<lparr>rtTopo := t\<rparr>))
         else (addrOf (GetNodeForSlot (rtTopo r) slot), r))"

definition backoffDelay :: "nat \<Rightarrow> int \<Rightarrow> int" where
  "backoffDelay attempt base = base * 2 ^ attempt"

definition routerIsReplicaAddr :: "'w Router \<Rightarrow> bytes \<Rightarrow> bool" where
  "routerIsReplicaAddr r addr =
     (case GetNodeByAddr (rtTopo r) addr of None \<Rightarrow> False | Some n \<Rightarrow> nRole n = RoleReplica)"

definition execOnNodeOnce :: "'w netenv \<Rightarrow> bytes \<Rightarrow> bytes list \<Rightarrow> bool \<Rightarrow> 'w Router \<Rightarrow> (bytes + Value) \<times> 'w Router" where
  "execOnNodeOnce env addr args asking r =
     (if \<not> asking then
        (case pipeDo env addr (routerIsReplicaAddr r addr) (EncodeCommandBytes args) (rtWorld r) of
           (res, w) \<Rightarrow> (res, r\<lparr>rtWorld := w\<rparr>))
      else
        (case askDo env addr (AskingCmdBytes @ EncodeCommandBytes args) (rtWorld r) of
           (res, w) \<Rightarrow>
             (case res of
                Inl e \<Rightarrow> Inl e
              | Inr (askReply, v) \<Rightarrow> if IsError askReply then Inr askReply else v,
              r\<lparr>rtWorld := w\<rparr>)))"

text \<open>The attempts of \<open>execOnNode\<close>, with \<open>k\<close> more to come after this one.\<close>

fun execAttempts :: "'w netenv \<Rightarrow> bytes \<Rightarrow> bytes list \<Rightarrow> bool \<Rightarrow> nat \<Rightarrow> 'w Router \<Rightarrow> (bytes + Value) \<times> 'w Router" where
  "execAttempts env addr args asking 0 r = execOnNodeOnce env addr args asking r"
| "execAttempts env addr args asking (Suc k) r =
     (let attempt = clusterDownMaxRetry - Suc k;
          again = (\<lambda>d r'. case sleepFor env d (rtWorld r') of
                     (Some e, w) \<Rightarrow> (Inl e, r'\<lparr>rtWorld := w\<rparr>)
                   | (None, w) \<Rightarrow> execAttempts env addr args asking k (r'\<lparr>rtWorld := w\<rparr>))
      in case execOnNodeOnce env addr args asking r of
           (Inl e, r') \<Rightarrow> if attempt < pipeRetryMax then again (backoffDelay attempt pipeRetryDelay) r' else (Inl e, r')
         | (Inr v, r') \<Rightarrow>
             if \<not> IsClusterDownError v \<and> \<not> IsLoadingError v then (Inr v, r')
             else again (backoffDelay attempt clusterDownRetryDelay) r')"

definition execOnNode :: "'w netenv \<Rightarrow> bytes \<Rightarrow> bytes list \<Rightarrow> bool \<Rightarrow> 'w Router \<Rightarrow> (bytes + Value) \<times> 'w Router" where
  "execOnNode env addr args asking r = execAttempts env addr args asking clusterDownMaxRetry r"

definition triggerRefresh :: "'w Router \<Rightarrow> 'w Router" where
  "triggerRefresh r = (if rtHasRefresher r then r\<lparr>rtRefreshes := rtRefreshes r + 1\<rparr> else r)"

definition isReadCmd :: "bytes \<Rightarrow> bool" where
  "isReadCmd cmd = (case GetCmdInfo cmd of None \<Rightarrow> False | Some i \<Rightarrow> IsRead (Some i) \<and> \<not> IsWrite (Some i))"

function executeRedirect :: "'w netenv \<Rightarrow> Request \<Rightarrow> bytes \<Rightarrow> int \<Rightarrow> bool \<Rightarrow> nat \<Rightarrow> 'w Router \<Rightarrow> (bytes + Value) \<times> 'w Router" where
  "executeRedirect env req addr0 slot asking depth r0 =
     (if depth > MaxRedirects then (Inl ''too many redirects'', r0)
      else (case (if addr0 = [] then nodeAddrForSlot r0 slot (isReadCmd (Cmd req)) else (Inr addr0, r0)) of
         (Inl e, r) \<Rightarrow> (Inl e, r)
       | (Inr addr, r) \<Rightarrow>
          (case execOnNode env addr (Args req) asking r of
             (Inl e, r') \<Rightarrow> (Inl e, r')
           | (Inr v, r') \<Rightarrow>
              if IsMovedError v then
                (case ParseRedirection v of
                   None \<Rightarrow> (Inr v, r')
                 | Some (newSlot, newAddr) \<Rightarrow>
                     executeRedirect env req newAddr newSlot False (depth + 1) (triggerRefresh r'))
              else if IsAskError v then
                (case ParseRedirection v of
                   None \<Rightarrow> (Inr v, r')
                 | Some (_, newAddr) \<Rightarrow> executeRedirect env req newAddr (-1) True (depth + 1) r')
              else (Inr v, r'))))"
  by pat_completeness auto
termination by (relation "measure (\<lambda>(env, req, addr, slot, asking, depth, r). Suc MaxRedirects - depth)") auto

declare executeRedirect.simps [simp del]

text \<open>The result of a call that cannot panic.\<close>

fun lift :: "(bytes + Value) \<times> 'w Router \<Rightarrow> routed \<times> 'w Router" where
  "lift (Inl e, r) = (Inl (Fail e), r)"
| "lift (Inr v, r) = (Inr v, r)"

definition executeOnAnyNode :: "'w netenv \<Rightarrow> bytes list \<Rightarrow> 'w Router \<Rightarrow> (bytes + Value) \<times> 'w Router" where
  "executeOnAnyNode env args r =
     (let masters = AllMasters (rtTopo r); c = rtCounter r + 1
      in if masters = [] then (Inl ''no cluster nodes available'', r)
         else execOnNode env (nAddr (masters ! (unat c mod length masters))) args False (r\<lparr>rtCounter := c\<rparr>))"


section \<open>All masters\<close>

record result =
  resV :: "Value option"
  resErr :: "bytes option"

definition mkResult :: "bytes + Value \<Rightarrow> result" where
  "mkResult x = (case x of Inl e \<Rightarrow> \<lparr>resV = None, resErr = Some e\<rparr> | Inr v \<Rightarrow> \<lparr>resV = Some v, resErr = None\<rparr>)"

definition emptyResult :: result where
  "emptyResult = \<lparr>resV = None, resErr = None\<rparr>"

definition fanOutToMasters :: "'w netenv \<Rightarrow> bytes list \<Rightarrow> 'w Router \<Rightarrow> (bytes + result list) \<times> 'w Router" where
  "fanOutToMasters env args r =
     (let masters = AllMasters (rtTopo r); n = length masters
      in if masters = [] then (Inl ''no cluster nodes available'', r)
         else (case goAll (goOrd env n)
                 (\<lambda>i r. case execOnNode env (nAddr (masters ! i)) args False r of (x, r') \<Rightarrow> (mkResult x, r'))
                 (replicate n emptyResult) r of (rs, r') \<Rightarrow> (Inr rs, r')))"

fun mergeIntegerSum_go :: "int \<Rightarrow> result list \<Rightarrow> routed" where
  "mergeIntegerSum_go tot [] = Inr (IntValue tot)"
| "mergeIntegerSum_go tot (r # rs) =
     (case resErr r of
        Some e \<Rightarrow> Inl (Fail e)
      | None \<Rightarrow>
         mergeIntegerSum_go
           (case resV r of Some v \<Rightarrow> if vType v = TypeInteger then wrap64 (tot + vInteger v) else tot | None \<Rightarrow> tot) rs)"

definition mergeIntegerSum :: "result list \<Rightarrow> routed" where
  "mergeIntegerSum rs = mergeIntegerSum_go 0 rs"

fun mergeArrayConcat_go :: "Value option list \<Rightarrow> result list \<Rightarrow> routed" where
  "mergeArrayConcat_go acc [] = Inr (ArrayV acc)"
| "mergeArrayConcat_go acc (r # rs) =
     (case resErr r of
        Some e \<Rightarrow> Inl (Fail e)
      | None \<Rightarrow>
         mergeArrayConcat_go
           (case resV r of Some v \<Rightarrow> if vType v = TypeArray then acc @ vArray v else acc | None \<Rightarrow> acc) rs)"

definition mergeArrayConcat :: "result list \<Rightarrow> routed" where
  "mergeArrayConcat rs = mergeArrayConcat_go [] rs"

fun mergeOK :: "result list \<Rightarrow> routed" where
  "mergeOK [] = Inr OKValue"
| "mergeOK (r # rs) =
     (case resErr r of
        Some e \<Rightarrow> Inl (Fail e)
      | None \<Rightarrow> (case resV r of Some v \<Rightarrow> if IsError v then Inr v else mergeOK rs | None \<Rightarrow> mergeOK rs))"

fun mergeFirstNonError_go :: "bytes option \<Rightarrow> Value option \<Rightarrow> result list \<Rightarrow> routed" where
  "mergeFirstNonError_go firstErr v0 [] =
     (case firstErr of
        Some e \<Rightarrow> Inl (Fail e)
      | None \<Rightarrow> (case v0 of Some v \<Rightarrow> Inr v | None \<Rightarrow> Inr OKValue))"
| "mergeFirstNonError_go firstErr v0 (r # rs) =
     (case resErr r of
        Some e \<Rightarrow> mergeFirstNonError_go (case firstErr of None \<Rightarrow> Some e | Some e' \<Rightarrow> Some e') v0 rs
      | None \<Rightarrow>
         (case resV r of
            Some v \<Rightarrow> if \<not> IsError v then Inr v else mergeFirstNonError_go firstErr v0 rs
          | None \<Rightarrow> mergeFirstNonError_go firstErr v0 rs))"

text \<open>When nothing else is left, the reply of the first master is returned.\<close>

definition mergeFirstNonError :: "result list \<Rightarrow> routed" where
  "mergeFirstNonError rs = mergeFirstNonError_go None (case rs of [] \<Rightarrow> None | r # _ \<Rightarrow> resV r) rs"

definition executeAllNodes :: "'w netenv \<Rightarrow> bytes list \<Rightarrow> bytes \<Rightarrow> 'w Router \<Rightarrow> routed \<times> 'w Router" where
  "executeAllNodes env args name r =
     (case fanOutToMasters env args r of
        (Inl e, r') \<Rightarrow> (Inl (Fail e), r')
      | (Inr rs, r') \<Rightarrow>
         (if name = ''DBSIZE'' then mergeIntegerSum rs
          else if name = ''KEYS'' then mergeArrayConcat rs
          else if name = ''FLUSHDB'' \<or> name = ''FLUSHALL'' then mergeOK rs
          else if name = ''SCRIPT'' then mergeFirstNonError rs
          else mergeArrayConcat rs, r'))"

text \<open>
  \<^verbatim>\<open>SCRIPT EXISTS\<close>: a script exists when every master has it. A nil element, which the reader never
  produces, would panic.
\<close>

fun shaExists :: "nat \<Rightarrow> result list \<Rightarrow> bool option" where
  "shaExists i [] = Some True"
| "shaExists i (r # rs) =
     (case resV r of
        None \<Rightarrow> Some False
      | Some v \<Rightarrow>
         if vType v \<noteq> TypeArray \<or> i \<ge> length (vArray v) then Some False
         else (case vArray v ! i of
                 None \<Rightarrow> None
               | Some e \<Rightarrow> if vType e \<noteq> TypeInteger \<or> vInteger e = 0 then Some False else shaExists i rs))"

definition executeScriptExists :: "'w netenv \<Rightarrow> bytes list \<Rightarrow> 'w Router \<Rightarrow> routed \<times> 'w Router" where
  "executeScriptExists env args r =
     (case fanOutToMasters env args r of
        (Inl e, r') \<Rightarrow> (Inl (Fail e), r')
      | (Inr rs, r') \<Rightarrow>
         (case List.find (\<lambda>x. resErr x \<noteq> None) rs of
            Some x \<Rightarrow> (case resErr x of Some e \<Rightarrow> (Inl (Fail e), r') | None \<Rightarrow> (Inl Panic, r'))
          | None \<Rightarrow>
             (let numSHAs = length args - 2;
                  ex = map (\<lambda>i. shaExists i rs) [0..<numSHAs]
              in if None \<in> set ex then (Inl Panic, r')
                 else (Inr (ArrayV (map (\<lambda>b. Some (IntValue (if b = Some True then 1 else 0))) ex)), r'))))"

definition executeScript :: "'w netenv \<Rightarrow> bytes list \<Rightarrow> 'w Router \<Rightarrow> routed \<times> 'w Router" where
  "executeScript env args r =
     (if length args < 2 then (Inr (ErrValue ''ERR wrong number of arguments for 'script' command''), r)
      else (let sub = to_upper (args ! 1)
            in if sub = ''LOAD'' \<or> sub = ''FLUSH'' then executeAllNodes env args ''SCRIPT'' r
               else if sub = ''EXISTS'' then executeScriptExists env args r
               else lift (executeOnAnyNode env args r)))"

fun configPairs :: "bytes list \<Rightarrow> Value option list \<Rightarrow> Value option list \<Rightarrow> (bytes list \<times> Value option list) option" where
  "configPairs seen acc (k # v # rest) =
     (case k of
        None \<Rightarrow> None
      | Some kv \<Rightarrow>
         if vStr kv \<in> set seen then configPairs seen acc rest
         else configPairs (vStr kv # seen) (acc @ [k, v]) rest)"
| "configPairs seen acc _ = Some (seen, acc)"

fun mergeConfigGet_go :: "bytes list \<Rightarrow> Value option list \<Rightarrow> result list \<Rightarrow> routed" where
  "mergeConfigGet_go seen acc [] = Inr (ArrayV acc)"
| "mergeConfigGet_go seen acc (r # rs) =
     (case resErr r of
        Some e \<Rightarrow> Inl (Fail e)
      | None \<Rightarrow>
         (case resV r of
            None \<Rightarrow> mergeConfigGet_go seen acc rs
          | Some v \<Rightarrow>
             if IsError v then Inr v
             else if vType v \<noteq> TypeArray then mergeConfigGet_go seen acc rs
             else (case configPairs seen acc (vArray v) of
                     None \<Rightarrow> Inl Panic
                   | Some (seen', acc') \<Rightarrow> mergeConfigGet_go seen' acc' rs)))"

definition mergeConfigGet :: "result list \<Rightarrow> routed" where
  "mergeConfigGet rs = mergeConfigGet_go [] [] rs"

definition executeConfig :: "'w netenv \<Rightarrow> bytes list \<Rightarrow> 'w Router \<Rightarrow> routed \<times> 'w Router" where
  "executeConfig env args r =
     (if length args < 2 then (Inr (ErrValue ''ERR wrong number of arguments for 'config' command''), r)
      else (let sub = to_upper (args ! 1)
            in if sub = ''GET'' \<or> sub = ''SET'' \<or> sub = ''RESETSTAT'' then
                 (case fanOutToMasters env args r of
                    (Inl e, r') \<Rightarrow> (Inl (Fail e), r')
                  | (Inr rs, r') \<Rightarrow> (if sub = ''GET'' then mergeConfigGet rs else mergeOK rs, r'))
               else lift (executeOnAnyNode env args r)))"

definition ExecuteBroadcast :: "'w netenv \<Rightarrow> bytes list \<Rightarrow> 'w Router \<Rightarrow> routed \<times> 'w Router" where
  "ExecuteBroadcast env args r =
     (if length args < 2 then (Inr (ErrValue ''ERR wrong number of arguments for 'broadcast' command''), r)
      else (case fanOutToMasters env (tl args) r of
              (Inl e, r') \<Rightarrow> (Inl (Fail e), r')
            | (Inr rs, r') \<Rightarrow>
               (Inr (ArrayV (map (\<lambda>(n, x). Some (ArrayV [Some (BulkV (nAddr n)),
                  case resErr x of Some e \<Rightarrow> Some (ErrValue (''ERR '' @ e)) | None \<Rightarrow> resV x]))
                  (zip (AllMasters (rtTopo r)) rs))), r')))"

end
