(* ===== verification/Router_Exec.thy ===== *)
theory Router_Exec
  imports Router Alist_Extra
begin

text \<open>
  The second half of \<^verbatim>\<open>src/pkg/router/router.go\<close>: \<^verbatim>\<open>SCAN\<close> over all masters, requests with keys in
  several slots, scripts, the dispatch \<open>Execute\<close>, and pipelines.
\<close>

section \<open>SCAN\<close>

text \<open>
  The cursor that a client sees has the number of the master in its low 16 bits and the node's own
  cursor above; both are 64-bit words.
\<close>

definition scanNodeIndexBits :: nat where "scanNodeIndexBits = 16"
definition scanNodeIndexMask :: "64 word" where "scanNodeIndexMask = 0xFFFF"

definition scanDecode :: "nat \<Rightarrow> nat \<Rightarrow> nat \<times> 64 word" where
  "scanDecode n c =
     (let clientCursor = (of_nat c :: 64 word);
          nodeIdx = unat (clientCursor AND scanNodeIndexMask);
          realCursor = drop_bit scanNodeIndexBits clientCursor
      in if nodeIdx \<ge> n then (0, 0) else (nodeIdx, realCursor))"

definition scanEncode :: "nat \<Rightarrow> nat \<Rightarrow> nat \<Rightarrow> 64 word" where
  "scanEncode n nodeIdx returnedCursor =
     (if returnedCursor \<noteq> 0 then push_bit scanNodeIndexBits (of_nat returnedCursor) OR of_nat nodeIdx
      else if nodeIdx + 1 < n then of_nat (nodeIdx + 1) else 0)"

definition executeSCAN :: "'w netenv \<Rightarrow> bytes list \<Rightarrow> 'w Router \<Rightarrow> routed \<times> 'w Router" where
  "executeSCAN env args r =
     (let masters = AllMasters (rtTopo r) in
      if length args < 2 then (Inr (ErrValue ''ERR wrong number of arguments for 'scan' command''), r)
      else if masters = [] then (Inl (Fail ''no cluster nodes available''), r)
      else (case parse_uint64 (args ! 1) of
         None \<Rightarrow> (Inr (ErrValue ''ERR value is not an integer or out of range''), r)
       | Some c \<Rightarrow>
          (case scanDecode (length masters) c of (nodeIdx, realCursor) \<Rightarrow>
           (case execOnNode env (nAddr (masters ! nodeIdx)) (args[1 := fmt_nat (unat realCursor)]) False r of
                (Inl e, r') \<Rightarrow> (Inl (Fail e), r')
              | (Inr v, r') \<Rightarrow>
                 if IsError v then (Inr v, r')
                 else if vType v \<noteq> TypeArray \<or> length (vArray v) < 2 then (Inr v, r')
                 else (case vArray v ! 0 of
                         None \<Rightarrow> (Inl Panic, r')
                       | Some cv \<Rightarrow>
                          (case parse_uint64 (vStr cv) of
                             None \<Rightarrow> (Inr v, r')
                           | Some rc \<Rightarrow>
                              (Inr (ArrayV [Some (BulkV (fmt_nat (unat (scanEncode (length masters) nodeIdx rc)))),
                                            vArray v ! 1]), r')))))))"


section \<open>Several slots\<close>

text \<open>A sub-request has no command name of its own.\<close>

definition subRequest :: "bytes list \<Rightarrow> Request" where
  "subRequest args = \<lparr>Args = args, Raw = [], Cmd = []\<rparr>"

text \<open>Group positions by a key, groups in the order of their first member.\<close>

definition addGroup :: "('a \<Rightarrow> 'k) \<Rightarrow> 'a \<Rightarrow> ('k \<times> 'a list) list \<Rightarrow> ('k \<times> 'a list) list" where
  "addGroup f x m = AList.update (f x) ((case map_of m (f x) of None \<Rightarrow> [] | Some xs \<Rightarrow> xs) @ [x]) m"

definition groupBy :: "('a \<Rightarrow> 'k) \<Rightarrow> 'a list \<Rightarrow> ('k \<times> 'a list) list" where
  "groupBy f xs = fold (addGroup f) xs []"

text \<open>Write the elements of a reply to the positions of the keys asked for.\<close>

definition place :: "nat list \<Rightarrow> 'a list \<Rightarrow> 'a list \<Rightarrow> 'a list" where
  "place idxs vals results = fold (\<lambda>(i, v) res. res[i := v]) (zip idxs vals) results"

definition keepFirst :: "'e option \<Rightarrow> 'e \<Rightarrow> 'e option" where
  "keepFirst firstErr e = (case firstErr of None \<Rightarrow> Some e | Some e' \<Rightarrow> Some e')"

record 'w mgetState =
  mgResults :: "Value option list"
  mgErr :: "bytes option"
  mgRouter :: "'w Router"

definition mgetGroup :: "'w netenv \<Rightarrow> bytes list \<Rightarrow> nat \<times> nat list \<Rightarrow> 'w mgetState \<Rightarrow> 'w mgetState" where
  "mgetGroup env keys g s =
     (case executeRedirect env (subRequest (''MGET'' # map (\<lambda>i. keys ! i) (snd g))) [] (int (fst g)) False 0 (mgRouter s) of
        (Inl e, r') \<Rightarrow> s\<lparr>mgErr := keepFirst (mgErr s) e, mgRouter := r'\<rparr>
      | (Inr v, r') \<Rightarrow>
         if IsError v then s\<lparr>mgErr := keepFirst (mgErr s) (Error v), mgRouter := r'\<rparr>
         else if vType v = TypeArray then
           s\<lparr>mgResults := place (snd g) (vArray v) (mgResults s), mgRouter := r'\<rparr>
         else s\<lparr>mgRouter := r'\<rparr>)"

definition executeMGET :: "'w netenv \<Rightarrow> bytes list \<Rightarrow> 'w Router \<Rightarrow> routed \<times> 'w Router" where
  "executeMGET env args r =
     (let keys = tl args;
          groups = groupBy (\<lambda>i. HashSlot (keys ! i)) [0..<length keys]
      in if keys = [] then (Inr (ErrValue ''ERR wrong number of arguments for 'mget' command''), r)
         else (let s = goSeq (goOrd env (length groups)) (\<lambda>k. mgetGroup env keys (groups ! k))
                         \<lparr>mgResults = replicate (length keys) None, mgErr = None, mgRouter = r\<rparr>
               in (case mgErr s of Some e \<Rightarrow> Inl (Fail e) | None \<Rightarrow> Inr (ArrayV (mgResults s)), mgRouter s)))"

record 'w msetState =
  msResults :: "result list"
  msRouter :: "'w Router"

definition msetGroup :: "'w netenv \<Rightarrow> bytes \<Rightarrow> bytes list \<Rightarrow> nat \<times> nat list \<Rightarrow> 'w msetState \<Rightarrow> 'w msetState" where
  "msetGroup env name args g s =
     (case executeRedirect env (subRequest (name # concat (map (\<lambda>i. [args ! i, args ! (i + 1)]) (snd g)))) []
             (int (fst g)) False 0 (msRouter s) of
        (x, r') \<Rightarrow> \<lparr>msResults = msResults s @ [mkResult x], msRouter = r'\<rparr>)"

text \<open>The first error among the results, of the call or of the node.\<close>

definition resultError :: "result \<Rightarrow> bytes option" where
  "resultError x =
     (case resErr x of
        Some e \<Rightarrow> Some e
      | None \<Rightarrow> (case resV x of Some v \<Rightarrow> if IsError v then Some (Error v) else None | None \<Rightarrow> None))"

definition keyPositions :: "bytes list \<Rightarrow> nat list" where
  "keyPositions args = map (\<lambda>j. 2 * j + 1) [0..<length args div 2]"

definition executeMSET :: "'w netenv \<Rightarrow> bytes list \<Rightarrow> bytes \<Rightarrow> 'w Router \<Rightarrow> routed \<times> 'w Router" where
  "executeMSET env args name r =
     (let groups = groupBy (\<lambda>i. HashSlot (args ! i)) (keyPositions args) in
      if length args < 3 \<or> (length args - 1) mod 2 \<noteq> 0 then
        (Inr (ErrValue (''ERR wrong number of arguments for '' @ [CHR 0x27] @ to_lower name @ [CHR 0x27] @ '' command'')), r)
      else if name = ''MSETNX'' \<and> length groups > 1 then
        (Inr (ErrValue ''CROSSSLOT MSETNX requires all keys to be in the same slot (atomicity cannot be guaranteed across slots)''), r)
      else
        (let s = goSeq (goOrd env (length groups)) (\<lambda>k. msetGroup env name args (groups ! k))
                   \<lparr>msResults = [], msRouter = r\<rparr>
         in case List.find (\<lambda>x. x \<noteq> None) (map resultError (msResults s)) of
              Some (Some e) \<Rightarrow> (Inl (Fail e), msRouter s)
            | _ \<Rightarrow>
               if name = ''MSETNX'' then
                 (Inr (IntValue (if \<exists>x \<in> set (msResults s). case resV x of None \<Rightarrow> False | Some v \<Rightarrow> vType v = TypeInteger \<and> vInteger v = 0
                                 then 0 else 1)), msRouter s)
               else (Inr OKValue, msRouter s)))"

record 'w intState =
  isTotal :: int
  isErr :: "bytes option"
  isRouter :: "'w Router"

definition intGroup :: "'w netenv \<Rightarrow> bytes \<Rightarrow> nat \<times> bytes list \<Rightarrow> 'w intState \<Rightarrow> 'w intState" where
  "intGroup env cmdName g s =
     (case executeRedirect env (subRequest (cmdName # snd g)) [] (int (fst g)) False 0 (isRouter s) of
        (Inl e, r') \<Rightarrow> s\<lparr>isErr := keepFirst (isErr s) e, isRouter := r'\<rparr>
      | (Inr v, r') \<Rightarrow>
         if vType v = TypeInteger then s\<lparr>isTotal := wrap64 (isTotal s + vInteger v), isRouter := r'\<rparr>
         else s\<lparr>isRouter := r'\<rparr>)"

definition fanOutInteger :: "'w netenv \<Rightarrow> bytes \<Rightarrow> bytes list \<Rightarrow> 'w Router \<Rightarrow> routed \<times> 'w Router" where
  "fanOutInteger env cmdName keys r =
     (let groups = groupBy HashSlot keys;
          s = goSeq (goOrd env (length groups)) (\<lambda>k. intGroup env cmdName (groups ! k))
                \<lparr>isTotal = 0, isErr = None, isRouter = r\<rparr>
      in (case isErr s of Some e \<Rightarrow> Inl (Fail e) | None \<Rightarrow> Inr (IntValue (isTotal s)), isRouter s))"

definition executeDEL :: "'w netenv \<Rightarrow> bytes list \<Rightarrow> bytes \<Rightarrow> 'w Router \<Rightarrow> routed \<times> 'w Router" where
  "executeDEL env args name r =
     (if tl args = [] then
        (Inr (ErrValue (''ERR wrong number of arguments for '' @ [CHR 0x27] @ to_lower name @ [CHR 0x27] @ '' command'')), r)
      else fanOutInteger env name (tl args) r)"

definition executeEXISTS :: "'w netenv \<Rightarrow> bytes list \<Rightarrow> 'w Router \<Rightarrow> routed \<times> 'w Router" where
  "executeEXISTS env args r = fanOutInteger env (hd args) (tl args) r"

definition executeMultiKey :: "'w netenv \<Rightarrow> Request \<Rightarrow> 'w Router \<Rightarrow> routed \<times> 'w Router" where
  "executeMultiKey env req r =
     (let name = to_upper (hd (Args req)) in
      if name = ''MGET'' then executeMGET env (Args req) r
      else if name = ''MSET'' \<or> name = ''MSETNX'' then executeMSET env (Args req) name r
      else if name = ''DEL'' \<or> name = ''UNLINK'' then executeDEL env (Args req) name r
      else if name = ''EXISTS'' \<or> name = ''TOUCH'' then executeEXISTS env (Args req) r
      else (case GetKeys req of
              [] \<Rightarrow> lift (executeOnAnyNode env (Args req) r)
            | k # _ \<Rightarrow> lift (executeRedirect env req [] (int (HashSlot k)) False 0 r)))"


section \<open>Scripts and dispatch\<close>

text \<open>
  The number of keys is added in 64 bits, so a huge one passes the length check; the access to
  the first key then panics when there is none.
\<close>

definition ExecScript :: "'w netenv \<Rightarrow> Request \<Rightarrow> 'w Router \<Rightarrow> routed \<times> 'w Router" where
  "ExecScript env req r =
     (let args = Args req; argc = int (length args) in
      if length args < 3 then (Inr (ErrValue ''ERR wrong number of arguments for EVAL''), r)
      else (case Atoi (args ! 2) of
         None \<Rightarrow> (Inr (ErrValue ''ERR value is not an integer or out of range''), r)
       | Some numKeys \<Rightarrow>
          if numKeys < 0 then (Inr (ErrValue ''ERR value is not an integer or out of range''), r)
          else if numKeys = 0 then lift (executeOnAnyNode env args r)
          else if argc < wrap64 (3 + numKeys) then (Inr (ErrValue ''ERR wrong number of arguments for EVAL''), r)
          else if length args \<le> 3 then (Inl Panic, r)
          else (let slot = HashSlot (args ! 3)
                in if \<exists>k \<in> set (take (nat (wrap64 (3 + numKeys) - 4)) (drop 4 args)). HashSlot k \<noteq> slot
                   then (Inr (ErrValue ''CROSSSLOT Keys in script don't hash to the same slot''), r)
                   else lift (executeRedirect env req [] (int slot) False 0 r))))"

definition getFirstKey :: "bytes list \<Rightarrow> CmdInfo \<Rightarrow> bytes option" where
  "getFirstKey args info =
     (let k = FirstKey (ciKeySpec info) in if k \<le> 0 \<or> k \<ge> int (length args) then None else Some (args ! nat k))"

definition unknownCommand :: "bytes \<Rightarrow> Value" where
  "unknownCommand name =
     ErrValue (''ERR unknown command '' @ [CHR 0x27] @ to_lower name @ [CHR 0x27] @ '', with args beginning with: '')"

definition notSupported :: "bytes \<Rightarrow> bytes" where
  "notSupported name = ''ERR command '' @ [CHR 0x27] @ to_lower name @ [CHR 0x27] @ '' is not supported in cluster proxy''"

definition Execute :: "'w netenv \<Rightarrow> Request \<Rightarrow> 'w Router \<Rightarrow> routed \<times> 'w Router" where
  "Execute env req r =
     (if Args req = [] then (Inl (Fail ''empty request''), r)
      else (let args = Args req; name = to_upper (hd args) in
        case GetCmdInfo name of
          None \<Rightarrow> (Inr (unknownCommand name), r)
        | Some info \<Rightarrow>
           if IsNotAllowed (Some info) then (Inr (ErrValue (notSupported name)), r)
           else if name = ''SCAN'' then executeSCAN env args r
           else if name = ''SCRIPT'' then executeScript env args r
           else if name = ''CONFIG'' then executeConfig env args r
           else if name = ''BROADCAST'' then ExecuteBroadcast env args r
           else if IsAllNodes (Some info) then executeAllNodes env args name r
           else if IsMultiKey (Some info) then executeMultiKey env req r
           else (case getFirstKey args info of
                   None \<Rightarrow> lift (executeOnAnyNode env args r)
                 | Some key \<Rightarrow> lift (executeRedirect env req [] (int (HashSlot key)) False 0 r))))"

end
