(* ===== verification/Router_Correct.thy ===== *)
theory Router_Correct
  imports Router_Exec "HOL-Library.Sublist"
begin

text \<open>
  Properties of the router: redirections and retries are bounded, requests over several slots
  have the effect of one request on one store whatever the order of the goroutines, and a \<^verbatim>\<open>SCAN\<close>
  through the proxy visits all the masters.
\<close>

section \<open>Groups and goroutines\<close>

lemma map_of_fold_addGroup:
  "map_of (fold (addGroup f) xs m) k =
     (let ys = filter (\<lambda>x. f x = k) xs
      in case map_of m k of None \<Rightarrow> if ys = [] then None else Some ys | Some zs \<Rightarrow> Some (zs @ ys))"
proof (induction xs arbitrary: m)
  case Nil
  then show ?case by (simp split: option.split)
next
  case (Cons x xs)
  then show ?case by (auto simp: addGroup_def update_conv' Let_def split: option.split)
qed

lemma keys_ok_groupBy: "keys_ok (groupBy f xs)"
proof -
  have "keys_ok m \<Longrightarrow> keys_ok (fold (addGroup f) xs m)" for m
    by (induction xs arbitrary: m) (auto simp: addGroup_def)
  then show ?thesis by (simp add: groupBy_def)
qed

lemma groupBy_member: "(k, ys) \<in> set (groupBy f xs) \<longleftrightarrow> ys = filter (\<lambda>x. f x = k) xs \<and> ys \<noteq> []"
proof -
  have "(k, ys) \<in> set (groupBy f xs) \<longleftrightarrow> map_of (groupBy f xs) k = Some ys"
    using keys_ok_groupBy [of f xs] by (auto simp: keys_ok_def)
  then show ?thesis by (auto simp: groupBy_def map_of_fold_addGroup Let_def)
qed

lemma groupBy_nth:
  assumes "g < length (groupBy f xs)"
  shows "snd (groupBy f xs ! g) = filter (\<lambda>x. f x = fst (groupBy f xs ! g)) xs" "snd (groupBy f xs ! g) \<noteq> []"
proof -
  have "(fst (groupBy f xs ! g), snd (groupBy f xs ! g)) \<in> set (groupBy f xs)" using assms by simp
  then show "snd (groupBy f xs ! g) = filter (\<lambda>x. f x = fst (groupBy f xs ! g)) xs" "snd (groupBy f xs ! g) \<noteq> []"
    unfolding groupBy_member by blast+
qed

lemma groupBy_covers: "x \<in> set xs \<Longrightarrow> \<exists>g < length (groupBy f xs). fst (groupBy f xs ! g) = f x"
proof -
  assume "x \<in> set xs"
  then have "(f x, filter (\<lambda>y. f y = f x) xs) \<in> set (groupBy f xs)"
    unfolding groupBy_member by (auto simp: filter_empty_conv)
  then show ?thesis by (metis fst_conv in_set_conv_nth)
qed

lemma groupBy_distinct:
  "g < length (groupBy f xs) \<Longrightarrow> h < length (groupBy f xs) \<Longrightarrow>
   fst (groupBy f xs ! g) = fst (groupBy f xs ! h) \<Longrightarrow> g = h"
  using keys_ok_groupBy [of f xs] by (auto simp: keys_ok_def distinct_conv_nth)

text \<open>The order in which goroutines finish: any permutation.\<close>

definition perm_order :: "(nat \<Rightarrow> nat list) \<Rightarrow> bool" where
  "perm_order ord \<longleftrightarrow> (\<forall>n. distinct (ord n) \<and> set (ord n) = {..<n})"

lemma goSeq_inv:
  assumes "\<And>i s S. i \<in> set is \<Longrightarrow> i \<notin> S \<Longrightarrow> Inv S s \<Longrightarrow> Inv (insert i S) (f i s)"
    "Inv S s" "distinct is" "set is \<inter> S = {}"
  shows "Inv (S \<union> set is) (goSeq is f s)"
  using assms
proof (induction "is" arbitrary: S s)
  case (Cons i "is")
  have "Inv (insert i S \<union> set is) (goSeq is f (f i s))"
    by (rule Cons.IH) (use Cons.prems in auto)
  then show ?case by simp
qed simp

lemma goSeq_all:
  assumes "perm_order ord" "\<And>i s S. i < n \<Longrightarrow> i \<notin> S \<Longrightarrow> S \<subseteq> {..<n} \<Longrightarrow> Inv S s \<Longrightarrow> Inv (insert i S) (f i s)" "Inv {} s"
  shows "Inv {..<n} (goSeq (ord n) f s)"
proof -
  have "{} \<union> set (ord n) \<subseteq> {..<n} \<and> Inv ({} \<union> set (ord n)) (goSeq (ord n) f s)"
    by (rule goSeq_inv [where Inv = "\<lambda>S s. S \<subseteq> {..<n} \<and> Inv S s"]) (use assms in \<open>auto simp: perm_order_def\<close>)
  then show ?thesis using assms(1) by (simp add: perm_order_def)
qed

lemma place_map:
  "place idxs (map g idxs) res ! i = (if i \<in> set idxs \<and> i < length res then g i else res ! i)"
  "length (place idxs vals res) = length res"
proof -
  show "length (place idxs vals res) = length res" for vals :: "'a list"
    unfolding place_def
  proof (induction idxs arbitrary: vals res)
    case (Cons j js)
    then show ?case by (cases vals) auto
  qed simp
  show "place idxs (map g idxs) res ! i = (if i \<in> set idxs \<and> i < length res then g i else res ! i)"
    unfolding place_def
  proof (induction idxs arbitrary: res)
    case (Cons j js)
    show ?case
    proof (cases "j < length res")
      case True
      then show ?thesis using Cons by (auto simp: nth_list_update)
    next
      case False
      then show ?thesis using Cons by (auto simp: list_update_beyond)
    qed
  qed simp
qed


section \<open>One request\<close>

lemma GetCmdInfo_empty [simp]: "GetCmdInfo [] = None"
  by code_simp

lemma isReadCmd_empty [simp]: "isReadCmd [] = False"
  by (simp add: isReadCmd_def)

lemma nodeAddrForSlot_write:
  "GetNodeForSlot (rtTopo r) slot = Some n \<Longrightarrow> nodeAddrForSlot r slot False = (Inr (nAddr n), r)"
  by (simp add: nodeAddrForSlot_def Let_def)

lemma execAttempts_answer:
  assumes "pipeDo env addr (routerIsReplicaAddr r addr) (EncodeCommandBytes args) (rtWorld r) = (Inr v, w)"
    "\<not> IsError v"
  shows "execAttempts env addr args False k r = (Inr v, r\<lparr>rtWorld := w\<rparr>)"
  using assms by (cases k) (simp_all add: execOnNodeOnce_def IsClusterDownError_def IsLoadingError_def Let_def)

lemma executeRedirect_answer:
  assumes "GetNodeForSlot (rtTopo r) slot = Some n"
    and "pipeDo env (nAddr n) (routerIsReplicaAddr r (nAddr n)) (EncodeCommandBytes args) (rtWorld r) = (Inr v, w)"
    and "\<not> IsError v"
  shows "executeRedirect env (subRequest args) [] slot False 0 r = (Inr v, r\<lparr>rtWorld := w\<rparr>)"
proof -
  have "\<not> IsMovedError v" "\<not> IsAskError v" using assms(3) by (simp_all add: IsMovedError_def IsAskError_def)
  then show ?thesis
    using nodeAddrForSlot_write [OF assms(1)] execAttempts_answer [OF assms(2,3)]
    by (subst executeRedirect.simps) (simp add: subRequest_def execOnNode_def)
qed



section \<open>Several slots act as one store\<close>

text \<open>
  What the nodes promise for some of a request's keys, all in one slot, sent to the owner of this
  slot: a pipelined \<^verbatim>\<open>MGET\<close> returns the values of its keys in order, a pipelined \<^verbatim>\<open>MSET\<close> sets its
  keys one after the other, and \<^verbatim>\<open>EXISTS\<close> counts the keys that are set. Nothing is promised for a
  command on two slots or for another node. The data of all the nodes together is \<open>db w\<close>.
\<close>

type_synonym store = "bytes \<Rightarrow> bytes option"

definition setAll :: "(bytes \<times> bytes) list \<Rightarrow> store \<Rightarrow> store" where
  "setAll kvs m = fold (\<lambda>(k, v) m. m(k \<mapsto> v)) kvs m"

definition flat :: "(bytes \<times> bytes) list \<Rightarrow> bytes list" where
  "flat kvs = concat (map (\<lambda>(k, v). [k, v]) kvs)"

definition owner :: "Topology \<Rightarrow> bytes \<Rightarrow> bytes list \<Rightarrow> bool" where
  "owner t addr ks \<longleftrightarrow> ks \<noteq> [] \<and>
     (\<exists>slot n. GetNodeForSlot t (int slot) = Some n \<and> nAddr n = addr \<and> (\<forall>k \<in> set ks. HashSlot k = slot))"

definition serves_MGET :: "'w netenv \<Rightarrow> Topology \<Rightarrow> bytes list \<Rightarrow> ('w \<Rightarrow> store) \<Rightarrow> bool" where
  "serves_MGET env t keys db \<longleftrightarrow> (\<forall>addr ro ks w. subseq ks keys \<longrightarrow> owner t addr ks \<longrightarrow> (\<exists>w'.
     pipeDo env addr ro (EncodeCommandBytes (''MGET'' # ks)) w = (Inr (ArrayV (map (Some \<circ> BulkValue \<circ> db w) ks)), w') \<and>
     db w' = db w))"

definition serves_MSET :: "'w netenv \<Rightarrow> Topology \<Rightarrow> (bytes \<times> bytes) list \<Rightarrow> ('w \<Rightarrow> store) \<Rightarrow> bool" where
  "serves_MSET env t pairs db \<longleftrightarrow> (\<forall>addr ro kvs w. subseq kvs pairs \<longrightarrow> owner t addr (map fst kvs) \<longrightarrow> (\<exists>w'.
     pipeDo env addr ro (EncodeCommandBytes (''MSET'' # flat kvs)) w = (Inr OKValue, w') \<and>
     db w' = setAll kvs (db w)))"

definition serves_EXISTS :: "'w netenv \<Rightarrow> Topology \<Rightarrow> bytes list \<Rightarrow> ('w \<Rightarrow> store) \<Rightarrow> bool" where
  "serves_EXISTS env t keys db \<longleftrightarrow> (\<forall>addr ro ks w. subseq ks keys \<longrightarrow> owner t addr ks \<longrightarrow> (\<exists>w'.
     pipeDo env addr ro (EncodeCommandBytes (''EXISTS'' # ks)) w =
       (Inr (IntValue (int (length (filter (\<lambda>k. db w k \<noteq> None) ks)))), w') \<and> db w' = db w))"

definition slots_served :: "Topology \<Rightarrow> bytes list \<Rightarrow> bool" where
  "slots_served t keys \<longleftrightarrow> (\<forall>k \<in> set keys. GetNodeForSlot t (int (HashSlot k)) \<noteq> None)"

lemma not_IsError [simp]: "\<not> IsError (ArrayV a)" "\<not> IsError (IntValue n)" "\<not> IsError OKValue"
  by (simp_all add: IsError_def value_defs)

lemma group_served:
  assumes "slots_served t keys" "g < length (groupBy f xs)" "\<And>x. x \<in> set xs \<Longrightarrow> key x \<in> set keys \<and> f x = HashSlot (key x)"
  shows "\<exists>n. GetNodeForSlot t (int (fst (groupBy f xs ! g))) = Some n"
proof -
  from groupBy_nth [OF assms(2)] obtain x where "x \<in> set xs" "f x = fst (groupBy f xs ! g)"
    by (metis (mono_tags, lifting) filter_empty_conv)
  with assms(1,3) show ?thesis unfolding slots_served_def by (metis option.exhaust)
qed

lemma map_nth_filter: "map ((!) xs) (filter (\<lambda>i. P (xs ! i)) [0..<length xs]) = filter P xs"
proof -
  have "map ((!) xs) (filter (P \<circ> (!) xs) [0..<length xs]) = filter P (map ((!) xs) [0..<length xs])"
    by (simp add: filter_map)
  then show ?thesis by (simp add: map_nth comp_def)
qed

lemma mgetGroup_answer:
  assumes "serves_MGET env t keys db" "GetNodeForSlot (rtTopo (mgRouter s)) (int slot) = Some n" "rtTopo (mgRouter s) = t"
    and idxs: "idxs = filter (\<lambda>i. HashSlot (keys ! i) = slot) [0..<length keys]" "idxs \<noteq> []"
  shows "\<exists>w'. mgetGroup env keys (slot, idxs) s =
      s\<lparr>mgResults := place idxs (map (\<lambda>i. Some (BulkValue (db (rtWorld (mgRouter s)) (keys ! i)))) idxs) (mgResults s),
        mgRouter := (mgRouter s)\<lparr>rtWorld := w'\<rparr>\<rparr> \<and> db w' = db (rtWorld (mgRouter s))"
proof -
  let ?ks = "map (\<lambda>i. keys ! i) idxs" and ?w = "rtWorld (mgRouter s)"
  obtain w' where w': "pipeDo env (nAddr n) (routerIsReplicaAddr (mgRouter s) (nAddr n)) (EncodeCommandBytes (''MGET'' # ?ks)) ?w =
      (Inr (ArrayV (map (Some \<circ> BulkValue \<circ> db ?w) ?ks)), w')" "db w' = db ?w"
  proof -
    have ks: "?ks = filter (\<lambda>k. HashSlot k = slot) keys" using map_nth_filter [of keys] idxs(1) by simp
    then have "subseq ?ks keys" by simp
    moreover have "owner t (nAddr n) ?ks" using ks idxs(2) assms(2,3) unfolding owner_def by force
    ultimately show ?thesis using assms(1) that unfolding serves_MGET_def by blast
  qed
  from executeRedirect_answer [OF assms(2) w'(1)] w'(2) show ?thesis
    by (intro exI [of _ w']) (simp add: mgetGroup_def ArrayV_def IsError_def comp_def)
qed

lemma executeMGET_store:
  assumes "serves_MGET env (rtTopo r) keys db" "perm_order (goOrd env)" "slots_served (rtTopo r) keys" "keys \<noteq> []"
  shows "\<exists>r'. executeMGET env (''MGET'' # keys) r = (Inr (ArrayV (map (Some \<circ> BulkValue \<circ> db (rtWorld r)) keys)), r') \<and>
    rtTopo r' = rtTopo r \<and> db (rtWorld r') = db (rtWorld r)"
proof -
  let ?gs = "groupBy (\<lambda>i. HashSlot (keys ! i)) [0..<length keys]"
  let ?val = "\<lambda>i. Some (BulkValue (db (rtWorld r) (keys ! i)))"
  let ?s0 = "\<lparr>mgResults = replicate (length keys) None, mgErr = None, mgRouter = r\<rparr>"
  define s where "s = goSeq (goOrd env (length ?gs)) (\<lambda>k. mgetGroup env keys (?gs ! k)) ?s0"
  let ?Inv = "\<lambda>S s. length (mgResults s) = length keys \<and> mgErr s = None \<and> rtTopo (mgRouter s) = rtTopo r \<and>
      db (rtWorld (mgRouter s)) = db (rtWorld r) \<and>
      (\<forall>g \<in> S. \<forall>i \<in> set (snd (?gs ! g)). mgResults s ! i = ?val i)"
  have "?Inv {..<length ?gs} s"
    unfolding s_def
  proof (rule goSeq_all [OF assms(2), where Inv = ?Inv])
    fix g S and s :: "'a mgetState" assume g: "g < length ?gs" and inv: "?Inv S s"
    obtain n where n: "GetNodeForSlot (rtTopo r) (int (fst (?gs ! g))) = Some n"
      using group_served [OF assms(3) g, of "\<lambda>i. keys ! i"] by auto
    obtain w' where w': "mgetGroup env keys (?gs ! g) s = s\<lparr>mgResults := place (snd (?gs ! g)) (map ?val (snd (?gs ! g))) (mgResults s),
        mgRouter := (mgRouter s)\<lparr>rtWorld := w'\<rparr>\<rparr>" "db w' = db (rtWorld r)"
      using mgetGroup_answer [OF assms(1) _ _ groupBy_nth [OF g], of s n] inv n by auto
    have "set (snd (?gs ! g)) \<subseteq> {..<length keys}" using groupBy_nth(1) [OF g] by auto
    then show "?Inv (insert g S) (mgetGroup env keys (?gs ! g) s)"
      using inv w' by (auto simp: place_map)
  qed auto
  then have inv: "?Inv {..<length ?gs} s" .
  have "mgResults s = map ?val [0..<length keys]"
  proof (rule nth_equalityI)
    show "length (mgResults s) = length (map ?val [0..<length keys])" using inv by simp
    fix i assume "i < length (mgResults s)"
    then have i: "i < length keys" using inv by simp
    then obtain g where g: "g < length ?gs" "fst (?gs ! g) = HashSlot (keys ! i)"
      using groupBy_covers [of i "[0..<length keys]"] by auto
    then have "i \<in> set (snd (?gs ! g))" using groupBy_nth(1) [OF g(1)] i by simp
    then show "mgResults s ! i = map ?val [0..<length keys] ! i" using inv g(1) i by simp
  qed
  also have "\<dots> = map (Some \<circ> BulkValue \<circ> db (rtWorld r)) keys" by (rule nth_equalityI) auto
  finally show ?thesis using inv assms(4) by (simp add: executeMGET_def Let_def s_def [symmetric])
qed


text \<open>Setting keys: only the pairs of a key's own slot matter for the key.\<close>

lemma setAll_simps [simp]:
  "setAll [] m = m" "setAll (kv # kvs) m = setAll kvs (m(fst kv \<mapsto> snd kv))" "setAll (xs @ ys) m = setAll ys (setAll xs m)"
  by (auto simp: setAll_def split: prod.splits)

lemma setAll_cong: "m k = m' k \<Longrightarrow> setAll kvs m k = setAll kvs m' k"
proof (induction kvs arbitrary: m m')
  case (Cons kv kvs)
  have "setAll kvs (m(fst kv \<mapsto> snd kv)) k = setAll kvs (m'(fst kv \<mapsto> snd kv)) k"
    by (rule Cons.IH) (simp add: Cons.prems)
  then show ?case by simp
qed simp

lemma setAll_filter:
  "(\<And>v. Q (k, v)) \<Longrightarrow> setAll (filter Q kvs) m k = setAll kvs m k"
proof (induction kvs arbitrary: m)
  case (Cons kv kvs)
  show ?case
  proof (cases "Q kv")
    case True
    with Cons show ?thesis by simp
  next
    case False
    then have "fst kv \<noteq> k" using Cons.prems by (cases kv) auto
    then have "setAll kvs (m(fst kv \<mapsto> snd kv)) k = setAll kvs m k" by (intro setAll_cong) simp
    with False Cons show ?thesis by simp
  qed
qed simp

lemma setAll_notin: "k \<notin> fst ` set kvs \<Longrightarrow> setAll kvs m k = m k"
  by (induction kvs arbitrary: m) auto

lemma setAll_other: "(\<And>v. \<not> Q (k, v)) \<Longrightarrow> setAll (filter Q kvs) m k = m k"
  by (rule setAll_notin) auto

lemma flat_simps [simp]: "flat [] = []" "flat (kv # kvs) = fst kv # snd kv # flat kvs"
  by (auto simp: flat_def split: prod.splits)

lemma length_flat [simp]: "length (flat kvs) = 2 * length kvs"
  by (induction kvs) auto

lemma flat_nth: "j < length kvs \<Longrightarrow> flat kvs ! (2 * j) = fst (kvs ! j) \<and> flat kvs ! (2 * j + 1) = snd (kvs ! j)"
  by (induction kvs arbitrary: j) (auto simp: nth_Cons split: nat.splits)

lemma keyPositions_flat: "keyPositions (cmd # flat kvs) = map (\<lambda>j. 2 * j + 1) [0..<length kvs]"
  by (simp add: keyPositions_def)

text \<open>The arguments of the sub-request for a slot are the pairs of this slot.\<close>

lemma group_args:
  "concat (map (\<lambda>i. [(cmd # flat kvs) ! i, (cmd # flat kvs) ! (i + 1)])
     (filter (\<lambda>i. HashSlot ((cmd # flat kvs) ! i) = slot) (keyPositions (cmd # flat kvs)))) =
   flat (filter (\<lambda>p. HashSlot (fst p) = slot) kvs)"
proof -
  let ?a = "cmd # flat kvs" and ?h = "\<lambda>j. 2 * j + (1::nat)" and ?Q = "\<lambda>j. HashSlot (fst (kvs ! j)) = slot"
  have a: "?a ! ?h j = fst (kvs ! j)" "?a ! (?h j + 1) = snd (kvs ! j)" if "j < length kvs" for j
    using flat_nth [OF that] by simp_all
  have "filter (\<lambda>i. HashSlot (?a ! i) = slot) (keyPositions ?a) = map ?h (filter ?Q [0..<length kvs])"
    unfolding keyPositions_flat filter_map using a(1) by (intro arg_cong [where f = "map ?h"] filter_cong) auto
  then have "concat (map (\<lambda>i. [?a ! i, ?a ! (i + 1)]) (filter (\<lambda>i. HashSlot (?a ! i) = slot) (keyPositions ?a))) =
      concat (map (\<lambda>j. [?a ! ?h j, ?a ! (?h j + 1)]) (filter ?Q [0..<length kvs]))"
    by (simp add: comp_def del: nth_Cons_Suc)
  also have "\<dots> = concat (map (\<lambda>j. [fst (kvs ! j), snd (kvs ! j)]) (filter ?Q [0..<length kvs]))"
    using a by (intro arg_cong [where f = concat] map_cong) auto
  also have "\<dots> = flat (map ((!) kvs) (filter ?Q [0..<length kvs]))"
    by (simp add: flat_def comp_def split_beta)
  also have "map ((!) kvs) (filter ?Q [0..<length kvs]) = filter (\<lambda>p. HashSlot (fst p) = slot) (map ((!) kvs) [0..<length kvs])"
    by (simp add: filter_map comp_def)
  finally show ?thesis by (simp add: map_nth)
qed

lemma executeMSET_store:
  assumes "serves_MSET env (rtTopo r) kvs db" "perm_order (goOrd env)" "slots_served (rtTopo r) (map fst kvs)" "kvs \<noteq> []"
  shows "\<exists>r'. executeMSET env (''MSET'' # flat kvs) ''MSET'' r = (Inr OKValue, r') \<and>
    rtTopo r' = rtTopo r \<and> db (rtWorld r') = setAll kvs (db (rtWorld r))"
proof -
  let ?a = "''MSET'' # flat kvs" and ?m = "db (rtWorld r)"
  define gs where "gs = groupBy (\<lambda>i. HashSlot (?a ! i)) (keyPositions ?a)"
  define s where "s = goSeq (goOrd env (length gs)) (\<lambda>k. msetGroup env ''MSET'' ?a (gs ! k)) \<lparr>msResults = [], msRouter = r\<rparr>"
  let ?Inv = "\<lambda>S s. rtTopo (msRouter s) = rtTopo r \<and> set (msResults s) \<subseteq> {mkResult (Inr OKValue)} \<and>
      db (rtWorld (msRouter s)) = (\<lambda>k. if \<exists>g \<in> S. fst (gs ! g) = HashSlot k then setAll kvs ?m k else ?m k)"
  have key: "?a ! i \<in> set (map fst kvs)" if "i \<in> set (keyPositions ?a)" for i
    using that flat_nth unfolding keyPositions_flat by (force simp: set_conv_nth)
  have "?Inv {..<length gs} s"
    unfolding s_def
  proof (rule goSeq_all [OF assms(2), where Inv = ?Inv])
    fix g S and s :: "'a msetState"
    assume g: "g < length gs" "g \<notin> S" "S \<subseteq> {..<length gs}" and inv: "?Inv S s"
    let ?sl = "fst (gs ! g)" and ?w = "rtWorld (msRouter s)"
    let ?ps = "filter (\<lambda>p. HashSlot (fst p) = ?sl) kvs"
    obtain n where n: "GetNodeForSlot (rtTopo r) (int ?sl) = Some n"
      using group_served [OF assms(3) g(1) [unfolded gs_def], of "\<lambda>i. ?a ! i"] key by (auto simp: gs_def)
    have args: "concat (map (\<lambda>i. [?a ! i, ?a ! (i + 1)]) (snd (gs ! g))) = flat ?ps"
      unfolding groupBy_nth(1) [OF g(1) [unfolded gs_def], folded gs_def] by (rule group_args)
    have "snd (gs ! g) \<noteq> []" using groupBy_nth(2) g(1) unfolding gs_def by blast
    with args have "?ps \<noteq> []" by (cases "snd (gs ! g)") (auto simp: flat_def)
    then have "owner (rtTopo r) (nAddr n) (map fst ?ps)" using n unfolding owner_def by force
    then obtain w' where w': "pipeDo env (nAddr n) (routerIsReplicaAddr (msRouter s) (nAddr n)) (EncodeCommandBytes (''MSET'' # flat ?ps)) ?w =
        (Inr OKValue, w')" "db w' = setAll ?ps (db ?w)"
      using assms(1) subseq_filter_left unfolding serves_MSET_def by blast
    note args
    moreover have "executeRedirect env (subRequest (''MSET'' # flat ?ps)) [] (int ?sl) False 0 (msRouter s) =
        (Inr OKValue, (msRouter s)\<lparr>rtWorld := w'\<rparr>)"
      by (rule executeRedirect_answer) (use n inv w' in auto)
    ultimately have step: "msetGroup env ''MSET'' ?a (gs ! g) s =
        \<lparr>msResults = msResults s @ [mkResult (Inr OKValue)], msRouter = (msRouter s)\<lparr>rtWorld := w'\<rparr>\<rparr>"
      unfolding msetGroup_def by simp
    have "db w' k = (if \<exists>h \<in> insert g S. fst (gs ! h) = HashSlot k then setAll kvs ?m k else ?m k)" for k
    proof (cases "?sl = HashSlot k")
      case True
      have "fst (gs ! h) \<noteq> HashSlot k" if "h \<in> S" for h
        using groupBy_distinct [of g "\<lambda>i. HashSlot (?a ! i)" "keyPositions ?a" h] g that True
        by (metis gs_def lessThan_iff subsetD)
      then have "db ?w k = ?m k" using inv by auto
      moreover have "setAll ?ps (db ?w) k = setAll kvs (db ?w) k" using True by (intro setAll_filter) simp
      ultimately show ?thesis using True w'(2) setAll_cong [of "db ?w" k ?m kvs] by simp
    next
      case False
      then have "setAll ?ps (db ?w) k = db ?w k" by (intro setAll_other) simp
      then show ?thesis using False w'(2) inv by simp
    qed
    then show "?Inv (insert g S) (msetGroup env ''MSET'' ?a (gs ! g) s)"
      unfolding step using inv by auto
  qed auto
  then have inv: "?Inv {..<length gs} s" .
  have "db (rtWorld (msRouter s)) = setAll kvs ?m"
  proof
    fix k show "db (rtWorld (msRouter s)) k = setAll kvs ?m k"
    proof (cases "k \<in> fst ` set kvs")
      case True
      then obtain j where "j < length kvs" "fst (kvs ! j) = k" by (auto simp: set_conv_nth)
      then have "2 * j + 1 \<in> set (keyPositions ?a)" "?a ! (2 * j + 1) = k" using flat_nth [of j kvs] by (auto simp: keyPositions_flat)
      with groupBy_covers [of "2 * j + 1" "keyPositions ?a" "\<lambda>i. HashSlot (?a ! i)"] show ?thesis using inv by (auto simp: gs_def)
    next
      case False
      then have "setAll kvs ?m k = ?m k" by (rule setAll_notin)
      then show ?thesis using inv by simp
    qed
  qed
  moreover have "List.find (\<lambda>x. x \<noteq> None) (map resultError (msResults s)) = None"
    using inv by (auto simp: find_None_iff resultError_def mkResult_def)
  ultimately show ?thesis
    using inv assms(4) by (simp add: executeMSET_def Let_def gs_def [symmetric] s_def [symmetric])
qed


lemma groupBy_count: "vsum (\<lambda>ys. length (filter P ys)) (groupBy f xs) = length (filter P xs)"
proof -
  let ?F = "\<lambda>ys. length (filter P ys)"
  have "keys_ok m \<Longrightarrow> vsum ?F (fold (addGroup f) xs m) = vsum ?F m + length (filter P xs)" for m
  proof (induction xs arbitrary: m)
    case (Cons x xs)
    have ok: "keys_ok (addGroup f x m)" using Cons.prems by (simp add: addGroup_def)
    have "vsum ?F (addGroup f x m) = vsum ?F m + length (filter P [x])"
    proof (cases "map_of m (f x)")
      case None
      then show ?thesis by (simp add: addGroup_def vsum_update_None)
    next
      case (Some ys)
      from vsum_update_Some [OF Cons.prems Some, of ?F "ys @ [x]"] Some show ?thesis by (simp add: addGroup_def)
    qed
    then show ?case using Cons.IH [OF ok] by simp
  qed simp
  then show ?thesis by (simp add: groupBy_def)
qed

lemma executeEXISTS_store:
  assumes "serves_EXISTS env (rtTopo r) keys db" "perm_order (goOrd env)" "slots_served (rtTopo r) keys" "length keys < 2 ^ 63"
  shows "\<exists>r'. executeEXISTS env (''EXISTS'' # keys) r =
    (Inr (IntValue (int (length (filter (\<lambda>k. db (rtWorld r) k \<noteq> None) keys)))), r')"
proof -
  let ?P = "\<lambda>k. db (rtWorld r) k \<noteq> None"
  define gs where "gs = groupBy HashSlot keys"
  define cnt where "cnt g = int (length (filter ?P (snd (gs ! g))))" for g
  have total: "sum cnt {..<length gs} = int (length (filter ?P keys))"
    using groupBy_count [of ?P HashSlot keys]
    by (simp add: gs_def [symmetric] vsum_def cnt_def sum_list_sum_nth atLeast0LessThan flip: of_nat_sum)
  have bound: "in_int64 (sum cnt S)" if "S \<subseteq> {..<length gs}" for S
  proof -
    have "0 \<le> sum cnt S" "sum cnt S \<le> sum cnt {..<length gs}"
      using that by (auto simp: cnt_def intro: sum_nonneg sum_mono2)
    moreover have "length (filter ?P keys) < 2 ^ 63" using length_filter_le assms(4) by (rule le_less_trans)
    then have "int (length (filter ?P keys)) < 2 ^ 63" by simp
    ultimately show ?thesis by (simp add: in_int64_def total)
  qed
  define s where "s = goSeq (goOrd env (length gs)) (\<lambda>k. intGroup env ''EXISTS'' (gs ! k)) \<lparr>isTotal = 0, isErr = None, isRouter = r\<rparr>"
  let ?Inv = "\<lambda>S s. isTotal s = sum cnt S \<and> isErr s = None \<and> rtTopo (isRouter s) = rtTopo r \<and>
      db (rtWorld (isRouter s)) = db (rtWorld r)"
  have "?Inv {..<length gs} s"
    unfolding s_def
  proof (rule goSeq_all [OF assms(2), where Inv = ?Inv])
    fix g S and s :: "'a intState"
    assume g: "g < length gs" "g \<notin> S" "S \<subseteq> {..<length gs}" and inv: "?Inv S s"
    obtain n where n: "GetNodeForSlot (rtTopo r) (int (fst (gs ! g))) = Some n"
      using group_served [OF assms(3) g(1) [unfolded gs_def], of id] by (auto simp: gs_def)
    have ks: "snd (gs ! g) = filter (\<lambda>k. HashSlot k = fst (gs ! g)) keys" "snd (gs ! g) \<noteq> []"
      using groupBy_nth g(1) unfolding gs_def by blast+
    then have "owner (rtTopo r) (nAddr n) (snd (gs ! g))" using n unfolding owner_def by force
    moreover have "subseq (snd (gs ! g)) keys" unfolding ks(1) by (rule subseq_filter_left)
    ultimately obtain w' where w': "pipeDo env (nAddr n) (routerIsReplicaAddr (isRouter s) (nAddr n))
        (EncodeCommandBytes (''EXISTS'' # snd (gs ! g))) (rtWorld (isRouter s)) = (Inr (IntValue (cnt g)), w')" "db w' = db (rtWorld r)"
      using assms(1) inv unfolding serves_EXISTS_def cnt_def by metis
    have "executeRedirect env (subRequest (''EXISTS'' # snd (gs ! g))) [] (int (fst (gs ! g))) False 0 (isRouter s) =
        (Inr (IntValue (cnt g)), (isRouter s)\<lparr>rtWorld := w'\<rparr>)"
      by (rule executeRedirect_answer) (use n inv w' in auto)
    moreover have "isTotal s + cnt g = sum cnt (insert g S)"
      using g inv finite_subset [OF g(3)] by simp
    moreover have "in_int64 (sum cnt (insert g S))" using g by (intro bound) simp
    ultimately show "?Inv (insert g S) (intGroup env ''EXISTS'' (gs ! g) s)"
      using inv w'(2) by (simp add: intGroup_def IntValue_def)
  qed auto
  then show ?thesis by (simp add: executeEXISTS_def fanOutInteger_def Let_def gs_def [symmetric] s_def [symmetric] total)
qed

end
