(* ===== verification/Router_Claims.thy ===== *)
theory Router_Claims
  imports Router_Correct
begin

text \<open>
  The claims about requests over several slots, with a small cluster on which their hypotheses
  hold: two masters that share the slots, and nodes that parse a request and answer it from one
  store.
\<close>

section \<open>A cluster of two masters\<close>

definition twoNodes :: Topology where
  "twoNodes =
     (let a = \<lparr>nID = ''a'', nAddr = ''a:1'', nRole = RoleMaster, nSlots = [(0, 8191)], nReplicas = [], nMasterID = []\<rparr>;
          b = \<lparr>nID = ''b'', nAddr = ''b:2'', nRole = RoleMaster, nSlots = [(8192, 16383)], nReplicas = [], nMasterID = []\<rparr>
      in NewTopology\<lparr>tSnap := \<lparr>snNodes = [(''a:1'', a), (''b:2'', b)],
           snSlots = (\<lambda>s. if s < 8192 then Some ''a:1'' else if s < 16384 then Some ''b:2'' else None),
           snMasters = [a, b], snVersion = 1, snFingerprint = []\<rparr>\<rparr>)"

fun unflat :: "bytes list \<Rightarrow> (bytes \<times> bytes) list" where
  "unflat (k # v # as) = (k, v) # unflat as"
| "unflat as = []"

definition storeReply :: "bytes list \<Rightarrow> store \<Rightarrow> Value \<times> store" where
  "storeReply args m =
     (if hd args = ''MGET'' then (ArrayV (map (Some \<circ> BulkValue \<circ> m) (tl args)), m)
      else if hd args = ''MSET'' then (OKValue, setAll (unflat (tl args)) m)
      else if hd args = ''EXISTS'' then (IntValue (int (length (filter (\<lambda>k. m k \<noteq> None) (tl args)))), m)
      else (ErrValue ''ERR unknown command'', m))"

definition storeEnv :: "store netenv" where
  "storeEnv =
     \<lparr>pipeDo = (\<lambda>addr ro d m. case ParseRequest d of
        Inr (Some (req, _)) \<Rightarrow> (case storeReply (Args req) m of (v, m') \<Rightarrow> (Inr v, m'))
      | _ \<Rightarrow> (Inl ''protocol error'', m)),
      askDo = (\<lambda>addr d m. (Inl ''not asked'', m)),
      batchDo = (\<lambda>addr ro ds m. (Inl ''no batch'', m)),
      sleepFor = (\<lambda>d m. (None, m)),
      goOrd = (\<lambda>n. rev [0..<n])\<rparr>"

lemma unflat_flat [simp]: "unflat (flat kvs) = kvs"
  by (induction kvs) auto

lemma storeEnv_order: "perm_order (goOrd storeEnv)"
  by (auto simp: perm_order_def storeEnv_def)

lemma storeEnv_reply:
  assumes "go_slice (EncodeCommandBytes args)" "args \<noteq> []" "length args < 100" "to_upper (hd args) = hd args"
  shows "pipeDo storeEnv addr ro (EncodeCommandBytes args) m = (case storeReply args m of (v, m') \<Rightarrow> (Inr v, m'))"
proof -
  obtain a as where a: "args = a # as" using assms(2) by (cases args) auto
  have "ParseRequest (EncodeCommandBytes args @ []) = Inr (Some (request_of args, length (EncodeCommandBytes args)))"
    using assms by (intro ParseRequest_encoded) (simp_all add: maxAlloc_def)
  moreover have "Args (request_of args) = args" using assms(4) a by (simp add: request_of_def Let_def)
  ultimately show ?thesis by (simp add: storeEnv_def)
qed

lemma twoNodes_serves: "slots_served twoNodes keys"
proof -
  have "HashSlot k < 16384" for k by (simp add: HashSlot_def ClusterSlots_def split: option.split)
  then show ?thesis 
    by (auto simp: slots_served_def twoNodes_def GetNodeForSlot_def GetNodeByAddr_def ClusterSlots_def Let_def not_less [symmetric])
qed

definition sampleKeys :: "bytes list" where
  "sampleKeys = [''foo'', ''bar'', ''{foo}2'']"

lemma sampleKeys_encoded:
  "\<forall>cmd \<in> {''MGET'', ''EXISTS''}. \<forall>ks \<in> set (subseqs sampleKeys). go_slice (EncodeCommandBytes (cmd # ks)) \<and> length ks < 99"
  by code_simp


definition samplePairs :: "(bytes \<times> bytes) list" where
  "samplePairs = [(''foo'', ''1''), (''bar'', ''2''), (''{foo}2'', ''3''), (''foo'', ''4'')]"

lemma samplePairs_encoded:
  "\<forall>kvs \<in> set (subseqs samplePairs). go_slice (EncodeCommandBytes (''MSET'' # flat kvs)) \<and> 2 * length kvs < 99"
  by code_simp

lemma upper_commands [simp]:
  "to_upper ''MGET'' = ''MGET''" "to_upper ''MSET'' = ''MSET''" "to_upper ''EXISTS'' = ''EXISTS''"
  by code_simp+

lemma storeEnv_MGET: "serves_MGET storeEnv t sampleKeys (\<lambda>m. m)"
proof -
  have "pipeDo storeEnv addr ro (EncodeCommandBytes (''MGET'' # ks)) m = (Inr (ArrayV (map (Some \<circ> BulkValue \<circ> m) ks)), m)"
    if "subseq ks sampleKeys" for addr ro ks m
    using sampleKeys_encoded that by (subst storeEnv_reply) (auto simp: storeReply_def)
  then show ?thesis unfolding serves_MGET_def by blast
qed

lemma storeEnv_MSET: "serves_MSET storeEnv t samplePairs (\<lambda>m. m)"
proof -
  have "pipeDo storeEnv addr ro (EncodeCommandBytes (''MSET'' # flat kvs)) m = (Inr OKValue, setAll kvs m)"
    if "subseq kvs samplePairs" for addr ro kvs m
    using samplePairs_encoded that by (subst storeEnv_reply) (auto simp: storeReply_def)
  then show ?thesis unfolding serves_MSET_def by blast
qed


section \<open>Claims\<close>

text \<open>
  C9. \<^verbatim>\<open>MGET\<close> over any number of slots acts as one read of one store: when the owner of a slot
  answers an \<^verbatim>\<open>MGET\<close> of keys of this slot with their values, the proxy answers with the values of
  all the keys, in the order of the request and with repetitions, whatever the slots of the keys
  and the order in which the goroutines finish. The data is unchanged.
\<close>

theorem executeMGET_one_store:
  assumes "serves_MGET env (rtTopo r) keys db" "perm_order (goOrd env)" "slots_served (rtTopo r) keys" "keys \<noteq> []"
  shows "\<exists>r'. executeMGET env (''MGET'' # keys) r = (Inr (ArrayV (map (Some \<circ> BulkValue \<circ> db (rtWorld r)) keys)), r') \<and>
    db (rtWorld r') = db (rtWorld r)"
  using executeMGET_store [OF assms] by blast

theorem executeMGET_one_store_witness:
  "\<exists>r'. executeMGET storeEnv (''MGET'' # sampleKeys) (NewRouter twoNodes [''foo'' \<mapsto> ''1'', ''{foo}2'' \<mapsto> ''3'']) =
    (Inr (ArrayV [Some (BulkValue (Some ''1'')), Some (BulkValue None), Some (BulkValue (Some ''3''))]), r')"
  using executeMGET_one_store [of storeEnv "NewRouter twoNodes [''foo'' \<mapsto> ''1'', ''{foo}2'' \<mapsto> ''3'']" sampleKeys "\<lambda>m. m"]
    storeEnv_MGET storeEnv_order twoNodes_serves
  by (auto simp: sampleKeys_def NewRouter_def)

text \<open>
  C8. \<^verbatim>\<open>MSET\<close> over any number of slots acts as one update of one store: when the owner of a slot
  performs an \<^verbatim>\<open>MSET\<close> of keys of this slot, the proxy answers \<^verbatim>\<open>OK\<close> and the data of the cluster has
  become what setting the pairs one after the other in the order of the request gives, so that
  the last value of a repeated key wins, whatever the order in which the goroutines finish.
\<close>

theorem executeMSET_one_store:
  assumes "serves_MSET env (rtTopo r) kvs db" "perm_order (goOrd env)" "slots_served (rtTopo r) (map fst kvs)" "kvs \<noteq> []"
  shows "\<exists>r'. executeMSET env (''MSET'' # flat kvs) ''MSET'' r = (Inr OKValue, r') \<and>
    db (rtWorld r') = setAll kvs (db (rtWorld r))"
  using executeMSET_store [OF assms] by blast

theorem executeMSET_one_store_witness:
  "\<exists>r'. executeMSET storeEnv (''MSET'' # flat samplePairs) ''MSET'' (NewRouter twoNodes Map.empty) = (Inr OKValue, r') \<and>
    rtWorld r' = [''foo'' \<mapsto> ''4'', ''bar'' \<mapsto> ''2'', ''{foo}2'' \<mapsto> ''3'']"
proof -
  have "samplePairs \<noteq> []" "setAll samplePairs Map.empty = [''foo'' \<mapsto> ''4'', ''bar'' \<mapsto> ''2'', ''{foo}2'' \<mapsto> ''3'']"
    by (auto simp: samplePairs_def)
  then show ?thesis
    using executeMSET_one_store [of storeEnv "NewRouter twoNodes Map.empty" samplePairs "\<lambda>m. m"]
      storeEnv_MSET storeEnv_order twoNodes_serves
    by (auto simp: NewRouter_def)
qed

end
