(* ===== verification/Router_Scan.thy ===== *)
theory Router_Scan
  imports Router_Correct
begin

text \<open>
  The keyspace iteration of \<^verbatim>\<open>src/pkg/router/router.go\<close>: the proxy packs the index of a master into
  the low bits of the cursor. A client that follows the cursors from 0 sees every page of every
  master and stops.
\<close>

section \<open>The packed cursor\<close>

definition packed :: "nat \<Rightarrow> nat \<Rightarrow> 64 word" where
  "packed i c = push_bit 16 (of_nat c) OR of_nat i"

lemma bit_of_nat_small: "c < 2 ^ k \<Longrightarrow> k \<le> j \<Longrightarrow> \<not> bit (of_nat c :: 64 word) j"
proof -
  assume "c < 2 ^ k" "k \<le> j"
  then have "take_bit k c = c" by (simp add: take_bit_nat_eq_self)
  then have "\<not> bit c j" using \<open>k \<le> j\<close> by (metis bit_take_bit_iff not_less)
  then show ?thesis by (simp add: bit_of_nat_iff)
qed

lemma packed_node: "i < 2 ^ 16 \<Longrightarrow> packed i c AND scanNodeIndexMask = of_nat i"
proof -
  assume i: "i < 2 ^ 16"
  have m: "scanNodeIndexMask = (mask 16 :: 64 word)" by (simp add: scanNodeIndexMask_def mask_eq_exp_minus_1)
  show ?thesis
    using bit_of_nat_small [OF i] unfolding packed_def m
    by (intro bit_word_eqI) (auto simp: bit_simps not_less [symmetric])
qed

lemma packed_cursor: "i < 2 ^ 16 \<Longrightarrow> c < 2 ^ 48 \<Longrightarrow> drop_bit scanNodeIndexBits (packed i c) = of_nat c"
  using bit_of_nat_small [of i 16] bit_of_nat_small [of c 48]
  by (intro bit_word_eqI) (auto simp: packed_def scanNodeIndexBits_def bit_simps, metis not_le)

lemma packed_0 [simp]: "packed i 0 = of_nat i"
  by (simp add: packed_def)

lemma unat_of_nat_64: "c < 2 ^ 64 \<Longrightarrow> unat (of_nat c :: 64 word) = c"
  by (simp add: unat_of_nat take_bit_nat_eq_self)

lemma packed_nonzero: "i < 2 ^ 16 \<Longrightarrow> 0 < c \<Longrightarrow> c < 2 ^ 48 \<Longrightarrow> packed i c \<noteq> 0"
proof
  assume *: "i < 2 ^ 16" "0 < c" "c < 2 ^ 48" "packed i c = 0"
  then have "of_nat c = (0 :: 64 word)" using packed_cursor [of i c] by simp
  then show False using unat_of_nat_64 [of c] * by simp
qed

lemma scanDecode_packed:
  "i < n \<Longrightarrow> n \<le> 2 ^ 16 \<Longrightarrow> c < 2 ^ 48 \<Longrightarrow> scanDecode n (unat (packed i c)) = (i, of_nat c)"
  using packed_node [of i c] packed_cursor [of i c] unat_of_nat_64 [of i]
  by (simp add: scanDecode_def Let_def)

lemma scanEncode_packed:
  "scanEncode n i c = (if c \<noteq> 0 then packed i c else if i + 1 < n then packed (i + 1) 0 else 0)"
  by (simp add: scanEncode_def packed_def scanNodeIndexBits_def)


section \<open>The iteration\<close>

text \<open>The pages of one node from a cursor on, and the pages a client of the proxy gets.\<close>

inductive node_scan :: "(nat \<Rightarrow> nat) \<Rightarrow> (nat \<Rightarrow> Value) \<Rightarrow> nat \<Rightarrow> Value list \<Rightarrow> bool" for nxt page where
  node_last: "nxt c = 0 \<Longrightarrow> node_scan nxt page c [page c]"
| node_more: "nxt c \<noteq> 0 \<Longrightarrow> node_scan nxt page (nxt c) ps \<Longrightarrow> node_scan nxt page c (page c # ps)"

inductive client_scan :: "'w netenv \<Rightarrow> bytes list \<Rightarrow> nat \<Rightarrow> 'w Router \<Rightarrow> Value list \<Rightarrow> bool" for env opts where
  client_last: "executeSCAN env (''SCAN'' # fmt_nat c # opts) r = (Inr (ArrayV [Some (BulkV ''0''), Some p]), r') \<Longrightarrow>
     client_scan env opts c r [p]"
| client_more: "executeSCAN env (''SCAN'' # fmt_nat c # opts) r = (Inr (ArrayV [Some (BulkV (fmt_nat c')), Some p]), r') \<Longrightarrow>
     c' \<noteq> 0 \<Longrightarrow> client_scan env opts c' r' ps \<Longrightarrow> client_scan env opts c r (p # ps)"

definition serves_SCAN :: "'w netenv \<Rightarrow> bytes list \<Rightarrow> Node list \<Rightarrow> (nat \<Rightarrow> nat \<Rightarrow> nat) \<Rightarrow> (nat \<Rightarrow> nat \<Rightarrow> Value) \<Rightarrow> bool" where
  "serves_SCAN env opts masters nxt page \<longleftrightarrow> (\<forall>i < length masters. \<forall>c < 2 ^ 48. \<forall>ro w. \<exists>w'.
     pipeDo env (nAddr (masters ! i)) ro (EncodeCommandBytes (''SCAN'' # fmt_nat c # opts)) w =
       (Inr (ArrayV [Some (BulkV (fmt_nat (nxt i c))), Some (page i c)]), w') \<and> nxt i c < 2 ^ 48)"

lemma executeSCAN_packed:
  assumes "serves_SCAN env opts (AllMasters (rtTopo r)) nxt page" "i < length (AllMasters (rtTopo r))"
    "length (AllMasters (rtTopo r)) \<le> 2 ^ 16" "c < 2 ^ 48"
  shows "\<exists>w'. executeSCAN env (''SCAN'' # fmt_nat (unat (packed i c)) # opts) r =
    (Inr (ArrayV [Some (BulkV (fmt_nat (unat (scanEncode (length (AllMasters (rtTopo r))) i (nxt i c))))), Some (page i c)]),
     r\<lparr>rtWorld := w'\<rparr>)"
proof -
  let ?ms = "AllMasters (rtTopo r)"
  obtain w' where w': "pipeDo env (nAddr (?ms ! i)) (routerIsReplicaAddr r (nAddr (?ms ! i)))
      (EncodeCommandBytes (''SCAN'' # fmt_nat c # opts)) (rtWorld r) =
       (Inr (ArrayV [Some (BulkV (fmt_nat (nxt i c))), Some (page i c)]), w')" and "nxt i c < 2 ^ 48"
    using assms(1,2,4) unfolding serves_SCAN_def by blast
  then have "parse_uint64 (fmt_nat (nxt i c)) = Some (nxt i c)" by simp
  moreover have "parse_uint64 (fmt_nat (unat (packed i c))) = Some (unat (packed i c))"
    using unsigned_less [of "packed i c", where ?'a = nat] by (intro parse_uint64_fmt_nat) simp
  moreover have "execOnNode env (nAddr (?ms ! i)) (''SCAN'' # fmt_nat c # opts) False r =
      (Inr (ArrayV [Some (BulkV (fmt_nat (nxt i c))), Some (page i c)]), r\<lparr>rtWorld := w'\<rparr>)"
    using execAttempts_answer [OF w'] by (simp add: execOnNode_def)
  moreover have "unat (of_nat c :: 64 word) = c" using assms(4) by (intro unat_of_nat_64) simp
  moreover have "?ms \<noteq> []" using assms(2) by auto
  ultimately show ?thesis
    using scanDecode_packed [OF assms(2-4)]
    by (intro exI [of _ w']) (simp add: executeSCAN_def Let_def ArrayV_def BulkV_def IsError_def)
qed


lemma node_then_client:
  assumes "node_scan (nxt i) (page i) c ps" "c < 2 ^ 48" "rtTopo r = t" "i < length (AllMasters t)"
    "serves_SCAN env opts (AllMasters t) nxt page" "length (AllMasters t) \<le> 2 ^ 16"
    and rest: "if i + 1 < length (AllMasters t) then \<forall>r. rtTopo r = t \<longrightarrow> client_scan env opts (i + 1) r qs else qs = []"
  shows "client_scan env opts (unat (packed i c)) r (ps @ qs)"
  using assms(1-3)
proof (induction arbitrary: r)
  case (node_last c)
  obtain w' where *: "executeSCAN env (''SCAN'' # fmt_nat (unat (packed i c)) # opts) r =
    (Inr (ArrayV [Some (BulkV (fmt_nat (unat (scanEncode (length (AllMasters t)) i 0)))), Some (page i c)]), r\<lparr>rtWorld := w'\<rparr>)"
    using executeSCAN_packed [of env opts r nxt page i c] assms(4-6) node_last by auto
  show ?case
  proof (cases "i + 1 < length (AllMasters t)")
    case True
    then have "unat (scanEncode (length (AllMasters t)) i 0) = i + 1"
      using assms(6) unat_of_nat_64 [of "i + 1"] by (simp add: scanEncode_packed del: of_nat_Suc)
    with * rest True node_last.prems(2) show ?thesis by (auto intro!: client_more)
  next
    case False
    moreover have "fmt_nat 0 = ''0''" by code_simp
    ultimately show ?thesis using * rest by (auto simp: scanEncode_packed intro!: client_last)
  qed
next
  case (node_more c ps)
  obtain w' where *: "executeSCAN env (''SCAN'' # fmt_nat (unat (packed i c)) # opts) r =
    (Inr (ArrayV [Some (BulkV (fmt_nat (unat (scanEncode (length (AllMasters t)) i (nxt i c))))), Some (page i c)]), r\<lparr>rtWorld := w'\<rparr>)"
    using executeSCAN_packed [of env opts r nxt page i c] assms(4-6) node_more.prems by auto
  have b: "nxt i c < 2 ^ 48" using assms(4,5) node_more.prems(1) unfolding serves_SCAN_def by blast
  then have "packed i (nxt i c) \<noteq> 0" using assms(4,6) node_more(1) by (intro packed_nonzero) auto
  then have "unat (packed i (nxt i c)) \<noteq> 0" by (metis unsigned_0 word_unat_eq_iff)
  moreover have "client_scan env opts (unat (packed i (nxt i c))) (r\<lparr>rtWorld := w'\<rparr>) (ps @ qs)"
    using node_more b by auto
  ultimately show ?case using * node_more(1) by (auto simp: scanEncode_packed intro!: client_more)
qed

lemma client_scan_from:
  assumes "serves_SCAN env opts (AllMasters t) nxt page" "length (AllMasters t) \<le> 2 ^ 16"
    and pages: "\<And>i. i < length (AllMasters t) \<Longrightarrow> node_scan (nxt i) (page i) 0 (pages i)"
  shows "i < length (AllMasters t) \<Longrightarrow> rtTopo r = t \<Longrightarrow> client_scan env opts i r (concat (map pages [i..<length (AllMasters t)]))"
proof (induction "length (AllMasters t) - i" arbitrary: i r)
  case (Suc k)
  let ?n = "length (AllMasters t)"
  have "if i + 1 < ?n then \<forall>r. rtTopo r = t \<longrightarrow> client_scan env opts (i + 1) r (concat (map pages [i + 1..<?n]))
      else concat (map pages [i + 1..<?n]) = []"
    using Suc.hyps by auto
  then have "client_scan env opts (unat (packed i 0)) r (pages i @ concat (map pages [i + 1..<?n]))"
    by (intro node_then_client [OF pages _ _ _ assms(1,2)]) (use Suc.prems in simp_all)
  moreover have "unat (packed i 0) = i" using Suc.prems assms(2) unat_of_nat_64 [of i] by simp
  ultimately show ?case using Suc.prems by (simp add: upt_conv_Cons)
qed simp


section \<open>Claims\<close>

text \<open>
  C10. Iterating with \<^verbatim>\<open>SCAN\<close> through the proxy from cursor 0 visits the whole cluster: when every
  master answers \<^verbatim>\<open>SCAN\<close> with a page and a next cursor below $2^{48}$ and its own iteration from 0
  ends after \<open>pages i\<close>, a client that repeats the request with each returned cursor until it gets
  0 receives all the pages of all the masters, in order, and then stops.
\<close>

theorem executeSCAN_visits_all:
  assumes "serves_SCAN env opts (AllMasters (rtTopo r)) nxt page"
    and "0 < length (AllMasters (rtTopo r))" "length (AllMasters (rtTopo r)) \<le> 2 ^ 16"
    and "\<And>i. i < length (AllMasters (rtTopo r)) \<Longrightarrow> node_scan (nxt i) (page i) 0 (pages i)"
  shows "client_scan env opts 0 r (concat (map pages [0..<length (AllMasters (rtTopo r))]))"
  using client_scan_from [OF assms(1,3,4) assms(2) refl] .


definition scanTopo :: Topology where
  "scanTopo =
     (let n = \<lambda>a. \<lparr>nID = a, nAddr = a, nRole = RoleMaster, nSlots = [], nReplicas = [], nMasterID = []\<rparr>
      in NewTopology\<lparr>tSnap := (tSnap NewTopology)\<lparr>snMasters := [n ''a:1'', n ''b:2'']\<rparr>\<rparr>)"

definition scanNext :: "bytes \<Rightarrow> bytes \<Rightarrow> nat" where
  "scanNext addr d = (if addr = ''a:1'' \<and> d = EncodeCommandBytes [''SCAN'', ''0''] then 7 else 0)"

definition scanPage :: "bytes \<Rightarrow> bytes \<Rightarrow> Value" where
  "scanPage addr d = ArrayV [Some (BulkV (addr @ ''/'' @ d))]"

definition scanEnv :: "unit netenv" where
  "scanEnv =
     \<lparr>pipeDo = (\<lambda>addr ro d w. (Inr (ArrayV [Some (BulkV (fmt_nat (scanNext addr d))), Some (scanPage addr d)]), w)),
      askDo = (\<lambda>addr d w. (Inl ''not asked'', w)), batchDo = (\<lambda>addr ro ds w. (Inl ''no batch'', w)),
      sleepFor = (\<lambda>d w. (None, w)), goOrd = (\<lambda>n. [0..<n])\<rparr>"

theorem executeSCAN_visits_all_witness:
  "client_scan scanEnv [] 0 (NewRouter scanTopo ())
     [scanPage ''a:1'' (EncodeCommandBytes [''SCAN'', ''0'']), scanPage ''a:1'' (EncodeCommandBytes [''SCAN'', ''7'']),
      scanPage ''b:2'' (EncodeCommandBytes [''SCAN'', ''0''])]"
proof -
  let ?r = "NewRouter scanTopo ()" and ?c = "\<lambda>c. EncodeCommandBytes [''SCAN'', fmt_nat c]"
  define a where "a i = (if i = (0::nat) then ''a:1'' else ''b:2'')" for i
  define nxt where "nxt i c = scanNext (a i) (?c c)" for i c
  define page where "page i c = scanPage (a i) (?c c)" for i c
  define pages where "pages i = (if i = (0::nat) then [page 0 0, page 0 7] else [page 1 0])" for i
  have ms: "map nAddr (AllMasters (rtTopo ?r)) = [''a:1'', ''b:2'']"
    by (simp add: AllMasters_def scanTopo_def NewRouter_def Let_def)
  then have len: "length (AllMasters (rtTopo ?r)) = 2" by (metis length_map length_Cons list.size(3) numeral_2_eq_2)
  have addr: "nAddr (AllMasters (rtTopo ?r) ! i) = a i" if "i < 2" for i
    using that ms len unfolding a_def by (metis less_2_cases nth_Cons_0 nth_Cons_Suc nth_map One_nat_def zero_neq_one)
  have nums: "fmt_nat 0 = ''0''" "fmt_nat 7 = ''7''" by code_simp+
  have "EncodeCommandBytes [''SCAN'', ''7''] \<noteq> EncodeCommandBytes [''SCAN'', ''0'']" by code_simp
  then have n: "nxt 0 0 = 7" "nxt 0 7 = 0" "nxt 1 0 = 0"
    by (simp_all add: nxt_def a_def scanNext_def nums)
  have "serves_SCAN scanEnv [] (AllMasters (rtTopo ?r)) nxt page"
    unfolding serves_SCAN_def len nxt_def page_def using addr by (simp add: scanEnv_def) (simp add: scanNext_def)
  moreover have "node_scan (nxt i) (page i) 0 (pages i)" if "i < 2" for i
  proof -
    have "node_scan (nxt 0) (page 0) 0 [page 0 0, page 0 7]"
      using node_more [of "nxt 0" 0 "page 0" "[page 0 7]"] node_last [of "nxt 0" 7 "page 0"] n by simp
    moreover have "node_scan (nxt 1) (page 1) 0 [page 1 0]" using node_last [of "nxt 1" 0 "page 1"] n by simp
    ultimately show ?thesis using that by (auto simp: pages_def dest!: less_2_cases)
  qed
  ultimately have "client_scan scanEnv [] 0 ?r (concat (map pages [0..<length (AllMasters (rtTopo ?r))]))"
    by (intro executeSCAN_visits_all) (simp_all add: len)
  then show ?thesis unfolding len by (simp add: nums upt_rec pages_def page_def a_def)
qed

end
