(* ===== verification/Router_Pipeline.thy ===== *)
theory Router_Pipeline
  imports Router_Exec
begin

text \<open>
  Pipelines of the router, \<^verbatim>\<open>ExecPipeline\<close> of \<^verbatim>\<open>src/pkg/router/router.go\<close>: requests for one node go
  out as one batch, the others through \<open>Execute\<close>; every reply is put at the position of its request.
\<close>

section \<open>Definitions\<close>

record batchItem =
  biIdx :: nat
  biReq :: Request
  biAddr :: bytes
  biSlot :: int

text \<open>How one request is classified: answered at once, to be executed by itself, or to be batched.\<close>

datatype pclass = Answered Value | Complex | Simple bytes int

definition classify :: "Request \<Rightarrow> 'w Router \<Rightarrow> pclass \<times> 'w Router" where
  "classify req r =
     (if Args req = [] then (Answered (ErrValue ''ERR empty command''), r)
      else (let args = Args req; name = to_upper (hd args) in
        case GetCmdInfo name of
          None \<Rightarrow> (Answered (unknownCommand name), r)
        | Some info \<Rightarrow>
           if IsNotAllowed (Some info) then (Answered (ErrValue (notSupported name)), r)
           else if name = ''SCAN'' \<or> name = ''SCRIPT'' \<or> name = ''CONFIG'' \<or> IsAllNodes (Some info) \<or> IsMultiKey (Some info)
             then (Complex, r)
           else (case getFirstKey args info of
              None \<Rightarrow>
               (let masters = AllMasters (rtTopo r); c = rtCounter r + 1
                in if masters = [] then (Answered (ErrValue ''ERR no cluster nodes available''), r)
                   else (Simple (nAddr (masters ! (unat c mod length masters))) (-1), r\<lparr>rtCounter := c\<rparr>))
            | Some key \<Rightarrow>
               (let slot = int (HashSlot key)
                in case nodeAddrForSlot r slot (IsRead (Some info) \<and> \<not> IsWrite (Some info)) of
                     (Inl _, r') \<Rightarrow> (Answered (ErrValue (''ERR no node for slot '' @ fmt_int slot)), r')
                   | (Inr addr, r') \<Rightarrow> (Simple addr slot, r')))))"

record 'w pipeState =
  psResults :: "Value option list"
  psComplex :: "nat list"
  psSimple :: "batchItem list"
  psRouter :: "'w Router"

definition classifyOne :: "nat \<times> Request \<Rightarrow> 'w pipeState \<Rightarrow> 'w pipeState" where
  "classifyOne ir s =
     (case classify (snd ir) (psRouter s) of
        (Answered v, r') \<Rightarrow> s\<lparr>psResults := (psResults s)[fst ir := Some v], psRouter := r'\<rparr>
      | (Complex, r') \<Rightarrow> s\<lparr>psComplex := psComplex s @ [fst ir], psRouter := r'\<rparr>
      | (Simple addr slot, r') \<Rightarrow>
          s\<lparr>psSimple := psSimple s @ [\<lparr>biIdx = fst ir, biReq = snd ir, biAddr = addr, biSlot = slot\<rparr>], psRouter := r'\<rparr>)"

definition classifyPipelineRequests :: "Request list \<Rightarrow> 'w Router \<Rightarrow> 'w pipeState" where
  "classifyPipelineRequests reqs r =
     fold classifyOne (enumerate 0 reqs)
       \<lparr>psResults = replicate (length reqs) None, psComplex = [], psSimple = [], psRouter = r\<rparr>"

text \<open>\<^term>\<open>None\<close> when a request panics.\<close>

fun dispatchComplexRequests :: "'w netenv \<Rightarrow> Request list \<Rightarrow> nat list \<Rightarrow> Value option list \<Rightarrow> 'w Router
    \<Rightarrow> (Value option list \<times> 'w Router) option" where
  "dispatchComplexRequests env reqs [] results r = Some (results, r)"
| "dispatchComplexRequests env reqs (i # is) results r =
     (case Execute env (reqs ! i) r of
        (Inl Panic, r') \<Rightarrow> None
      | (Inl (Fail e), r') \<Rightarrow> dispatchComplexRequests env reqs is (results[i := Some (ErrValue e)]) r'
      | (Inr v, r') \<Rightarrow> dispatchComplexRequests env reqs is (results[i := Some v]) r')"

definition orError :: "(bytes + Value) \<times> 'w Router \<Rightarrow> Value \<times> 'w Router" where
  "orError x = (case x of (Inl e, r) \<Rightarrow> (ErrValue e, r) | (Inr v, r) \<Rightarrow> (v, r))"

text \<open>One item of the second pass over a batch: a node that is down or loading is asked again.\<close>

definition retryItem :: "'w netenv \<Rightarrow> batchItem \<Rightarrow> Value \<Rightarrow> 'w Router \<Rightarrow> Value \<times> 'w Router" where
  "retryItem env item v r =
     (if IsClusterDownError v \<or> IsLoadingError v
      then orError (execOnNode env (biAddr item) (Args (biReq item)) False r) else (v, r))"

text \<open>One item of the third pass: redirections are followed.\<close>

definition redirectItem :: "'w netenv \<Rightarrow> batchItem \<Rightarrow> Value \<Rightarrow> 'w Router \<Rightarrow> Value \<times> 'w Router" where
  "redirectItem env item v r =
     (if IsMovedError v then
        (case ParseRedirection v of
           None \<Rightarrow> (v, r)
         | Some (newSlot, newAddr) \<Rightarrow>
             orError (executeRedirect env (biReq item) newAddr newSlot False 1 (triggerRefresh r)))
      else if IsAskError v then
        (case ParseRedirection v of
           None \<Rightarrow> (v, r)
         | Some (_, newAddr) \<Rightarrow> orError (executeRedirect env (biReq item) newAddr (-1) True 1 r))
      else (v, r))"

fun batchPass :: "(batchItem \<Rightarrow> Value \<Rightarrow> 's \<Rightarrow> Value \<times> 's) \<Rightarrow> batchItem list \<Rightarrow> Value list \<Rightarrow> 's \<Rightarrow> Value list \<times> 's" where
  "batchPass f (b # bs) (v # vs) s =
     (case f b v s of (v', s') \<Rightarrow> (case batchPass f bs vs s' of (vs', s'') \<Rightarrow> (v' # vs', s'')))"
| "batchPass f _ _ s = ([], s)"

definition execBatchOnNode :: "'w netenv \<Rightarrow> bytes \<Rightarrow> batchItem list \<Rightarrow> 'w Router \<Rightarrow> Value list \<times> 'w Router" where
  "execBatchOnNode env addr batch r =
     (let n = length batch in
      case batchDo env addr (routerIsReplicaAddr r addr) (map (Args \<circ> biReq) batch) (rtWorld r) of
        (Inl e, w) \<Rightarrow> (replicate n (ErrValue (''ERR '' @ e)), r\<lparr>rtWorld := w\<rparr>)
      | (Inr (vals, e), w) \<Rightarrow>
         (let r1 = r\<lparr>rtWorld := w\<rparr> in
          if length vals < n then (vals @ replicate (n - length vals) (ErrValue (''ERR read: '' @ e)), r1)
          else (let vs = take n vals in
            case (if \<exists>v \<in> set vs. IsClusterDownError v \<or> IsLoadingError v then batchPass (retryItem env) batch vs r1 else (vs, r1)) of
              (vs2, r2) \<Rightarrow>
                if \<exists>v \<in> set vs. IsMovedError v \<or> IsAskError v then batchPass (redirectItem env) batch vs2 r2 else (vs2, r2))))"

definition dispatchBatch :: "'w netenv \<Rightarrow> bytes \<times> batchItem list \<Rightarrow> Value option list \<times> 'w Router \<Rightarrow> Value option list \<times> 'w Router" where
  "dispatchBatch env g s =
     (case execBatchOnNode env (fst g) (snd g) (snd s) of
        (vals, r') \<Rightarrow> (place (map biIdx (snd g)) (map Some vals) (fst s), r'))"

definition dispatchSimpleRequests :: "'w netenv \<Rightarrow> batchItem list \<Rightarrow> Value option list \<Rightarrow> 'w Router \<Rightarrow> Value option list \<times> 'w Router" where
  "dispatchSimpleRequests env simple results r =
     (let groups = groupBy biAddr simple
      in if simple = [] then (results, r)
         else goSeq (goOrd env (length groups)) (\<lambda>k. dispatchBatch env (groups ! k)) (results, r))"

definition ExecPipeline :: "'w netenv \<Rightarrow> Request list \<Rightarrow> 'w Router \<Rightarrow> (Value option list \<times> 'w Router) option" where
  "ExecPipeline env reqs r =
     (let s = classifyPipelineRequests reqs r
      in case dispatchComplexRequests env reqs (psComplex s) (psResults s) (psRouter s) of
           None \<Rightarrow> None
         | Some (results, r') \<Rightarrow> Some (dispatchSimpleRequests env (psSimple s) results r'))"

end
