(* ===== verification/Router_Bounds.thy ===== *)
theory Router_Bounds
  imports Router_Correct Router_Pipeline
begin

text \<open>
  What the router does for any behaviour of the nodes: the number of exchanges with nodes is
  bounded whatever redirections and transient errors they answer with, and a pipeline gives one
  result for each of its requests.
\<close>

section \<open>Bounded work\<close>

text \<open>A count of the exchanges with nodes, which waiting does not change.\<close>

definition counts :: "'w netenv \<Rightarrow> ('w \<Rightarrow> nat) \<Rightarrow> bool" where
  "counts env cnt \<longleftrightarrow>
     (\<forall>a ro d w. cnt (snd (pipeDo env a ro d w)) \<le> Suc (cnt w)) \<and>
     (\<forall>a d w. cnt (snd (askDo env a d w)) \<le> Suc (cnt w)) \<and>
     (\<forall>d w. cnt (snd (sleepFor env d w)) \<le> cnt w)"

lemma execOnNodeOnce_count:
  "counts env cnt \<Longrightarrow> cnt (rtWorld (snd (execOnNodeOnce env addr args asking r))) \<le> Suc (cnt (rtWorld r))"
  unfolding counts_def execOnNodeOnce_def by (auto split: prod.split) (metis snd_conv)+

lemma execAttempts_count:
  assumes "counts env cnt"
  shows "cnt (rtWorld (snd (execAttempts env addr args asking k r))) \<le> cnt (rtWorld r) + Suc k"
proof (induction k arbitrary: r)
  case 0
  then show ?case using execOnNodeOnce_count [OF assms, of addr args asking r] by simp
next
  case (Suc k)
  obtain x r' where x: "execOnNodeOnce env addr args asking r = (x, r')" by (cases "execOnNodeOnce env addr args asking r")
  have r': "cnt (rtWorld r') \<le> Suc (cnt (rtWorld r))" using execOnNodeOnce_count [OF assms, of addr args asking r] x by simp
  have again: "cnt (rtWorld (snd (case sleepFor env d (rtWorld r') of
      (Some e, w) \<Rightarrow> (Inl e, r'\<lparr>rtWorld := w\<rparr>)
    | (None, w) \<Rightarrow> execAttempts env addr args asking k (r'\<lparr>rtWorld := w\<rparr>)))) \<le> cnt (rtWorld r) + Suc (Suc k)" for d
  proof -
    obtain y w where y: "sleepFor env d (rtWorld r') = (y, w)" by (cases "sleepFor env d (rtWorld r')")
    have "cnt w \<le> cnt (rtWorld r')" using assms y unfolding counts_def by (metis snd_conv)
    with Suc [of "r'\<lparr>rtWorld := w\<rparr>"] r' y show ?thesis by (cases y) auto
  qed
  show ?case using again r' x by (cases x) (simp_all add: Let_def)
qed

lemma rtWorld_triggerRefresh [simp]: "rtWorld (triggerRefresh r) = rtWorld r"
  by (simp add: triggerRefresh_def)

lemma nodeAddrForSlot_world: "rtWorld (snd (nodeAddrForSlot r slot b)) = rtWorld r"
  by (auto simp: nodeAddrForSlot_def Let_def split: prod.split)

lemma executeRedirect_count:
  assumes "counts env cnt"
  shows "cnt (rtWorld (snd (executeRedirect env req addr slot asking depth r))) \<le> cnt (rtWorld r) + 4 * (Suc MaxRedirects - depth)"
  using assms
proof (induction env req addr slot asking depth r rule: executeRedirect.induct)
  case (1 env req addr0 slot asking depth r0)
  show ?case
  proof (cases "depth > MaxRedirects")
    case True
    then show ?thesis by (simp add: executeRedirect.simps)
  next
    case False
    define x where "x = (if addr0 = [] then nodeAddrForSlot r0 slot (isReadCmd (Cmd req)) else (Inr addr0, r0))"
    have w: "rtWorld (snd x) = rtWorld r0" by (simp add: x_def nodeAddrForSlot_world)
    show ?thesis
    proof (cases "fst x")
      case (Inl e)
      then show ?thesis using False w by (cases x) (simp add: executeRedirect.simps x_def [symmetric])
    next
      case (Inr addr)
      then obtain r where x: "x = (Inr addr, r)" by (cases x) auto
      obtain y r' where y: "execOnNode env addr (Args req) asking r = (y, r')" by (cases "execOnNode env addr (Args req) asking r")
      have le: "cnt (rtWorld r') \<le> cnt (rtWorld r0) + 4"
        using execAttempts_count [OF "1.prems", of addr "Args req" asking clusterDownMaxRetry r] y w x
        by (simp add: execOnNode_def clusterDownMaxRetry_def)
      have d: "4 + 4 * (Suc MaxRedirects - (depth + 1)) = 4 * (Suc MaxRedirects - depth)" using False by simp
      show ?thesis
      proof (cases y)
        case (Inl e)
        then show ?thesis using le False x y d by (simp add: executeRedirect.simps x_def [symmetric])
      next
        case (Inr v)
        note IH = "1.IH" [OF False x_def [unfolded x] refl y [symmetric, unfolded Inr] refl]
        note simps = executeRedirect.simps [of env req addr0] x_def [symmetric]
        show ?thesis
        proof (cases "ParseRedirection v")
          case None
          then show ?thesis using le False x y d Inr by (simp add: simps)
        next
          case (Some p)
          obtain ns na where p: "p = (ns, na)" by (cases p)
          consider "IsMovedError v" | "\<not> IsMovedError v" "IsAskError v" | "\<not> IsMovedError v" "\<not> IsAskError v" by blast
          then show ?thesis
          proof cases
            case 1
            from IH(1) [OF this Some p [symmetric] "1.prems"] show ?thesis
              using 1 le False x y d Inr Some p by (simp add: simps)
          next
            case 2
            from IH(2) [OF this Some p [symmetric] "1.prems"] show ?thesis
              using 2 le False x y d Inr Some p by (simp add: simps)
          next
            case 3
            then show ?thesis using le False x y d Inr by (simp add: simps)
          qed
        qed
      qed
    qed
  qed
qed


section \<open>Pipelines\<close>

definition covered :: "'w pipeState \<Rightarrow> nat \<Rightarrow> bool" where
  "covered s i \<longleftrightarrow> psResults s ! i \<noteq> None \<or> i \<in> set (psComplex s) \<or> i \<in> biIdx ` set (psSimple s)"

lemma fill_update: "rs ! i \<noteq> None \<Longrightarrow> rs[j := Some v] ! i \<noteq> None"
  by (cases "i = j"; cases "j < length rs") (auto simp: list_update_beyond)

lemma classifyOne_covers:
  "i < length (psResults s) \<Longrightarrow> covered (classifyOne (i, req) s) i"
  "covered s j \<Longrightarrow> covered (classifyOne (i, req) s) j"
  "length (psResults (classifyOne (i, req) s)) = length (psResults s)"
  by (auto simp: covered_def classifyOne_def fill_update simp del: not_None_eq split: prod.split pclass.split)

lemma classify_covers:
  "k + length reqs \<le> length (psResults s) \<Longrightarrow> \<forall>i < k. covered s i \<Longrightarrow>
   let s' = fold classifyOne (enumerate k reqs) s
   in length (psResults s') = length (psResults s) \<and> (\<forall>i < k + length reqs. covered s' i)"
proof (induction reqs arbitrary: k s)
  case (Cons req reqs)
  have "\<forall>i < Suc k. covered (classifyOne (k, req) s) i"
    using Cons.prems classifyOne_covers(1) [of k s req] classifyOne_covers(2) [of s _ k req] by (auto simp: less_Suc_eq)
  then show ?case using Cons.IH [of "Suc k" "classifyOne (k, req) s"] Cons.prems
    by (simp add: classifyOne_covers(3) Let_def)
qed simp

lemma dispatchComplexRequests_fills:
  "dispatchComplexRequests env reqs is results r = Some (results', r') \<Longrightarrow>
   length results' = length results \<and>
   (\<forall>i < length results. results ! i \<noteq> None \<or> i \<in> set is \<longrightarrow> results' ! i \<noteq> None)"
proof (induction "is" arbitrary: results r)
  case (Cons j "is")
  obtain v r1 where "dispatchComplexRequests env reqs is (results[j := Some v]) r1 = Some (results', r')"
    using Cons.prems by (auto split: prod.splits sum.splits rfail.splits)
  from Cons.IH [OF this] show ?case by (auto simp: fill_update simp del: not_None_eq)
qed auto

lemma place_fills:
  "length vals = length idxs \<Longrightarrow> length (place idxs (map Some vals) rs) = length rs \<and>
   (\<forall>i < length rs. rs ! i \<noteq> None \<or> i \<in> set idxs \<longrightarrow> place idxs (map Some vals) rs ! i \<noteq> None)"
proof (induction idxs arbitrary: vals rs)
  case (Cons j idxs)
  then obtain v vs where v: "vals = v # vs" by (cases vals) auto
  with Cons.prems Cons.IH [of vs "rs[j := Some v]"] show ?case
    by (auto simp: place_def fill_update simp del: not_None_eq)
qed (auto simp: place_def)

lemma length_batchPass: "length bs = length vs \<Longrightarrow> length (fst (batchPass f bs vs s)) = length bs"
  by (induction f bs vs s rule: batchPass.induct) (auto split: prod.split) 

lemma length_execBatchOnNode: "length (fst (execBatchOnNode env addr batch r)) = length batch"
proof -
  have p: "batchPass f batch vs s = (vs', s') \<Longrightarrow> length vs = length batch \<Longrightarrow> length vs' = length batch" for f vs s vs' and s' :: "'a Router"
    using length_batchPass [of batch vs f s] by simp
  show ?thesis
    by (auto simp: execBatchOnNode_def Let_def length_batchPass split: prod.split sum.split if_split dest: p)
qed

lemma dispatchSimpleRequests_fills:
  assumes "perm_order (goOrd env)" "dispatchSimpleRequests env simple results r = (results', r')"
  shows "length results' = length results \<and>
   (\<forall>i < length results. results ! i \<noteq> None \<or> i \<in> biIdx ` set simple \<longrightarrow> results' ! i \<noteq> None)"
proof (cases "simple = []")
  case False
  define gs where "gs = groupBy biAddr simple"
  let ?Inv = "\<lambda>S s. length (fst s) = length results \<and>
    (\<forall>i < length results. results ! i \<noteq> None \<or> (\<exists>g \<in> S. i \<in> biIdx ` set (snd (gs ! g))) \<longrightarrow> fst s ! i \<noteq> None)"
  have "?Inv {..<length gs} (goSeq (goOrd env (length gs)) (\<lambda>k. dispatchBatch env (gs ! k)) (results, r))"
  proof (rule goSeq_all [OF assms(1), where Inv = ?Inv])
    fix g S and s :: "Value option list \<times> 'a Router"
    assume inv: "?Inv S s"
    obtain vals r1 where v: "execBatchOnNode env (fst (gs ! g)) (snd (gs ! g)) (snd s) = (vals, r1)"
      by (cases "execBatchOnNode env (fst (gs ! g)) (snd (gs ! g)) (snd s)")
    then have "length vals = length (map biIdx (snd (gs ! g)))"
      using length_execBatchOnNode [of env "fst (gs ! g)" "snd (gs ! g)" "snd s"] by simp
    from place_fills [OF this, of "fst s"] inv show "?Inv (insert g S) (dispatchBatch env (gs ! g) s)"
      by (auto simp: dispatchBatch_def v)
  qed auto
  moreover have "\<exists>g < length gs. i \<in> biIdx ` set (snd (gs ! g))" if i: "i \<in> biIdx ` set simple" for i
  proof -
    from i obtain b where b: "b \<in> set simple" "i = biIdx b" by auto
    then obtain g where g: "g < length gs" "fst (gs ! g) = biAddr b" using groupBy_covers gs_def by metis
    then have "b \<in> set (snd (gs ! g))" using groupBy_nth(1) [OF g(1) [unfolded gs_def]] b(1) by (simp add: gs_def [symmetric])
    with g(1) b(2) show ?thesis by blast
  qed
  ultimately show ?thesis
    using assms(2) False by (simp add: dispatchSimpleRequests_def Let_def gs_def [symmetric]) blast
qed (use assms(2) in \<open>auto simp: dispatchSimpleRequests_def\<close>)


lemma classifyOne_complex: "set (psComplex (classifyOne (i, req) s)) \<subseteq> insert i (set (psComplex s))"
  by (auto simp: classifyOne_def split: prod.split pclass.split)

lemma classify_complex:
  "set (psComplex (fold classifyOne (enumerate k reqs) s)) \<subseteq> set (psComplex s) \<union> {k..<k + length reqs}"
proof (induction reqs arbitrary: k s)
  case (Cons req reqs)
  from Cons.IH [of "Suc k" "classifyOne (k, req) s"] classifyOne_complex [of k req s] show ?case by fastforce
qed simp

lemma dispatchComplexRequests_panic:
  "dispatchComplexRequests env reqs is results r = None \<Longrightarrow> \<exists>i \<in> set is. \<exists>r. fst (Execute env (reqs ! i) r) = Inl Panic"
proof (induction "is" arbitrary: results r)
  case (Cons j "is")
  then show ?case by (auto split: prod.splits sum.splits rfail.splits) (metis fst_conv)
qed simp


section \<open>Claims\<close>

text \<open>
  C29. Redirections and retries end: whatever the nodes answer, executing one request makes at
  most 68 exchanges with nodes, that is the first address and 16 redirections, each with at most
  four attempts, for every counter of exchanges that a wait does not increase.
\<close>

theorem executeRedirect_bounded:
  assumes "counts env cnt"
  shows "cnt (rtWorld (snd (executeRedirect env req addr slot asking 0 r))) \<le> cnt (rtWorld r) + 68"
  using executeRedirect_count [OF assms, of req addr slot asking 0 r] by (simp add: MaxRedirects_def)

definition movedEnv :: "nat netenv" where
  "movedEnv =
     \<lparr>pipeDo = (\<lambda>addr ro d n. (Inr (ErrValue (if even n then ''TRYAGAIN'' else ''MOVED 3999 b:2'')), Suc n)),
      askDo = (\<lambda>addr d n. (Inl ''not asked'', Suc n)),
      batchDo = (\<lambda>addr ro ds n. (Inr (map (\<lambda>_. OKValue) ds, []), Suc n)),
      sleepFor = (\<lambda>d n. (None, n)),
      goOrd = (\<lambda>n. [0..<n])\<rparr>"

theorem executeRedirect_bounded_witness:
  "rtWorld (snd (executeRedirect movedEnv (subRequest [''GET'', ''k'']) ''a:1'' 3999 False 0 (NewRouter NewTopology 0))) \<le> 68"
  using executeRedirect_bounded [of movedEnv "\<lambda>n. n" "subRequest [''GET'', ''k'']" "''a:1''" 3999 False "NewRouter NewTopology 0"]
  by (simp add: counts_def movedEnv_def NewRouter_def)

text \<open>
  C28. A pipeline answers every request in its place: unless one of its requests makes
  \<open>Execute\<close> panic, \<open>ExecPipeline\<close> returns a list with one reply per request and no position is
  left empty, however the requests are split into batches and in whichever order the batches end.
\<close>

theorem ExecPipeline_fills:
  assumes "perm_order (goOrd env)"
  shows "case ExecPipeline env reqs r of
      None \<Rightarrow> \<exists>req \<in> set reqs. \<exists>r1. fst (Execute env req r1) = Inl Panic
    | Some (results, r') \<Rightarrow> length results = length reqs \<and> None \<notin> set results"
proof -
  define s where "s = classifyPipelineRequests reqs r"
  have s: "length (psResults s) = length reqs" "\<forall>i < length reqs. covered s i" "set (psComplex s) \<subseteq> {..<length reqs}"
    using classify_covers [of 0 reqs "\<lparr>psResults = replicate (length reqs) None, psComplex = [], psSimple = [], psRouter = r\<rparr>"]
      classify_complex [of 0 reqs "\<lparr>psResults = replicate (length reqs) None, psComplex = [], psSimple = [], psRouter = r\<rparr>"]
    by (auto simp: s_def classifyPipelineRequests_def Let_def)
  show ?thesis
  proof (cases "dispatchComplexRequests env reqs (psComplex s) (psResults s) (psRouter s)")
    case None
    from dispatchComplexRequests_panic [OF this] s(3) have "\<exists>req \<in> set reqs. \<exists>r1. fst (Execute env req r1) = Inl Panic"
      by (meson lessThan_iff nth_mem subsetD)
    with None show ?thesis by (simp add: ExecPipeline_def s_def [symmetric])
  next
    case (Some p)
    obtain results r1 where p: "p = (results, r1)" by (cases p)
    obtain results' r' where *: "dispatchSimpleRequests env (psSimple s) results r1 = (results', r')"
      by (cases "dispatchSimpleRequests env (psSimple s) results r1")
    have "length results' = length reqs" "\<forall>i < length reqs. results' ! i \<noteq> None"
      using dispatchComplexRequests_fills [OF Some [unfolded p]] dispatchSimpleRequests_fills [OF assms *] s(1,2)
      by (auto simp: covered_def)
    then show ?thesis using Some p * by (auto simp: ExecPipeline_def s_def [symmetric] in_set_conv_nth)
  qed
qed

lemma samplePipeline: "\<not> Option.is_none (ExecPipeline movedEnv (map subRequest [[''PING''], [''nope''], []]) (NewRouter NewTopology 0))"
  by code_simp

theorem ExecPipeline_fills_witness:
  "\<exists>results r'. ExecPipeline movedEnv (map subRequest [[''PING''], [''nope''], []]) (NewRouter NewTopology 0) = Some (results, r') \<and>
     length results = 3 \<and> None \<notin> set results"
proof -
  have "perm_order (goOrd movedEnv)" by (auto simp: perm_order_def movedEnv_def)
  from ExecPipeline_fills [OF this, of "map subRequest [[''PING''], [''nope''], []]" "NewRouter NewTopology 0"] samplePipeline
  show ?thesis by (auto simp: Option.is_none_def split: option.splits)
qed

end
