(* ===== verification/Client_State.thy ===== *)
theory Client_State
  imports Prelude
begin

text \<open>The states of a client connection and the limits of \<^verbatim>\<open>src/pkg/engine/handler.go\<close>.\<close>

datatype clientState = stateNormal | stateSubscribe | stateMulti | stateWatch | stateWatchMulti | stateBlocking

definition maxClientNameLen :: nat where "maxClientNameLen = 100"

text \<open>What a handler tells the event loop to do with the connection it was called for.\<close>

datatype action = ActNone | ActClose

end
