(* ===== verification/Glob.thy ===== *)
theory Glob
  imports Go_Strings
begin

text \<open>
  Pattern matching for \<^verbatim>\<open>PSUBSCRIBE\<close>: \<open>globMatch\<close> of \<^verbatim>\<open>src/pkg/engine/pubsub_hub.go\<close> and what it uses
  of the standard library, \<^verbatim>\<open>filepath.Match\<close> on Unix with the decoder of UTF-8. A malformed pattern is
  \<^term>\<open>None\<close>, a bad pattern error.
\<close>

section \<open>Runes\<close>

definition runeError :: int where "runeError = 0xFFFD"

definition cont :: "int \<Rightarrow> int \<Rightarrow> int \<Rightarrow> bool" where
  "cont lo hi b \<longleftrightarrow> lo \<le> b \<and> b \<le> hi"

text \<open>The first rune of a non-empty string and its width; an invalid byte is a rune of width 1.\<close>

definition decodeRune :: "bytes \<Rightarrow> int \<times> nat" where
  "decodeRune s =
     (let b = (\<lambda>i. if i < length s then of_char (s ! i) else 0);
          b0 = b 0; b1 = b 1; b2 = b 2; b3 = b 3
      in if b0 < 0x80 then (b0, 1)
         else if cont 0xC2 0xDF b0 \<and> cont 0x80 0xBF b1 then ((b0 - 0xC0) * 64 + (b1 - 0x80), 2)
         else if cont 0xE0 0xEF b0 \<and> cont (if b0 = 0xE0 then 0xA0 else 0x80) (if b0 = 0xED then 0x9F else 0xBF) b1 \<and> cont 0x80 0xBF b2
           then ((b0 - 0xE0) * 4096 + (b1 - 0x80) * 64 + (b2 - 0x80), 3)
         else if cont 0xF0 0xF4 b0 \<and> cont (if b0 = 0xF0 then 0x90 else 0x80) (if b0 = 0xF4 then 0x8F else 0xBF) b1 \<and>
             cont 0x80 0xBF b2 \<and> cont 0x80 0xBF b3
           then ((b0 - 0xF0) * 262144 + (b1 - 0x80) * 4096 + (b2 - 0x80) * 64 + (b3 - 0x80), 4)
         else (runeError, 1))"


section \<open>Matching\<close>

text \<open>
  A chunk is the part of a pattern up to the next star outside brackets; \<open>scanChunk_go\<close> finds
  where it ends. A backslash takes the next character with it.
\<close>

fun scanChunk_go :: "bool \<Rightarrow> bytes \<Rightarrow> bytes \<times> bytes" where
  "scanChunk_go inrange [] = ([], [])"
| "scanChunk_go inrange (c # p) =
     (if c = CHR ''*'' \<and> \<not> inrange then ([], c # p)
      else if c = CHR 0x5C then
        (case p of
           [] \<Rightarrow> ([c], [])
         | d # p' \<Rightarrow> (case scanChunk_go inrange p' of (chunk, rest) \<Rightarrow> (c # d # chunk, rest)))
      else (case scanChunk_go (if c = CHR ''['' then True else if c = CHR '']'' then False else inrange) p of
              (chunk, rest) \<Rightarrow> (c # chunk, rest)))"

definition scanChunk :: "bytes \<Rightarrow> bool \<times> bytes \<times> bytes" where
  "scanChunk pattern =
     (let p = dropWhile (\<lambda>c. c = CHR ''*'') pattern
      in (p \<noteq> pattern, scanChunk_go False p))"

text \<open>One character of a class, possibly escaped; the class must go on after it.\<close>

definition getEsc :: "bytes \<Rightarrow> (int \<times> bytes) option" where
  "getEsc chunk =
     (case chunk of
        [] \<Rightarrow> None
      | c # cs \<Rightarrow>
         if c = CHR ''-'' \<or> c = CHR '']'' then None
         else (let chunk' = if c = CHR 0x5C then cs else chunk
               in if chunk' = [] then None
                  else (case decodeRune chunk' of (r, n) \<Rightarrow>
                          if r = runeError \<and> n = 1 then None
                          else if drop n chunk' = [] then None
                          else Some (r, drop n chunk'))))"

text \<open>
  The ranges of a class; \<open>k\<close> bounds the number of ranges, each of which takes a byte. The result
  is whether the rune is in the class and the rest of the chunk.
\<close>

fun classLoop :: "nat \<Rightarrow> int \<Rightarrow> bool \<Rightarrow> bool \<Rightarrow> bytes \<Rightarrow> (bool \<times> bytes) option" where
  "classLoop 0 r first matched chunk = None"
| "classLoop (Suc k) r first matched chunk =
     (if \<not> first \<and> chunk \<noteq> [] \<and> hd chunk = CHR '']'' then Some (matched, tl chunk)
      else (case getEsc chunk of
         None \<Rightarrow> None
       | Some (lo, chunk1) \<Rightarrow>
          (case (if hd chunk1 = CHR ''-'' then getEsc (tl chunk1) else Some (lo, chunk1)) of
             None \<Rightarrow> None
           | Some (hi, chunk2) \<Rightarrow> classLoop k r False (matched \<or> lo \<le> r \<and> r \<le> hi) chunk2)))"

text \<open>
  Matching a chunk at the start of \<open>s\<close>; \<open>k\<close> bounds the number of items of the chunk. The result is
  \<^term>\<open>None\<close> for a malformed chunk, \<^term>\<open>Some None\<close> for a failure, and the rest of the string
  otherwise. After a failure the chunk is still checked.
\<close>

fun matchChunk_go :: "nat \<Rightarrow> bool \<Rightarrow> bytes \<Rightarrow> bytes \<Rightarrow> bytes option option" where
  "matchChunk_go k failed [] s = (if failed then Some None else Some (Some s))"
| "matchChunk_go 0 failed (c # cs) s = None"
| "matchChunk_go (Suc k) failed0 (c # cs) s =
     (let failed = failed0 \<or> s = [] in
      if c = CHR ''['' then
        (let rn = (if failed then (0, 0) else decodeRune s);
             negated = (cs \<noteq> [] \<and> hd cs = CHR ''^'');
             chunk = (if negated then tl cs else cs)
         in case classLoop (Suc (length chunk)) (fst rn) True False chunk of
              None \<Rightarrow> None
            | Some (matched, chunk') \<Rightarrow> matchChunk_go k (failed \<or> matched = negated) chunk' (drop (snd rn) s))
      else if c = CHR ''?'' then
        (if failed then matchChunk_go k failed cs s
         else matchChunk_go k (hd s = CHR ''/'') cs (drop (snd (decodeRune s)) s))
      else if c = CHR 0x5C then
        (case cs of
           [] \<Rightarrow> None
         | d # ds \<Rightarrow> if failed then matchChunk_go k failed ds s else matchChunk_go k (d \<noteq> hd s) ds (tl s))
      else if failed then matchChunk_go k failed cs s
      else matchChunk_go k (c \<noteq> hd s) cs (tl s))"

definition matchChunk :: "bytes \<Rightarrow> bytes \<Rightarrow> bytes option option" where
  "matchChunk chunk s = matchChunk_go (length chunk) False chunk s"

text \<open>The search after a star, which cannot skip a separator.\<close>

fun starLoop :: "bytes \<Rightarrow> bool \<Rightarrow> bytes \<Rightarrow> bytes option option" where
  "starLoop chunk lastChunk [] = Some None"
| "starLoop chunk lastChunk (c # name) =
     (if c = CHR ''/'' then Some None
      else (case matchChunk chunk name of
              None \<Rightarrow> None
            | Some (Some t) \<Rightarrow> if lastChunk \<and> t \<noteq> [] then starLoop chunk lastChunk name else Some (Some t)
            | Some None \<Rightarrow> starLoop chunk lastChunk name))"

text \<open>The rest of the pattern is checked before a failure is reported.\<close>

fun checkChunks :: "nat \<Rightarrow> bytes \<Rightarrow> bool" where
  "checkChunks 0 pattern = True"
| "checkChunks (Suc k) pattern =
     (pattern = [] \<or>
      (case scanChunk pattern of (star, chunk, rest) \<Rightarrow> matchChunk chunk [] \<noteq> None \<and> checkChunks k rest))"

fun Match_go :: "nat \<Rightarrow> bytes \<Rightarrow> bytes \<Rightarrow> bool option" where
  "Match_go 0 pattern name = Some (name = [])"
| "Match_go (Suc k) pattern name =
     (if pattern = [] then Some (name = [])
      else (case scanChunk pattern of (star, chunk, rest) \<Rightarrow>
        if star \<and> chunk = [] then Some (CHR ''/'' \<notin> set name)
        else (case matchChunk chunk name of
           None \<Rightarrow> None
         | Some m \<Rightarrow>
            if m \<noteq> None \<and> (the m = [] \<or> rest \<noteq> []) then Match_go k rest (the m)
            else (case (if star then starLoop chunk (rest = []) name else Some None) of
                    None \<Rightarrow> None
                  | Some (Some t) \<Rightarrow> Match_go k rest t
                  | Some None \<Rightarrow> if checkChunks (length rest) rest then Some False else None))))"

definition Match :: "bytes \<Rightarrow> bytes \<Rightarrow> bool option" where
  "Match pattern name = Match_go (length pattern) pattern name"

definition globMatch :: "bytes \<Rightarrow> bytes \<Rightarrow> bool" where
  "globMatch pattern subject \<longleftrightarrow> Match pattern subject = Some True"


section \<open>The bounds on the loops are enough\<close>

lemma width_positive:
  "0 < snd (if a then (x :: int, 1 :: nat) else if b then (y, 2) else if c then (z, 3) else if d then (u, 4) else (v, 1))"
  by simp

lemma decodeRune_width: "0 < snd (decodeRune s)"
  unfolding decodeRune_def Let_def by (rule width_positive)

lemma getEsc_length: "getEsc c = Some (r, c') \<Longrightarrow> length c' < length c \<and> c' \<noteq> []"
proof -
  assume *: "getEsc c = Some (r, c')"
  then obtain x xs where c: "c = x # xs" by (cases c) (auto simp: getEsc_def)
  define d where "d = (if x = CHR 0x5C then xs else c)"
  have "d \<noteq> [] \<and> c' = drop (snd (decodeRune d)) d \<and> c' \<noteq> []"
    using * unfolding getEsc_def c list.case d_def [unfolded c, symmetric] Let_def by (auto split: if_splits prod.splits)
  moreover have "length d \<le> length c" by (simp add: d_def c)
  ultimately show ?thesis using decodeRune_width [of d] by auto
qed

lemma classStep_length:
  assumes "getEsc c = Some (lo, c1)" "(if hd c1 = CHR ''-'' then getEsc (tl c1) else Some (lo, c1)) = Some (hi, c2)"
  shows "length c2 < length c"
  using assms getEsc_length [of c lo c1] getEsc_length [of "tl c1" hi c2] by (auto split: if_splits)

lemma classLoop_length: "classLoop k r first m c = Some (b, c') \<Longrightarrow> length c' < length c"
proof (induction k arbitrary: first m c)
  case (Suc k)
  show ?case
  proof (cases "\<not> first \<and> c \<noteq> [] \<and> hd c = CHR '']''")
    case True
    with Suc.prems show ?thesis by (cases c) auto
  next
    case False
    with Suc.prems obtain lo c1 hi c2 where *: "getEsc c = Some (lo, c1)"
      "(if hd c1 = CHR ''-'' then getEsc (tl c1) else Some (lo, c1)) = Some (hi, c2)"
      "classLoop k r False (m \<or> lo \<le> r \<and> r \<le> hi) c2 = Some (b, c')"
      by (auto split: option.splits)
    from Suc.IH [OF *(3)] classStep_length [OF *(1,2)] show ?thesis by simp
  qed
qed simp

lemma classLoop_fuel: "length c < k \<Longrightarrow> length c < k' \<Longrightarrow> classLoop k r first m c = classLoop k' r first m c"
proof (induction k arbitrary: k' first m c)
  case (Suc k)
  obtain j where j: "k' = Suc j" using Suc.prems by (cases k') auto
  have "classLoop k r False m' c2 = classLoop j r False m' c2" if "length c2 < length c" for m' c2
    using Suc that j by (intro Suc.IH) auto
  then show ?case
    using classStep_length [of c] unfolding j classLoop.simps(2)
    by (intro if_cong option.case_cong prod.case_cong refl) auto
qed simp

declare classLoop.simps [simp del]

lemma matchChunk_fuel: "length chunk \<le> k \<Longrightarrow> length chunk \<le> k' \<Longrightarrow> matchChunk_go k failed chunk s = matchChunk_go k' failed chunk s"
proof (induction k arbitrary: k' failed chunk s)
  case (Suc k)
  show ?case
  proof (cases chunk)
    case (Cons c cs)
    obtain j where j: "k' = Suc j" using Suc.prems Cons by (cases k') auto
    have IH: "matchChunk_go k f ds t = matchChunk_go j f ds t" if "length ds \<le> length cs" for f ds t
      using Suc that j Cons by (intro Suc.IH) auto
    have "length ds \<le> length cs" if "classLoop (Suc (length d)) r True False d = Some (b, ds)" "d = (if neg then tl cs else cs)" for r b d ds neg
      using classLoop_length [OF that(1)] that(2) by (auto split: if_splits)
    then show ?thesis
      unfolding Cons j matchChunk_go.simps(3) Let_def
      by (intro if_cong option.case_cong prod.case_cong list.case_cong refl IH) auto
  qed simp
qed simp

lemma scanChunk_go_append: "scanChunk_go inr p = (chunk, rest) \<Longrightarrow> p = chunk @ rest"
proof (induction inr p arbitrary: chunk rest rule: scanChunk_go.induct)
  case (2 inr c p)
  then show ?case by (cases "c = CHR ''*'' \<and> \<not> inr"; cases "c = CHR 0x5C"; cases p) (auto split: prod.splits)
qed simp

lemma scanChunk_rest: "scanChunk p = (star, chunk, rest) \<Longrightarrow> p \<noteq> [] \<Longrightarrow> length rest < length p"
proof -
  assume *: "scanChunk p = (star, chunk, rest)" "p \<noteq> []"
  let ?q = "dropWhile (\<lambda>c. c = CHR ''*'') p"
  have q: "?q = chunk @ rest" using *(1) scanChunk_go_append by (auto simp: scanChunk_def Let_def)
  show ?thesis
  proof (cases "hd p = CHR ''*''")
    case True
    then have "length ?q < length p" using *(2) length_dropWhile_le [of "\<lambda>c. c = CHR ''*''" "tl p"] by (cases p) auto
    then show ?thesis by (simp add: q)
  next
    case False
    then obtain c p' where p: "p = c # p'" "c \<noteq> CHR ''*''" using *(2) by (cases p) auto
    then have "chunk \<noteq> []" using *(1) by (auto simp: scanChunk_def Let_def split: if_splits list.splits prod.splits)
    then show ?thesis using q p by simp
  qed
qed

lemma checkChunks_fuel: "length p \<le> k \<Longrightarrow> length p \<le> k' \<Longrightarrow> checkChunks k p = checkChunks k' p"
proof (induction k arbitrary: k' p)
  case (Suc k)
  show ?case
  proof (cases "p = []")
    case False
    then obtain j where j: "k' = Suc j" using Suc.prems by (cases k') auto
    obtain star chunk rest where sc: "scanChunk p = (star, chunk, rest)" by (cases "scanChunk p")
    from scanChunk_rest [OF this False] have "checkChunks k rest = checkChunks j rest" using Suc j by (intro Suc.IH) auto
    then show ?thesis by (simp add: j sc)
  qed (cases k'; simp)
next
  case 0
  then show ?case by (cases k') auto
qed

lemma Match_fuel: "length p \<le> k \<Longrightarrow> length p \<le> k' \<Longrightarrow> Match_go k p s = Match_go k' p s"
proof (induction k arbitrary: k' p s)
  case (Suc k)
  show ?case
  proof (cases "p = []")
    case False
    then obtain j where j: "k' = Suc j" using Suc.prems by (cases k') auto
    obtain star chunk rest where sc: "scanChunk p = (star, chunk, rest)" by (cases "scanChunk p")
    from scanChunk_rest [OF this False] have "Match_go k rest t = Match_go j rest t" for t using Suc j by (intro Suc.IH) auto
    then have e: "Match_go k rest = Match_go j rest" by auto
    show ?thesis unfolding j Match_go.simps(2) sc prod.case e ..
  qed (cases k'; simp)
next
  case 0
  then show ?case by (cases k') auto
qed


section \<open>Literals and prefixes\<close>

definition literal :: "bytes \<Rightarrow> bool" where
  "literal p \<longleftrightarrow> set p \<inter> {CHR ''*'', CHR ''?'', CHR ''['', CHR 0x5C} = {}"

lemma scanChunk_literal:
  assumes "literal p" "rest = [] \<or> hd rest = CHR ''*''"
  shows "scanChunk_go False (p @ rest) = (p, rest)"
  using assms(1)
proof (induction p)
  case Nil
  then show ?case using assms(2) by (cases rest) auto
qed (auto simp: literal_def)

lemma matchChunk_literal:
  "literal p \<Longrightarrow> length p \<le> k \<Longrightarrow> matchChunk_go k failed p s =
     Some (if \<not> failed \<and> take (length p) s = p then Some (drop (length p) s) else None)"
proof (induction p arbitrary: k failed s)
  case (Cons c p)
  obtain j where j: "k = Suc j" using Cons.prems by (cases k) auto
  have l: "literal p" using Cons.prems by (simp add: literal_def)
  show ?case using Cons.prems by (cases s) (auto simp: j Cons.IH [OF l] literal_def Let_def)
qed simp

lemma globMatch_literal: "literal p \<Longrightarrow> globMatch p s \<longleftrightarrow> s = p"
proof -
  assume l: "literal p"
  show ?thesis
  proof (cases p)
    case Nil
    then show ?thesis by (auto simp: globMatch_def Match_def)
  next
    case (Cons c cs)
    have "scanChunk p = (False, p, [])"
      using scanChunk_literal [OF l, of "[]"] l Cons by (auto simp: scanChunk_def literal_def Let_def)
    moreover have "matchChunk p s = Some (if take (length p) s = p then Some (drop (length p) s) else None)"
      using matchChunk_literal [OF l, of "length p" False s] by (simp add: matchChunk_def)
    moreover have "Match_go k [] t = Some (t = [])" for k t by (cases k) auto
    ultimately show ?thesis
      using Cons by (auto simp: globMatch_def Match_def split: if_splits)
  qed
qed

lemma globMatch_prefix: "literal p \<Longrightarrow> globMatch (p @ ''*'') s \<longleftrightarrow> (\<exists>t. s = p @ t \<and> CHR ''/'' \<notin> set t)"
proof -
  assume l: "literal p"
  have star: "Match_go (Suc k) ''*'' t = Some (CHR ''/'' \<notin> set t)" for k t
    by (simp add: scanChunk_def Let_def)
  show ?thesis
  proof (cases p)
    case Nil
    then show ?thesis using star [of 0 s] by (simp add: globMatch_def Match_def)
  next
    case (Cons c cs)
    have "scanChunk (p @ ''*'') = (False, p, ''*'')"
      using scanChunk_literal [OF l, of "''*''"] l Cons by (auto simp: scanChunk_def literal_def Let_def)
    moreover have "matchChunk p s = Some (if take (length p) s = p then Some (drop (length p) s) else None)"
      using matchChunk_literal [OF l, of "length p" False s] by (simp add: matchChunk_def)
    moreover have "checkChunks (length ''*'') ''*''" by code_simp
    ultimately have "globMatch (p @ ''*'') s \<longleftrightarrow> take (length p) s = p \<and> CHR ''/'' \<notin> set (drop (length p) s)"
      using Cons star [of "length cs"] by (simp add: globMatch_def Match_def Match_go.simps(2) [of "Suc (length cs)"] del: Match_go.simps(2))
    then show ?thesis by (metis append_eq_conv_conj append_take_drop_id)
  qed
qed

section \<open>Properties\<close>

lemma globMatch_table:
  "globMatch ''*'' ''anything''" "globMatch ''*'' []" "globMatch ''news:*'' ''news:sports''" "globMatch ''news:*'' ''news:''"
  "\<not> globMatch ''news:*'' ''other:sports''" "globMatch ''h?llo'' ''hello''" "\<not> globMatch ''h?llo'' ''hllo''"
  "\<not> globMatch ''h?llo'' ''heello''" "globMatch ''exact'' ''exact''" "\<not> globMatch ''exact'' ''Exact''"
  "globMatch ''[abc]oo'' ''aoo''" "\<not> globMatch ''[abc]oo'' ''doo''"
  by code_simp+

end
