(* ===== verification/PubsubHub.thy ===== *)
theory PubsubHub
  imports Client_State Glob Request Topology Alist_Extra
begin

text \<open>
  The subscription hub of an event loop, \<^verbatim>\<open>src/pkg/engine/pubsub_hub.go\<close>: all the subscribers of the
  loop share one connection to a node. The hub keeps who subscribed to what in two maps, one by
  channel or pattern and one by client, and hands the messages of the shared connection to the
  subscribers. Clients are numbers; the context of a client is reached through its number. What
  the hub does to the outside is a list of effects in order. The order in which the source ranges
  over the map of subscriptions is a parameter.
\<close>

section \<open>State and effects\<close>

record subEntry =
  seConn :: nat
  sePattern :: bytes
  seGlob :: bool

record pubsubHub =
  hbBackend :: "nat option"
  hbDialing :: bool
  hbPending :: "(nat \<times> Request) list"
  hbSubs :: "(bytes \<times> subEntry list) list"
  hbClientSubs :: "(nat \<times> bytes list) list"

datatype hubEffect =
    HubWrite nat bytes
  | HubBackend bytes
  | HubRegister bytes
  | HubState nat clientState

text \<open>
  The environment: the topology, the error of resolving or registering an address, if any, the
  credentials for the nodes and the iteration order over subscriptions.
\<close>

record hubEnv =
  heTopo :: Topology
  heDialErr :: "bytes \<Rightarrow> bool"
  heUsername :: bytes
  hePassword :: bytes
  heOrder :: map_order

definition newPubsubHub :: pubsubHub where
  "newPubsubHub = \<lparr>hbBackend = None, hbDialing = False, hbPending = [], hbSubs = [], hbClientSubs = []\<rparr>"

definition subsOf :: "(bytes \<times> subEntry list) list \<Rightarrow> bytes \<Rightarrow> subEntry list" where
  "subsOf subs p = (case map_of subs p of None \<Rightarrow> [] | Some es \<Rightarrow> es)"

definition clientSubsOf :: "pubsubHub \<Rightarrow> nat \<Rightarrow> bytes list" where
  "clientSubsOf hub c = (case map_of (hbClientSubs hub) c of None \<Rightarrow> [] | Some ps \<Rightarrow> ps)"


section \<open>Subscriptions\<close>

definition addSub :: "nat \<Rightarrow> bytes \<Rightarrow> bool \<Rightarrow> pubsubHub \<Rightarrow> pubsubHub" where
  "addSub c pattern isGlob hub =
     (if \<exists>e \<in> set (subsOf (hbSubs hub) pattern). seConn e = c then hub
      else hub\<lparr>hbSubs := AList.update pattern
                 (subsOf (hbSubs hub) pattern @ [\<lparr>seConn = c, sePattern = pattern, seGlob = isGlob\<rparr>]) (hbSubs hub),
               hbClientSubs := AList.update c (List.insert pattern (clientSubsOf hub c)) (hbClientSubs hub)\<rparr>)"

text \<open>Drop the first entry of a client from the entries of a pattern, and the pattern when it has none left.\<close>

fun dropFirst :: "nat \<Rightarrow> subEntry list \<Rightarrow> subEntry list" where
  "dropFirst c [] = []"
| "dropFirst c (e # es) = (if seConn e = c then es else e # dropFirst c es)"

definition dropEntry :: "nat \<Rightarrow> bytes \<Rightarrow> (bytes \<times> subEntry list) list \<Rightarrow> (bytes \<times> subEntry list) list" where
  "dropEntry c p subs =
     (let subs' = (if \<exists>e \<in> set (subsOf subs p). seConn e = c then AList.update p (dropFirst c (subsOf subs p)) subs else subs)
      in if subsOf subs' p = [] then AList.delete p subs' else subs')"

definition removeSub :: "nat \<Rightarrow> bytes \<Rightarrow> pubsubHub \<Rightarrow> pubsubHub" where
  "removeSub c pattern hub =
     (let hub' = hub\<lparr>hbSubs := dropEntry c pattern (hbSubs hub)\<rparr>
      in case map_of (hbClientSubs hub) c of
           None \<Rightarrow> hub'
         | Some ps \<Rightarrow> hub'\<lparr>hbClientSubs := AList.update c (removeAll pattern ps) (hbClientSubs hub)\<rparr>)"

definition removeAllSubs :: "nat \<Rightarrow> pubsubHub \<Rightarrow> pubsubHub" where
  "removeAllSubs c hub = hub\<lparr>hbSubs := fold (dropEntry c) (clientSubsOf hub c) (hbSubs hub)\<rparr>"

definition forwardToBackend :: "Request \<Rightarrow> pubsubHub \<Rightarrow> hubEffect list" where
  "forwardToBackend req hub = (case hbBackend hub of None \<Rightarrow> [] | Some _ \<Rightarrow> [HubBackend (EncodeCommandBytes (Args req))])"

definition dialSharedBackend :: "hubEnv \<Rightarrow> pubsubHub \<Rightarrow> pubsubHub \<times> hubEffect list" where
  "dialSharedBackend env hub =
     (case AllMasters (heTopo env) of
        [] \<Rightarrow> (hub\<lparr>hbDialing := False\<rparr>, [])
      | n # _ \<Rightarrow>
         if heDialErr env (nAddr n) then (hub\<lparr>hbDialing := False\<rparr>, [])
         else (hub\<lparr>hbDialing := True\<rparr>, [HubRegister (nAddr n)]))"

definition subscribe :: "hubEnv \<Rightarrow> nat \<Rightarrow> Request \<Rightarrow> pubsubHub \<Rightarrow> pubsubHub \<times> hubEffect list" where
  "subscribe env c req hub0 =
     (case (if hbBackend hub0 = None \<and> \<not> hbDialing hub0 then dialSharedBackend env hub0 else (hub0, [])) of
        (hub1, es) \<Rightarrow>
          (let hub2 = fold (\<lambda>p. addSub c p (Cmd req = ''PSUBSCRIBE'')) (tl (Args req)) hub1;
               es' = HubState c stateSubscribe # es
           in if hbBackend hub2 \<noteq> None then (hub2, es' @ forwardToBackend req hub2)
              else (hub2\<lparr>hbPending := hbPending hub2 @ [(c, req)]\<rparr>, es')))"

definition unsubReply :: "bytes \<Rightarrow> bytes \<Rightarrow> int \<Rightarrow> bytes" where
  "unsubReply subType ch n = EncodeValue (Some (ArrayV [Some (BulkV subType), Some (BulkV ch), Some (IntValue n)]))"

definition unsubscribe :: "nat \<Rightarrow> Request \<Rightarrow> pubsubHub \<Rightarrow> pubsubHub \<times> hubEffect list" where
  "unsubscribe c req hub0 =
     (let hub1 = (if length (Args req) = 1 then removeAllSubs c hub0 else fold (removeSub c) (tl (Args req)) hub0);
          none = (clientSubsOf hub1 c = []);
          hub2 = (if none then hub1\<lparr>hbClientSubs := AList.delete c (hbClientSubs hub1)\<rparr> else hub1);
          es = (if none then [HubState c stateNormal] else [])
      in (hub2,
          es @ (if hbBackend hub2 \<noteq> None then forwardToBackend req hub2
                else (let subType = (if Cmd req = ''PUNSUBSCRIBE'' then ''punsubscribe'' else ''unsubscribe'');
                          n = int (length (clientSubsOf hub2 c))
                      in map (\<lambda>ch. HubWrite c (unsubReply subType ch n)) (tl (Args req))))))"

definition removeClient :: "nat \<Rightarrow> pubsubHub \<Rightarrow> pubsubHub" where
  "removeClient c hub =
     (let hub' = removeAllSubs c hub in hub'\<lparr>hbClientSubs := AList.delete c (hbClientSubs hub')\<rparr>)"


section \<open>The shared connection\<close>

definition hubAuth :: "hubEnv \<Rightarrow> hubEffect list" where
  "hubAuth env =
     (if hePassword env = [] then []
      else [HubBackend (EncodeCommandBytes
              (if heUsername env \<noteq> [] then [''AUTH'', heUsername env, hePassword env] else [''AUTH'', hePassword env]))])"

definition onSharedBackendOpen :: "hubEnv \<Rightarrow> nat \<Rightarrow> pubsubHub \<Rightarrow> pubsubHub \<times> hubEffect list" where
  "onSharedBackendOpen env conn hub0 =
     (let hub = hub0\<lparr>hbDialing := False, hbBackend := Some conn\<rparr>
      in (hub\<lparr>hbPending := []\<rparr>,
          hubAuth env @ [HubBackend (EncodeCommandBytes [''PSUBSCRIBE'', ''*''])] @
          concat (map (\<lambda>(_, req). forwardToBackend req hub) (hbPending hub))))"

text \<open>The entries of all the patterns in iteration order, and the clients to notify, each once.\<close>

definition rangeSubs :: "hubEnv \<Rightarrow> pubsubHub \<Rightarrow> (bytes \<times> subEntry list) list" where
  "rangeSubs env hub = map (\<lambda>p. (p, subsOf (hbSubs hub) p)) (heOrder env (map fst (hbSubs hub)))"

fun notifyEach :: "nat list \<Rightarrow> nat list \<Rightarrow> nat list" where
  "notifyEach notified [] = []"
| "notifyEach notified (c # cs) = (if c \<in> set notified then notifyEach notified cs else c # notifyEach (c # notified) cs)"

definition backendLost :: bytes where
  "backendLost = EncodeError ''ERR pubsub backend connection lost; please re-subscribe''"

definition onSharedBackendClose :: "hubEnv \<Rightarrow> pubsubHub \<Rightarrow> pubsubHub \<times> hubEffect list" where
  "onSharedBackendClose env hub =
     (hub\<lparr>hbBackend := None, hbDialing := False, hbSubs := [], hbClientSubs := []\<rparr>,
      concat (map (\<lambda>c. [HubWrite c backendLost, HubState c stateNormal])
                  (notifyEach [] (concat (map (map seConn \<circ> snd) (rangeSubs env hub))))))"

definition sharedDialFailed :: "pubsubHub \<Rightarrow> pubsubHub" where
  "sharedDialFailed hub = hub\<lparr>hbDialing := False\<rparr>"


section \<open>Messages\<close>

definition toExact :: "pubsubHub \<Rightarrow> bytes \<Rightarrow> bytes \<Rightarrow> hubEffect list" where
  "toExact hub channel data =
     map (\<lambda>e. HubWrite (seConn e) data) (filter (\<lambda>e. \<not> seGlob e) (subsOf (hbSubs hub) channel))"

definition toPatterns :: "hubEnv \<Rightarrow> pubsubHub \<Rightarrow> bytes \<Rightarrow> bytes option \<Rightarrow> hubEffect list" where
  "toPatterns env hub channel payload =
     concat (map (\<lambda>(p, es).
         map (\<lambda>e. HubWrite (seConn e)
               (EncodeValue (Some (ArrayV [Some (BulkV ''pmessage''), Some (BulkV p), Some (BulkV channel), Some (BulkValue payload)]))))
             (filter (\<lambda>e. seGlob e \<and> globMatch p channel) es))
       (rangeSubs env hub))"

text \<open>A message from the shared connection; \<^term>\<open>None\<close> is a panic on a nil element.\<close>

definition elemStr :: "Value \<Rightarrow> nat \<Rightarrow> bytes option" where
  "elemStr v i = map_option vStr (vArray v ! i)"

text \<open>The payload is a nil slice for an element that is a nil, an integer or an array.\<close>

definition elemPayload :: "Value \<Rightarrow> nat \<Rightarrow> bytes option option" where
  "elemPayload v i =
     map_option (\<lambda>w. if vType w \<in> {TypeSimpleString, TypeError, TypeBulkString} \<and> \<not> vIsNil w then Some (vStr w) else None)
       (vArray v ! i)"

definition dispatchMessage :: "hubEnv \<Rightarrow> pubsubHub \<Rightarrow> Value \<Rightarrow> hubEffect list option" where
  "dispatchMessage env hub v =
     (if vType v \<noteq> TypeArray \<or> length (vArray v) < 3 then Some []
      else (case elemStr v 0 of
         None \<Rightarrow> None
       | Some s \<Rightarrow>
          (let msgType = to_lower s in
           if msgType = ''psubscribe'' \<or> msgType = ''punsubscribe'' then Some []
           else if msgType = ''subscribe'' \<or> msgType = ''unsubscribe'' then
             (case elemStr v 1 of None \<Rightarrow> None | Some channel \<Rightarrow> Some (toExact hub channel (EncodeValue (Some v))))
           else if msgType = ''message'' then
             (case (elemStr v 1, elemPayload v 2) of
                (Some channel, Some payload) \<Rightarrow> Some (toExact hub channel (EncodeValue (Some v)) @ toPatterns env hub channel payload)
              | (Some channel, None) \<Rightarrow>
                  if toPatterns env hub channel None = [] then Some (toExact hub channel (EncodeValue (Some v))) else None
              | _ \<Rightarrow> None)
           else if msgType = ''pmessage'' then
             (if length (vArray v) < 4 then Some []
              else (case (elemStr v 2, elemPayload v 3) of
                (Some channel, Some payload) \<Rightarrow> Some (toPatterns env hub channel payload)
              | _ \<Rightarrow> None))
           else Some [])))"

text \<open>
  The read loop on the bytes that have arrived; \<open>k\<close> bounds the number of messages, each of which
  takes a byte. \<^term>\<open>None\<close> is a panic; the bytes in the result are not consumed.
\<close>

fun sharedTraffic :: "hubEnv \<Rightarrow> nat \<Rightarrow> bytes \<Rightarrow> pubsubHub \<Rightarrow> (bytes \<times> hubEffect list \<times> action) option" where
  "sharedTraffic env 0 buf hub = Some (buf, [], ActNone)"
| "sharedTraffic env (Suc k) buf hub =
     (case ParseValue buf of
        Inl Panic \<Rightarrow> None
      | Inl _ \<Rightarrow> Some (buf, [], ActClose)
      | Inr None \<Rightarrow> Some (buf, [], ActNone)
      | Inr (Some (v, n)) \<Rightarrow>
         (case dispatchMessage env hub v of
            None \<Rightarrow> None
          | Some es \<Rightarrow>
             (case sharedTraffic env k (drop n buf) hub of
                None \<Rightarrow> None
              | Some (rest, es', a) \<Rightarrow> Some (rest, es @ es', a))))"

definition onSharedBackendTraffic :: "hubEnv \<Rightarrow> bytes \<Rightarrow> pubsubHub \<Rightarrow> (bytes \<times> hubEffect list \<times> action) option" where
  "onSharedBackendTraffic env buf hub = sharedTraffic env (Suc (length buf)) buf hub"

end
