(* ===== verification/Runs.thy ===== *)
theory Runs
  imports Main
begin

text \<open>
  Runs of a component: a step takes an operation and a state to a new state and the effects, or
  fails, which stands for a panic. The locales hold the induction over runs once: an invariant
  that every step keeps holds after every run, and a step-wise simulation is a simulation of runs.
\<close>

fun runs :: "('op \<Rightarrow> 's \<Rightarrow> ('s \<times> 'e list) option) \<Rightarrow> 'op list \<Rightarrow> 's \<Rightarrow> ('s \<times> 'e list) option" where
  "runs step [] s = Some (s, [])"
| "runs step (op # ops) s =
     (case step op s of
        None \<Rightarrow> None
      | Some (s', es) \<Rightarrow> (case runs step ops s' of None \<Rightarrow> None | Some (s'', es') \<Rightarrow> Some (s'', es @ es')))"

lemma runs_ConsE:
  assumes "runs step (op # ops) s = Some (s'', es)"
  obtains s' es1 es2 where "step op s = Some (s', es1)" "runs step ops s' = Some (s'', es2)" "es = es1 @ es2"
  using assms by (auto split: option.splits)

lemma runs_append:
  "runs step (xs @ ys) s =
     (case runs step xs s of
        None \<Rightarrow> None
      | Some (s', es) \<Rightarrow> (case runs step ys s' of None \<Rightarrow> None | Some (s'', es') \<Rightarrow> Some (s'', es @ es')))"
  by (induction xs arbitrary: s) (auto split: option.split)

locale step_invariant =
  fixes step :: "'op \<Rightarrow> 's \<Rightarrow> ('s \<times> 'e list) option"
    and inv :: "'s \<Rightarrow> bool"
  assumes step_inv: "inv s \<Longrightarrow> step op s = Some (s', es) \<Longrightarrow> inv s'"
begin

lemma runs_inv: "runs step ops s = Some (s', es) \<Longrightarrow> inv s \<Longrightarrow> inv s'"
  by (induction ops arbitrary: s es) (auto elim!: runs_ConsE intro: step_inv simp del: runs.simps(2))

text \<open>Effects of a step that respect a property do so over a run.\<close>

lemma runs_effects:
  assumes "\<And>s op s' es. inv s \<Longrightarrow> op \<in> set ops \<Longrightarrow> step op s = Some (s', es) \<Longrightarrow> \<forall>e \<in> set es. Q e"
  shows "runs step ops s = Some (s', es) \<Longrightarrow> inv s \<Longrightarrow> \<forall>e \<in> set es. Q e"
  using assms
proof (induction ops arbitrary: s es)
  case (Cons op ops)
  from Cons.prems(1) obtain s1 es1 es2 where *: "step op s = Some (s1, es1)" "runs step ops s1 = Some (s', es2)" "es = es1 @ es2"
    by (rule runs_ConsE)
  have "\<forall>e \<in> set es2. Q e"
    by (rule Cons.IH [OF *(2) step_inv [OF Cons.prems(2) *(1)]]) (rule Cons.prems(3), auto)
  moreover have "\<forall>e \<in> set es1. Q e" by (rule Cons.prems(3) [OF Cons.prems(2) _ *(1)]) simp
  ultimately show ?case using *(3) by auto
qed simp

end

locale step_simulation = step_invariant step inv
  for step :: "'op \<Rightarrow> 's \<Rightarrow> ('s \<times> 'e list) option" and inv :: "'s \<Rightarrow> bool" +
  fixes abs :: "'s \<Rightarrow> 'a"
    and astep :: "'op \<Rightarrow> 'a \<Rightarrow> 'a"
  assumes step_abs: "inv s \<Longrightarrow> step op s = Some (s', es) \<Longrightarrow> abs s' = astep op (abs s)"
begin

lemma runs_abs: "runs step ops s = Some (s', es) \<Longrightarrow> inv s \<Longrightarrow> abs s' = fold astep ops (abs s)"
proof (induction ops arbitrary: s es)
  case (Cons op ops)
  from Cons.prems(1) show ?case
    by (rule runs_ConsE) (use Cons.IH Cons.prems(2) step_inv step_abs in auto)
qed simp

end

end
