(* ===== verification/PubsubHub_Correct.thy ===== *)
theory PubsubHub_Correct
  imports PubsubHub Topology_Correct Runs
begin

text \<open>
  The subscription hub implements a set of subscriptions: every operation acts on the set as it
  should, the map by client records all of the set and, as long as nobody unsubscribes from
  everything at once, nothing else, a publication is written once for each subscription that it
  concerns and to nobody else, and nothing is written to a client that has left.
\<close>

section \<open>Entries\<close>

lemma subsOf_update [simp]: "subsOf (AList.update p es s) q = (if q = p then es else subsOf s q)"
  by (simp add: subsOf_def update_conv')

lemma subsOf_delete [simp]: "subsOf (AList.delete p s) q = (if q = p then [] else subsOf s q)"
  by (simp add: subsOf_def)

lemma subsOf_Nil [simp]: "subsOf [] q = []"
  by (simp add: subsOf_def)

lemma clientSubsOf_update [simp]:
  "clientSubsOf (h\<lparr>hbClientSubs := AList.update c ps (hbClientSubs h)\<rparr>) d = (if d = c then ps else clientSubsOf h d)"
  "clientSubsOf (h\<lparr>hbClientSubs := AList.delete c (hbClientSubs h)\<rparr>) d = (if d = c then [] else clientSubsOf h d)"
  by (simp_all add: clientSubsOf_def update_conv')

lemma clientSubsOf_other [simp]:
  "clientSubsOf (h\<lparr>hbSubs := s\<rparr>) d = clientSubsOf h d" "clientSubsOf (h\<lparr>hbPending := q\<rparr>) d = clientSubsOf h d"
  "clientSubsOf (h\<lparr>hbDialing := b\<rparr>) d = clientSubsOf h d" "clientSubsOf (h\<lparr>hbBackend := x\<rparr>) d = clientSubsOf h d"
  by (simp_all add: clientSubsOf_def)

lemma dropFirst_notin: "\<forall>e \<in> set es. seConn e \<noteq> c \<Longrightarrow> dropFirst c es = es"
  by (induction es) auto

lemma dropFirst_filter: "distinct (map seConn es) \<Longrightarrow> dropFirst c es = filter (\<lambda>e. seConn e \<noteq> c) es"
proof (induction es)
  case (Cons e es)
  then show ?case by (auto intro!: filter_True [symmetric], metis image_eqI)
qed simp

lemma subsOf_dropEntry [simp]: "subsOf (dropEntry c p s) q = (if q = p then dropFirst c (subsOf s p) else subsOf s q)"
  using dropFirst_notin [of "subsOf s p" c] by (auto simp: dropEntry_def Let_def)

lemma keys_ok_dropEntry: "keys_ok s \<Longrightarrow> keys_ok (dropEntry c p s)"
  by (simp add: dropEntry_def Let_def)


section \<open>The invariant\<close>

definition entries_ok :: "pubsubHub \<Rightarrow> bool" where
  "entries_ok hub \<longleftrightarrow> (\<forall>p. distinct (map seConn (subsOf (hbSubs hub) p)) \<and>
     (\<forall>e \<in> set (subsOf (hbSubs hub) p). sePattern e = p \<and> p \<in> set (clientSubsOf hub (seConn e))))"

definition hub_ok :: "pubsubHub \<Rightarrow> bool" where
  "hub_ok hub \<longleftrightarrow> keys_ok (hbSubs hub) \<and> keys_ok (hbClientSubs hub) \<and> entries_ok hub"

lemma hub_ok_new [simp]: "hub_ok newPubsubHub"
  by (simp add: hub_ok_def entries_ok_def newPubsubHub_def)

lemma entries_okD:
  assumes "entries_ok hub"
  shows "distinct (map seConn (subsOf (hbSubs hub) p))"
    and "e \<in> set (subsOf (hbSubs hub) p) \<Longrightarrow> sePattern e = p \<and> p \<in> set (clientSubsOf hub (seConn e))"
  using assms by (auto simp: entries_ok_def)

lemma addSub_ok: "hub_ok hub \<Longrightarrow> hub_ok (addSub c p g hub)"
  unfolding hub_ok_def entries_ok_def addSub_def by (auto simp: clientSubsOf_def update_conv')

lemma removeSub_ok: "hub_ok hub \<Longrightarrow> hub_ok (removeSub c p hub)"
proof -
  assume ok: "hub_ok hub"
  then have e: "entries_ok hub" by (simp add: hub_ok_def)
  have d: "dropFirst c (subsOf (hbSubs hub) p) = filter (\<lambda>e. seConn e \<noteq> c) (subsOf (hbSubs hub) p)"
    using dropFirst_filter entries_okD(1) [OF e] .
  have c: "clientSubsOf (removeSub c p hub) d = (if d = c then removeAll p (clientSubsOf hub c) else clientSubsOf hub d)" for d
    by (auto simp: removeSub_def Let_def clientSubsOf_def update_conv' split: option.split)
  have s: "hbSubs (removeSub c p hub) = dropEntry c p (hbSubs hub)" by (simp add: removeSub_def Let_def split: option.split)
  have "keys_ok (hbClientSubs (removeSub c p hub))" using ok by (simp add: hub_ok_def removeSub_def Let_def split: option.split)
  then show ?thesis
    using ok entries_okD [OF e] by (auto simp: hub_ok_def entries_ok_def s c d distinct_map_filter keys_ok_dropEntry)
qed

lemma subsOf_fold_dropEntry:
  assumes "\<And>q. distinct (map seConn (subsOf s q))"
  shows "subsOf (fold (dropEntry c) ps s) q = (if q \<in> set ps then filter (\<lambda>e. seConn e \<noteq> c) (subsOf s q) else subsOf s q)"
  using assms
proof (induction ps arbitrary: s)
  case (Cons p ps)
  have d: "dropFirst c (subsOf s p) = filter (\<lambda>e. seConn e \<noteq> c) (subsOf s p)" using dropFirst_filter Cons.prems .
  have "distinct (map seConn (subsOf (dropEntry c p s) q))" for q using Cons.prems by (simp add: d distinct_map_filter)
  from Cons.IH [OF this] show ?case by (auto simp: d)
qed simp

lemma removeAllSubs_subs:
  assumes "hub_ok hub"
  shows "subsOf (hbSubs (removeAllSubs c hub)) q = filter (\<lambda>e. seConn e \<noteq> c) (subsOf (hbSubs hub) q)"
proof -
  have e: "entries_ok hub" using assms by (simp add: hub_ok_def)
  have "filter (\<lambda>e. seConn e \<noteq> c) (subsOf (hbSubs hub) q) = subsOf (hbSubs hub) q" if "q \<notin> set (clientSubsOf hub c)"
    using that entries_okD(2) [OF e] by (intro filter_True) auto
  then show ?thesis
    using subsOf_fold_dropEntry [of "hbSubs hub" c "clientSubsOf hub c" q] entries_okD(1) [OF e] by (simp add: removeAllSubs_def)
qed

lemma removeAllSubs_ok: "hub_ok hub \<Longrightarrow> hub_ok (removeAllSubs c hub)"
proof -
  assume ok: "hub_ok hub"
  have "keys_ok (fold (dropEntry c) ps s)" if "keys_ok s" for ps and s :: "(bytes \<times> subEntry list) list"
    using that by (induction ps arbitrary: s) (simp_all add: keys_ok_dropEntry)
  moreover have "clientSubsOf (removeAllSubs c hub) d = clientSubsOf hub d" for d by (simp add: removeAllSubs_def)
  moreover have "hbClientSubs (removeAllSubs c hub) = hbClientSubs hub" by (simp add: removeAllSubs_def)
  ultimately show ?thesis
    using ok by (auto simp: hub_ok_def entries_ok_def removeAllSubs_subs distinct_map_filter) (simp add: removeAllSubs_def)
qed


lemma removeClient_ok: "hub_ok hub \<Longrightarrow> hub_ok (removeClient c hub)"
proof -
  assume ok: "hub_ok hub"
  from removeAllSubs_ok [OF this, of c] removeAllSubs_subs [OF ok, of c] show ?thesis
    by (auto simp: removeClient_def Let_def hub_ok_def entries_ok_def)
qed


section \<open>Runs\<close>

datatype hubOp =
    OpSubscribe nat Request
  | OpUnsubscribe nat Request
  | OpRemove nat
  | OpOpen nat
  | OpClose
  | OpDialFailed
  | OpTraffic bytes

definition hubStep :: "hubEnv \<Rightarrow> hubOp \<Rightarrow> pubsubHub \<Rightarrow> (pubsubHub \<times> hubEffect list) option" where
  "hubStep env op hub =
     (case op of
        OpSubscribe c req \<Rightarrow> Some (subscribe env c req hub)
      | OpUnsubscribe c req \<Rightarrow> Some (unsubscribe c req hub)
      | OpRemove c \<Rightarrow> Some (removeClient c hub, [])
      | OpOpen b \<Rightarrow> Some (onSharedBackendOpen env b hub)
      | OpClose \<Rightarrow> Some (onSharedBackendClose env hub)
      | OpDialFailed \<Rightarrow> Some (sharedDialFailed hub, [])
      | OpTraffic buf \<Rightarrow> map_option (\<lambda>(_, es, _). (hub, es)) (onSharedBackendTraffic env buf hub))"

abbreviation hubRun :: "hubEnv \<Rightarrow> hubOp list \<Rightarrow> pubsubHub \<Rightarrow> (pubsubHub \<times> hubEffect list) option" where
  "hubRun env \<equiv> runs (hubStep env)"

text \<open>
  The subscriptions of a hub as a set of client, channel or pattern, and kind, and what the
  operations do to the set. A client has at most one subscription per name.
\<close>

definition absSubs :: "pubsubHub \<Rightarrow> (nat \<times> bytes \<times> bool) set" where
  "absSubs hub = {(c, p, g). \<exists>e \<in> set (subsOf (hbSubs hub) p). seConn e = c \<and> seGlob e = g}"

definition addOne :: "nat \<Rightarrow> bool \<Rightarrow> bytes \<Rightarrow> (nat \<times> bytes \<times> bool) set \<Rightarrow> (nat \<times> bytes \<times> bool) set" where
  "addOne c g p S = (if (c, p, True) \<in> S \<or> (c, p, False) \<in> S then S else insert (c, p, g) S)"

definition specStep :: "hubOp \<Rightarrow> (nat \<times> bytes \<times> bool) set \<Rightarrow> (nat \<times> bytes \<times> bool) set" where
  "specStep op S =
     (case op of
        OpSubscribe c req \<Rightarrow> fold (addOne c (Cmd req = ''PSUBSCRIBE'')) (tl (Args req)) S
      | OpUnsubscribe c req \<Rightarrow> {(d, p, g) \<in> S. \<not> (d = c \<and> (length (Args req) = 1 \<or> p \<in> set (tl (Args req))))}
      | OpRemove c \<Rightarrow> {(d, p, g) \<in> S. d \<noteq> c}
      | OpClose \<Rightarrow> {}
      | _ \<Rightarrow> S)"

lemma absSubs_simps [simp]:
  "absSubs (h\<lparr>hbPending := q\<rparr>) = absSubs h" "absSubs (h\<lparr>hbDialing := b\<rparr>) = absSubs h" "absSubs (h\<lparr>hbBackend := x\<rparr>) = absSubs h"
  "absSubs (h\<lparr>hbClientSubs := cs\<rparr>) = absSubs h"
  by (simp_all add: absSubs_def)

lemma absSubs_new [simp]: "absSubs newPubsubHub = {}"
  by (simp add: absSubs_def newPubsubHub_def)

lemma hub_ok_simps [simp]:
  "hub_ok (h\<lparr>hbPending := q\<rparr>) = hub_ok h" "hub_ok (h\<lparr>hbDialing := b\<rparr>) = hub_ok h" "hub_ok (h\<lparr>hbBackend := x\<rparr>) = hub_ok h"
  by (simp_all add: hub_ok_def entries_ok_def)

lemma addSub_abs: "absSubs (addSub c p g hub) = addOne c g p (absSubs hub)"
proof -
  have iff: "(\<exists>e \<in> set (subsOf (hbSubs hub) p). seConn e = c) \<longleftrightarrow> (c, p, True) \<in> absSubs hub \<or> (c, p, False) \<in> absSubs hub"
    by (auto simp: absSubs_def)
  show ?thesis
  proof (cases "\<exists>e \<in> set (subsOf (hbSubs hub) p). seConn e = c")
    case True
    then show ?thesis using iff by (simp add: addSub_def addOne_def)
  next
    case False
    then have "addOne c g p (absSubs hub) = insert (c, p, g) (absSubs hub)" using iff by (simp add: addOne_def)
    moreover have new: "subsOf (hbSubs (addSub c p g hub)) q =
        subsOf (hbSubs hub) q @ (if q = p then [\<lparr>seConn = c, sePattern = p, seGlob = g\<rparr>] else [])" for q
      using False by (simp add: addSub_def)
    have "(d, q, b) \<in> absSubs (addSub c p g hub) \<longleftrightarrow> (d, q, b) \<in> insert (c, p, g) (absSubs hub)" for d q b
      unfolding absSubs_def new by auto
    ultimately show ?thesis by auto
  qed
qed

lemma addSubs_abs:
  "hub_ok hub \<Longrightarrow> hub_ok (fold (\<lambda>p. addSub c p g) ps hub) \<and> absSubs (fold (\<lambda>p. addSub c p g) ps hub) = fold (addOne c g) ps (absSubs hub)"
  by (induction ps arbitrary: hub) (simp_all add: addSub_ok addSub_abs)

lemma removeSub_abs:
  assumes "hub_ok hub"
  shows "absSubs (removeSub c p hub) = {(d, q, g) \<in> absSubs hub. \<not> (d = c \<and> q = p)}"
proof -
  have "dropFirst c (subsOf (hbSubs hub) p) = filter (\<lambda>e. seConn e \<noteq> c) (subsOf (hbSubs hub) p)"
    using assms by (intro dropFirst_filter entries_okD(1)) (simp add: hub_ok_def)
  moreover have "hbSubs (removeSub c p hub) = dropEntry c p (hbSubs hub)" by (simp add: removeSub_def Let_def split: option.split)
  ultimately show ?thesis by (auto simp: absSubs_def split: if_splits)
qed

lemma removeSubs_abs:
  "hub_ok hub \<Longrightarrow> hub_ok (fold (removeSub c) ps hub) \<and>
   absSubs (fold (removeSub c) ps hub) = {(d, q, g) \<in> absSubs hub. \<not> (d = c \<and> q \<in> set ps)}"
  by (induction ps arbitrary: hub) (auto simp: removeSub_ok removeSub_abs)

lemma removeAllSubs_abs: "hub_ok hub \<Longrightarrow> absSubs (removeAllSubs c hub) = {(d, q, g) \<in> absSubs hub. d \<noteq> c}"
  by (auto simp: absSubs_def removeAllSubs_subs)


lemma dialSharedBackend_simps [simp]:
  "hub_ok (fst (dialSharedBackend env hub)) = hub_ok hub" "absSubs (fst (dialSharedBackend env hub)) = absSubs hub"
  by (auto simp: dialSharedBackend_def split: list.split)

lemma subscribe_refines:
  assumes "hub_ok hub"
  shows "hub_ok (fst (subscribe env c req hub)) \<and>
    absSubs (fst (subscribe env c req hub)) = fold (addOne c (Cmd req = ''PSUBSCRIBE'')) (tl (Args req)) (absSubs hub)"
proof -
  define x where "x = (if hbBackend hub = None \<and> \<not> hbDialing hub then dialSharedBackend env hub else (hub, []))"
  have "hub_ok (fst x)" "absSubs (fst x) = absSubs hub" using assms by (simp_all add: x_def)
  with addSubs_abs [of "fst x" c "Cmd req = ''PSUBSCRIBE''" "tl (Args req)"] show ?thesis
    by (simp add: subscribe_def x_def [symmetric] split_beta Let_def)
qed

lemma hub_ok_forget:
  assumes "hub_ok hub" "clientSubsOf hub c = []"
  shows "hub_ok (hub\<lparr>hbClientSubs := AList.delete c (hbClientSubs hub)\<rparr>)"
  using assms by (fastforce simp: hub_ok_def entries_ok_def)

lemma unsubscribe_refines:
  assumes "hub_ok hub"
  shows "hub_ok (fst (unsubscribe c req hub)) \<and> absSubs (fst (unsubscribe c req hub)) =
    {(d, p, g) \<in> absSubs hub. \<not> (d = c \<and> (length (Args req) = 1 \<or> p \<in> set (tl (Args req))))}"
proof -
  define h where "h = (if length (Args req) = 1 then removeAllSubs c hub else fold (removeSub c) (tl (Args req)) hub)"
  have h: "hub_ok h" "absSubs h = {(d, p, g) \<in> absSubs hub. \<not> (d = c \<and> (length (Args req) = 1 \<or> p \<in> set (tl (Args req))))}"
    using assms removeSubs_abs [OF assms, of c "tl (Args req)"] removeAllSubs_ok [OF assms, of c] removeAllSubs_abs [OF assms, of c]
    by (auto simp: h_def)
  then show ?thesis using hub_ok_forget [of h c] unfolding unsubscribe_def h_def [symmetric] Let_def fst_conv by simp
qed

lemma hubStep_refines:
  assumes "hubStep env op hub = Some (hub', es)" "hub_ok hub"
  shows "hub_ok hub' \<and> absSubs hub' = specStep op (absSubs hub)"
proof (cases op)
  case (OpSubscribe c req)
  then show ?thesis using assms subscribe_refines [OF assms(2), of env c req] by (simp add: hubStep_def specStep_def)
next
  case (OpUnsubscribe c req)
  then show ?thesis using assms unsubscribe_refines [OF assms(2), of c req] by (simp add: hubStep_def specStep_def)
next
  case (OpRemove c)
  then show ?thesis using assms removeClient_ok [OF assms(2), of c] removeAllSubs_abs [OF assms(2), of c]
    by (auto simp: hubStep_def specStep_def removeClient_def Let_def)
next
  case OpClose
  then show ?thesis using assms
    by (auto simp: hubStep_def specStep_def onSharedBackendClose_def hub_ok_def entries_ok_def absSubs_def)
qed (use assms in \<open>auto simp: hubStep_def specStep_def onSharedBackendOpen_def sharedDialFailed_def Let_def\<close>)

interpretation hub: step_simulation "hubStep env" hub_ok absSubs specStep for env
  by unfold_locales (simp_all add: hubStep_refines)


section \<open>The map by client\<close>

text \<open>
  The map by client may only record subscriptions that the hub holds, \<open>no_stale\<close>; the converse
  is part of the invariant. An \<^verbatim>\<open>UNSUBSCRIBE\<close> without channels breaks it, and nothing else does.
\<close>

definition no_stale :: "pubsubHub \<Rightarrow> bool" where
  "no_stale hub \<longleftrightarrow> (\<forall>c p. p \<in> set (clientSubsOf hub c) \<longrightarrow> (\<exists>e \<in> set (subsOf (hbSubs hub) p). seConn e = c))"

definition names_all :: "hubOp \<Rightarrow> bool" where
  "names_all op = (case op of OpUnsubscribe c req \<Rightarrow> length (Args req) \<noteq> 1 | _ \<Rightarrow> True)"

lemma no_stale_simps [simp]:
  "no_stale (h\<lparr>hbPending := q\<rparr>) = no_stale h" "no_stale (h\<lparr>hbDialing := b\<rparr>) = no_stale h" "no_stale (h\<lparr>hbBackend := x\<rparr>) = no_stale h"
  by (simp_all add: no_stale_def)

lemma addSub_no_stale: "no_stale hub \<Longrightarrow> no_stale (addSub c p g hub)"
  unfolding no_stale_def addSub_def by (auto simp: clientSubsOf_def update_conv' split: if_splits) 

lemma addSubs_no_stale: "no_stale hub \<Longrightarrow> no_stale (fold (\<lambda>p. addSub c p g) ps hub)"
  by (induction ps arbitrary: hub) (simp_all add: addSub_no_stale)

lemma clientSubsOf_removeSub:
  "clientSubsOf (removeSub c p hub) d = (if d = c then removeAll p (clientSubsOf hub c) else clientSubsOf hub d)"
  by (auto simp: removeSub_def Let_def clientSubsOf_def update_conv' split: option.split)

lemma hbSubs_removeSub: "hbSubs (removeSub c p hub) = dropEntry c p (hbSubs hub)"
  by (simp add: removeSub_def Let_def split: option.split)

lemma dropFirst_other: "e \<in> set es \<Longrightarrow> seConn e \<noteq> c \<Longrightarrow> e \<in> set (dropFirst c es)"
  by (induction es) auto

lemma removeSub_no_stale: "no_stale hub \<Longrightarrow> no_stale (removeSub c p hub)"
  unfolding no_stale_def clientSubsOf_removeSub hbSubs_removeSub by (auto split: if_splits) (metis dropFirst_other)+

lemma removeSubs_no_stale: "no_stale hub \<Longrightarrow> no_stale (fold (removeSub c) ps hub)"
  by (induction ps arbitrary: hub) (simp_all add: removeSub_no_stale)

lemma removeClient_no_stale: "hub_ok hub \<Longrightarrow> no_stale hub \<Longrightarrow> no_stale (removeClient c hub)"
proof -
  assume ok: "hub_ok hub" and "no_stale hub"
  moreover have "clientSubsOf (removeClient c hub) d = (if d = c then [] else clientSubsOf hub d)" for d
    by (simp add: removeClient_def Let_def removeAllSubs_def clientSubsOf_def)
  moreover have "subsOf (hbSubs (removeClient c hub)) q = filter (\<lambda>e. seConn e \<noteq> c) (subsOf (hbSubs hub) q)" for q
    using removeAllSubs_subs [OF ok] by (simp add: removeClient_def Let_def)
  ultimately show ?thesis by (fastforce simp: no_stale_def split: if_splits)
qed

lemma subscribe_no_stale: "no_stale hub \<Longrightarrow> no_stale (fst (subscribe env c req hub))"
proof -
  define x where "x = (if hbBackend hub = None \<and> \<not> hbDialing hub then dialSharedBackend env hub else (hub, []))"
  assume "no_stale hub"
  then have "no_stale (fst x)" by (auto simp: x_def dialSharedBackend_def split: list.split)
  from addSubs_no_stale [OF this] show ?thesis
    by (simp add: subscribe_def x_def [symmetric] split_beta Let_def)
qed

lemma unsubscribe_no_stale:
  "no_stale hub \<Longrightarrow> length (Args req) \<noteq> 1 \<Longrightarrow> no_stale (fst (unsubscribe c req hub))"
  using removeSubs_no_stale [of hub c "tl (Args req)"] unfolding unsubscribe_def Let_def fst_conv
  by (auto simp: no_stale_def)

lemma hubStep_no_stale:
  assumes "hubStep env op hub = Some (hub', es)" "hub_ok hub" "no_stale hub" "names_all op"
  shows "no_stale hub'"
proof (cases op)
  case (OpSubscribe c req)
  then show ?thesis using assms subscribe_no_stale [OF assms(3), of env c req] by (simp add: hubStep_def)
next
  case (OpUnsubscribe c req)
  then show ?thesis using assms unsubscribe_no_stale [OF assms(3), of req c] by (simp add: hubStep_def names_all_def)
next
  case (OpRemove c)
  then show ?thesis using assms removeClient_no_stale [OF assms(2,3), of c] by (simp add: hubStep_def)
next
  case OpClose
  then show ?thesis using assms by (auto simp: hubStep_def onSharedBackendClose_def no_stale_def clientSubsOf_def)
qed (use assms in \<open>auto simp: hubStep_def onSharedBackendOpen_def sharedDialFailed_def Let_def\<close>)

lemma hubRun_no_stale:
  "hubRun env ops hub = Some (hub', es) \<Longrightarrow> hub_ok hub \<Longrightarrow> no_stale hub \<Longrightarrow> \<forall>op \<in> set ops. names_all op \<Longrightarrow> no_stale hub'"
proof (induction ops arbitrary: hub es)
  case (Cons op ops)
  from Cons.prems(1) obtain hub1 es1 es2 where *: "hubStep env op hub = Some (hub1, es1)" "hubRun env ops hub1 = Some (hub', es2)"
    by (rule runs_ConsE)
  have ok: "hub_ok hub1" using hubStep_refines [OF *(1) Cons.prems(2)] by simp
  have "no_stale hub1" by (rule hubStep_no_stale [OF *(1)]) (use Cons.prems in auto)
  from Cons.IH [OF *(2) ok this] Cons.prems(4) show ?case by simp
qed simp

lemma no_stale_new: "no_stale newPubsubHub"
  by (simp add: no_stale_def newPubsubHub_def clientSubsOf_def)

text \<open>Under the invariant and without stale records the two maps hold the same subscriptions.\<close>

lemma absSubs_clientSubsOf: "hub_ok hub \<Longrightarrow> (c, p, g) \<in> absSubs hub \<Longrightarrow> p \<in> set (clientSubsOf hub c)"
  by (auto simp: absSubs_def hub_ok_def dest: entries_okD(2))

lemma no_staleD: "no_stale hub \<Longrightarrow> p \<in> set (clientSubsOf hub c) \<Longrightarrow> \<exists>g. (c, p, g) \<in> absSubs hub"
  unfolding no_stale_def absSubs_def by blast

lemma maps_agree:
  "hub_ok hub \<Longrightarrow> no_stale hub \<Longrightarrow> set (clientSubsOf hub c) = {p. \<exists>g. (c, p, g) \<in> absSubs hub}"
  using absSubs_clientSubsOf no_staleD by blast


section \<open>Writes\<close>

definition writes :: "nat \<Rightarrow> hubEffect list \<Rightarrow> bool" where
  "writes c es \<longleftrightarrow> (\<exists>d. HubWrite c d \<in> set es)"

lemma writes_simps [simp]: "\<not> writes c []" "writes c (es @ es') \<longleftrightarrow> writes c es \<or> writes c es'"
  "writes c (HubWrite d x # es) \<longleftrightarrow> c = d \<or> writes c es" "writes c (HubState d st # es) \<longleftrightarrow> writes c es"
  "writes c (HubBackend x # es) \<longleftrightarrow> writes c es" "writes c (HubRegister x # es) \<longleftrightarrow> writes c es"
  by (auto simp: writes_def)

definition silent :: "nat \<Rightarrow> pubsubHub \<Rightarrow> bool" where
  "silent c hub \<longleftrightarrow> (\<forall>p g. (c, p, g) \<notin> absSubs hub)"

lemma silentD: "silent c hub \<Longrightarrow> e \<in> set (subsOf (hbSubs hub) p) \<Longrightarrow> seConn e \<noteq> c"
  by (auto simp: silent_def absSubs_def)

lemma toExact_silent: "silent c hub \<Longrightarrow> \<not> writes c (toExact hub ch d)"
  by (auto simp: writes_def toExact_def dest: silentD)

lemma toPatterns_silent: "silent c hub \<Longrightarrow> \<not> writes c (toPatterns env hub ch d)"
  by (auto simp: writes_def toPatterns_def rangeSubs_def dest: silentD)

lemma dispatchMessage_silent: "dispatchMessage env hub v = Some es \<Longrightarrow> silent c hub \<Longrightarrow> \<not> writes c es"
  unfolding dispatchMessage_def Let_def
  by (auto simp: toExact_silent toPatterns_silent split: if_splits option.splits)

lemma sharedTraffic_silent: "sharedTraffic env k buf hub = Some (rest, es, a) \<Longrightarrow> silent c hub \<Longrightarrow> \<not> writes c es"
proof (induction k arbitrary: buf rest es a)
  case (Suc k)
  show ?case
  proof (cases "\<exists>v n. ParseValue buf = Inr (Some (v, n))")
    case True
    then obtain v n where v: "ParseValue buf = Inr (Some (v, n))" by blast
    with Suc.prems(1) obtain es1 es2 where "dispatchMessage env hub v = Some es1" "sharedTraffic env k (drop n buf) hub = Some (rest, es2, a)"
      "es = es1 @ es2" by (auto split: option.splits)
    then show ?thesis using dispatchMessage_silent Suc by auto
  next
    case False
    then show ?thesis using Suc.prems by (auto split: sum.splits option.splits perr.splits)
  qed
qed simp

lemma notifyEach_subset: "set (notifyEach ns cs) \<subseteq> set cs"
  by (induction ns cs rule: notifyEach.induct) auto

lemma close_silent: "silent c hub \<Longrightarrow> \<not> writes c (snd (onSharedBackendClose env hub))"
proof -
  assume s: "silent c hub"
  have "c \<notin> set (concat (map (map seConn \<circ> snd) (rangeSubs env hub)))"
    using silentD [OF s] by (auto simp: rangeSubs_def)
  then have "c \<notin> set (notifyEach [] (concat (map (map seConn \<circ> snd) (rangeSubs env hub))))"
    using notifyEach_subset by blast
  then show ?thesis by (auto simp: onSharedBackendClose_def writes_def)
qed

fun opConn :: "hubOp \<Rightarrow> nat option" where
  "opConn (OpSubscribe c req) = Some c"
| "opConn (OpUnsubscribe c req) = Some c"
| "opConn op = None"

lemma hubStep_silent:
  assumes "hubStep env op hub = Some (hub', es)" "silent c hub" "opConn op \<noteq> Some c"
  shows "\<not> writes c es"
proof (cases op)
  case (OpSubscribe d req)
  have "\<not> writes c (snd (dialSharedBackend env hub))" for hub by (auto simp: dialSharedBackend_def split: list.split)
  moreover have "\<not> writes c (forwardToBackend req hub)" for hub by (auto simp: forwardToBackend_def split: option.split)
  ultimately show ?thesis using assms OpSubscribe
    by (auto simp: hubStep_def subscribe_def Let_def split: if_splits prod.splits) (metis snd_conv)+
next
  case (OpUnsubscribe d req)
  then show ?thesis using assms
    by (auto simp: hubStep_def unsubscribe_def Let_def writes_def forwardToBackend_def split: if_splits option.splits)
next
  case (OpOpen b)
  then show ?thesis using assms
    by (auto simp: hubStep_def onSharedBackendOpen_def hubAuth_def writes_def forwardToBackend_def Let_def split: if_splits)
next
  case OpClose
  then show ?thesis using assms close_silent [of c hub env] by (simp add: hubStep_def)
next
  case (OpTraffic buf)
  then show ?thesis using assms sharedTraffic_silent by (auto simp: hubStep_def onSharedBackendTraffic_def simp del: sharedTraffic.simps)
qed (use assms in \<open>auto simp: hubStep_def\<close>)

lemma specStep_silent: "\<forall>p g. (c, p, g) \<notin> S \<Longrightarrow> opConn op \<noteq> Some c \<Longrightarrow> (c, p, g) \<notin> specStep op S"
proof (cases op)
  case (OpSubscribe d req)
  assume "\<forall>p g. (c, p, g) \<notin> S" "opConn op \<noteq> Some c"
  then have "(c, p, g) \<notin> fold (addOne d g') ps S" for g' ps
    using OpSubscribe by (induction ps arbitrary: S) (auto simp: addOne_def)
  then show ?thesis by (simp add: OpSubscribe specStep_def)
qed (auto simp: specStep_def)

lemma hubRun_silent:
  "hubRun env ops hub = Some (hub', es) \<Longrightarrow> hub_ok hub \<Longrightarrow> silent c hub \<Longrightarrow> \<forall>op \<in> set ops. opConn op \<noteq> Some c \<Longrightarrow> \<not> writes c es"
proof (induction ops arbitrary: hub es)
  case (Cons op ops)
  from Cons.prems(1) obtain hub1 es1 es2 where *: "hubStep env op hub = Some (hub1, es1)" "hubRun env ops hub1 = Some (hub', es2)" "es = es1 @ es2"
    by (rule runs_ConsE)
  have "silent c hub1" using hubStep_refines [OF *(1) Cons.prems(2)] Cons.prems(3,4) specStep_silent [of c "absSubs hub" op]
    by (auto simp: silent_def)
  then show ?case using Cons * hubStep_refines [OF *(1) Cons.prems(2)] hubStep_silent [OF *(1)] by auto
qed simp


section \<open>Delivery\<close>

lemma elemStr_message:
  "elemStr (ArrayV [Some (BulkV t), Some (BulkV ch), Some (BulkV pl)]) 0 = Some t"
  "elemStr (ArrayV [Some (BulkV t), Some (BulkV ch), Some (BulkV pl)]) 1 = Some ch"
  "elemPayload (ArrayV [Some (BulkV t), Some (BulkV ch), Some (BulkV pl)]) 2 = Some (Some pl)"
  by (simp_all add: elemStr_def elemPayload_def ArrayV_def BulkV_def)

lemma dispatchMessage_message:
  "dispatchMessage env hub (ArrayV [Some (BulkV ''message''), Some (BulkV ch), Some (BulkV pl)]) =
   Some (toExact hub ch (EncodeValue (Some (ArrayV [Some (BulkV ''message''), Some (BulkV ch), Some (BulkV pl)]))) @
         toPatterns env hub ch (Some pl))"
proof -
  have l: "to_lower ''message'' = ''message''" by code_simp
  show ?thesis
    unfolding dispatchMessage_def elemStr_message option.case Let_def l by (simp add: ArrayV_def)
qed

text \<open>All the entries of the hub, in the order in which the hub ranges over them: each subscription once.\<close>

definition allEntries :: "hubEnv \<Rightarrow> pubsubHub \<Rightarrow> (nat \<times> bytes \<times> bool) list" where
  "allEntries env hub = concat (map (\<lambda>(p, es). map (\<lambda>e. (seConn e, p, seGlob e)) es) (rangeSubs env hub))"

lemma set_allEntries: 
  assumes "mset (heOrder env (map fst (hbSubs hub))) = mset (map fst (hbSubs hub))"
  shows "set (allEntries env hub) = absSubs hub"
proof -
  have k: "set (heOrder env (map fst (hbSubs hub))) = fst ` set (hbSubs hub)" using mset_eq_setD [OF assms] by simp
  have "p \<in> fst ` set (hbSubs hub)" if "e \<in> set (subsOf (hbSubs hub) p)" for e p
    using that by (cases "map_of (hbSubs hub) p") (auto simp: subsOf_def dest!: map_of_SomeD intro: rev_image_eqI)
  then show ?thesis by (auto simp: allEntries_def rangeSubs_def absSubs_def k) fastforce
qed

lemma distinct_entry: "hub_ok hub \<Longrightarrow> distinct (map (\<lambda>e. (seConn e, p, seGlob e)) (subsOf (hbSubs hub) p))"
  using entries_okD(1) [of hub p] by (auto simp: hub_ok_def distinct_map inj_on_def)

lemma distinct_allEntries:
  assumes "hub_ok hub" "mset (heOrder env (map fst (hbSubs hub))) = mset (map fst (hbSubs hub))"
  shows "distinct (allEntries env hub)"
proof -
  have "distinct (concat (map (\<lambda>p. map (\<lambda>e. (seConn e, p, seGlob e)) (subsOf (hbSubs hub) p)) ps))" if "distinct ps" for ps
    using that by (induction ps) (auto simp: distinct_entry [OF assms(1)])
  moreover have "distinct (heOrder env (map fst (hbSubs hub)))"
    using assms mset_eq_imp_distinct_iff [OF assms(2)] by (simp add: hub_ok_def keys_ok_def)
  ultimately show ?thesis by (simp add: allEntries_def rangeSubs_def comp_def)
qed

definition pmessage :: "bytes \<Rightarrow> bytes \<Rightarrow> bytes \<Rightarrow> Value" where
  "pmessage p ch pl = ArrayV [Some (BulkV ''pmessage''), Some (BulkV p), Some (BulkV ch), Some (BulkV pl)]"

lemma toPatterns_allEntries:
  "toPatterns env hub ch (Some pl) =
   map (\<lambda>(c, p, g). HubWrite c (EncodeValue (Some (pmessage p ch pl)))) (filter (\<lambda>(c, p, g). g \<and> globMatch p ch) (allEntries env hub))"
proof -
  have "concat (map (\<lambda>(p, es). map (\<lambda>e. HubWrite (seConn e) (f p)) (filter (\<lambda>e. seGlob e \<and> globMatch p ch) es)) xs) =
    map (\<lambda>(c, p, g). HubWrite c (f p)) (filter (\<lambda>(c, p, g). g \<and> globMatch p ch)
      (concat (map (\<lambda>(p, es). map (\<lambda>e. (seConn e, p, seGlob e)) es) xs)))" for xs :: "(bytes \<times> subEntry list) list" and f
    by (induction xs) (auto simp: filter_map comp_def)
  then show ?thesis unfolding toPatterns_def allEntries_def pmessage_def BulkValue_def option.case .
qed

lemma mset_filter_entries:
  assumes "distinct xs" "set xs = S"
  shows "mset (map w (filter P xs)) = image_mset w (mset_set {x \<in> S. P x})"
proof -
  have "mset xs = mset_set S" "finite S" using assms by (auto simp: mset_set_set)
  then show ?thesis by (simp add: filter_mset_mset_set)
qed

lemma toPatterns_mset:
  assumes "hub_ok hub" "map_iter (heOrder env)"
  shows "mset (toPatterns env hub ch (Some pl)) =
    image_mset (\<lambda>(c, p, g). HubWrite c (EncodeValue (Some (pmessage p ch pl)))) (mset_set {(c, p, g) \<in> absSubs hub. g \<and> globMatch p ch})"
proof -
  have o: "mset (heOrder env (map fst (hbSubs hub))) = mset (map fst (hbSubs hub))" using assms(2) by (simp add: map_iter_def)
  show ?thesis
    unfolding toPatterns_allEntries mset_filter_entries [OF distinct_allEntries [OF assms(1) o] set_allEntries [OF o]]
    by (simp add: case_prod_unfold)
qed

lemma toExact_mset:
  assumes "hub_ok hub"
  shows "mset (toExact hub ch d) = image_mset (\<lambda>(c, p, g). HubWrite c d) (mset_set {(c, p, g) \<in> absSubs hub. p = ch \<and> \<not> g})"
proof -
  let ?xs = "map (\<lambda>e. (seConn e, ch, seGlob e)) (subsOf (hbSubs hub) ch)"
  have s: "set ?xs = {(c, p, g) \<in> absSubs hub. p = ch}" by (auto simp: absSubs_def)
  have t: "toExact hub ch d = map (\<lambda>(c, p, g). HubWrite c d) (filter (\<lambda>(c, p, g). \<not> g) ?xs)"
    by (simp add: toExact_def filter_map comp_def)
  have f: "{x \<in> {(c, p, g) \<in> absSubs hub. p = ch}. case x of (c, p, g) \<Rightarrow> \<not> g} = {(c, p, g) \<in> absSubs hub. p = ch \<and> \<not> g}" by auto
  show ?thesis unfolding t mset_filter_entries [OF distinct_entry [OF assms, of ch] s] f ..
qed

lemma dispatchMessage_pmessage:
  "dispatchMessage env hub (pmessage q ch pl) = Some (toPatterns env hub ch (Some pl))"
proof -
  have l: "to_lower ''pmessage'' = ''pmessage''" by code_simp
  have e: "elemStr (pmessage q ch pl) 0 = Some ''pmessage''" "elemStr (pmessage q ch pl) 2 = Some ch"
    "elemPayload (pmessage q ch pl) 3 = Some (Some pl)"
    by (simp_all add: elemStr_def elemPayload_def ArrayV_def BulkV_def pmessage_def)
  show ?thesis unfolding dispatchMessage_def e option.case Let_def l by (simp add: ArrayV_def pmessage_def)
qed


section \<open>Claims\<close>

text \<open>
  C17. The hub implements a set of subscriptions: after any sequence of subscriptions,
  unsubscriptions, departures and events of the shared connection, the subscriptions that the
  hub holds by channel are those that the same sequence gives on a plain set, and its map by
  client records all the subscriptions of each client. When no request of the sequence
  unsubscribes without naming channels, that map records exactly them; such a request leaves
  the client's record behind, which is a finding.
\<close>

theorem hub_refines_set:
  assumes "hubRun env ops newPubsubHub = Some (hub, es)"
  shows "absSubs hub = fold specStep ops {} \<and> hub_ok hub \<and>
    (\<forall>c. {p. \<exists>g. (c, p, g) \<in> fold specStep ops {}} \<subseteq> set (clientSubsOf hub c)) \<and>
    (list_all names_all ops \<longrightarrow> (\<forall>c. set (clientSubsOf hub c) = {p. \<exists>g. (c, p, g) \<in> fold specStep ops {}}))"
proof -
  have abs: "absSubs hub = fold specStep ops {}" and ok: "hub_ok hub"
    using hub.runs_abs [OF assms] hub.runs_inv [OF assms] by simp_all
  have "set (clientSubsOf hub c) = {p. \<exists>g. (c, p, g) \<in> absSubs hub}" if "list_all names_all ops" for c
    using hubRun_no_stale [OF assms hub_ok_new no_stale_new] that by (intro maps_agree ok) (simp add: list_all_iff)
  moreover have "{p. \<exists>g. (c, p, g) \<in> absSubs hub} \<subseteq> set (clientSubsOf hub c)" for c using absSubs_clientSubsOf [OF ok] by blast
  ultimately show ?thesis using ok unfolding abs by simp
qed

definition sampleHubEnv :: hubEnv where
  "sampleHubEnv = \<lparr>heTopo = NewTopology, heDialErr = (\<lambda>_. False), heUsername = [], hePassword = ''pw'', heOrder = (\<lambda>ks. ks)\<rparr>"

definition sampleOps :: "hubOp list" where
  "sampleOps =
     [OpSubscribe 1 \<lparr>Args = [''SUBSCRIBE'', ''a'', ''b''], Raw = [], Cmd = ''SUBSCRIBE''\<rparr>,
      OpSubscribe 2 \<lparr>Args = [''PSUBSCRIBE'', ''a*''], Raw = [], Cmd = ''PSUBSCRIBE''\<rparr>, OpOpen 9,
      OpUnsubscribe 1 \<lparr>Args = [''UNSUBSCRIBE'', ''b''], Raw = [], Cmd = ''UNSUBSCRIBE''\<rparr>]"

definition sampleHub :: pubsubHub where
  "sampleHub = fst (the (hubRun sampleHubEnv sampleOps newPubsubHub))"

lemma sampleHub_run: "\<exists>es. hubRun sampleHubEnv sampleOps newPubsubHub = Some (sampleHub, es)"
proof -
  have "hubRun sampleHubEnv sampleOps newPubsubHub \<noteq> None" by (simp add: sampleOps_def hubStep_def split: option.split prod.split)
  then show ?thesis by (auto simp: sampleHub_def)
qed

lemma sampleSpec: "fold specStep sampleOps {} = {(1, ''a'', False), (2, ''a*'', True)}"
  by (auto simp: sampleOps_def specStep_def addOne_def)

theorem hub_refines_set_witness:
  "absSubs sampleHub = {(1, ''a'', False), (2, ''a*'', True)} \<and> hub_ok sampleHub \<and> set (clientSubsOf sampleHub 1) = {''a''}"
proof -
  obtain es where run: "hubRun sampleHubEnv sampleOps newPubsubHub = Some (sampleHub, es)" using sampleHub_run by blast
  have "list_all names_all sampleOps" by (simp add: sampleOps_def names_all_def)
  then have "set (clientSubsOf sampleHub 1) = {p. \<exists>g. (1, p, g) \<in> fold specStep sampleOps {}}" using hub_refines_set [OF run] by simp
  then show ?thesis using hub_refines_set [OF run] unfolding sampleSpec by auto
qed

text \<open>
  C19. Nothing is written to a client that has left: once a client has been removed from the hub,
  no operation of the other clients and no message of the shared connection makes the hub write
  to it.
\<close>

theorem hub_silent_after_removal:
  assumes "hubRun env before newPubsubHub = Some (hub, es)"
    and "hubRun env after (removeClient c hub) = Some (hub', es')" "\<forall>op \<in> set after. opConn op \<noteq> Some c"
  shows "HubWrite c d \<notin> set es'"
proof -
  have ok: "hub_ok hub" using hub.runs_inv [OF assms(1)] by simp
  then have "silent c (removeClient c hub)" using removeAllSubs_abs [OF ok, of c] by (auto simp: silent_def removeClient_def Let_def)
  from hubRun_silent [OF assms(2) removeClient_ok [OF ok] this assms(3)] show ?thesis by (auto simp: writes_def)
qed

theorem hub_silent_after_removal_witness:
  "\<exists>es hub'. hubRun sampleHubEnv [OpSubscribe 3 \<lparr>Args = [''SUBSCRIBE'', ''a''], Raw = [], Cmd = ''SUBSCRIBE''\<rparr>, OpClose] (removeClient 1 sampleHub) =
     Some (hub', es) \<and> HubWrite 1 backendLost \<notin> set es"
proof -
  let ?ops = "[OpSubscribe 3 \<lparr>Args = [''SUBSCRIBE'', ''a''], Raw = [], Cmd = ''SUBSCRIBE''\<rparr>, OpClose]"
  have "hubRun sampleHubEnv ?ops (removeClient 1 sampleHub) \<noteq> None" by (auto simp: hubStep_def split: prod.split)
  then obtain hub' es where r: "hubRun sampleHubEnv ?ops (removeClient 1 sampleHub) = Some (hub', es)" by auto
  obtain es0 where run: "hubRun sampleHubEnv sampleOps newPubsubHub = Some (sampleHub, es0)" using sampleHub_run by blast
  have "HubWrite 1 backendLost \<notin> set es" by (rule hub_silent_after_removal [OF run r]) simp
  with r show ?thesis by (intro exI conjI)
qed

text \<open>
  C18. What a publication makes the hub write, in whatever order it ranges over its map: a
  message on a channel from the shared connection is written once to every client subscribed to
  the channel, and one pattern message per matching pattern to every client subscribed to such a
  pattern, and nothing else is written; a pattern message from the shared connection is written
  to the pattern subscribers only. The subscriptions are those that the operations on a plain
  set give.
\<close>

theorem message_delivered_once:
  assumes "hubRun env ops newPubsubHub = Some (hub, es)" "map_iter (heOrder env)"
    and "S = fold specStep ops {}"
    and "msg = ArrayV [Some (BulkV ''message''), Some (BulkV ch), Some (BulkV pl)]"
    and "exact = image_mset (\<lambda>(c, p, g). HubWrite c (EncodeValue (Some msg))) (mset_set {(c, p, g) \<in> S. p = ch \<and> \<not> g})"
    and "globs = image_mset (\<lambda>(c, p, g). HubWrite c (EncodeValue (Some (pmessage p ch pl)))) (mset_set {(c, p, g) \<in> S. g \<and> globMatch p ch})"
  shows "map_option mset (dispatchMessage env hub msg) = Some (exact + globs) \<and>
    map_option mset (dispatchMessage env hub (pmessage q ch pl)) = Some globs"
proof -
  have ok: "hub_ok hub" and abs: "absSubs hub = S" using hub.runs_abs [OF assms(1)] hub.runs_inv [OF assms(1)] assms(3) by simp_all
  show ?thesis
    unfolding assms(4) dispatchMessage_message dispatchMessage_pmessage option.map
    by (simp add: toPatterns_mset [OF ok assms(2)] toExact_mset [OF ok] abs assms(4-6))
qed

theorem message_delivered_once_witness:
  "map_option mset (dispatchMessage sampleHubEnv sampleHub (ArrayV [Some (BulkV ''message''), Some (BulkV ''a''), Some (BulkV ''x'')])) =
     Some {#HubWrite 1 (EncodeValue (Some (ArrayV [Some (BulkV ''message''), Some (BulkV ''a''), Some (BulkV ''x'')]))),
            HubWrite 2 (EncodeValue (Some (pmessage ''a*'' ''a'' ''x'')))#} \<and>
   map_option mset (dispatchMessage sampleHubEnv sampleHub (pmessage ''*'' ''a'' ''x'')) =
     Some {#HubWrite 2 (EncodeValue (Some (pmessage ''a*'' ''a'' ''x'')))#}"
proof -
  obtain es where run: "hubRun sampleHubEnv sampleOps newPubsubHub = Some (sampleHub, es)" using sampleHub_run by blast
  let ?S = "{(1, ''a'', False), (2, ''a*'', True)} :: (nat \<times> bytes \<times> bool) set"
  have g: "globMatch ''a*'' ''a''" by code_simp
  have "{(c, p, g) \<in> ?S. p = ''a'' \<and> \<not> g} = {(1, ''a'', False)}" "{(c, p, g) \<in> ?S. g \<and> globMatch p ''a''} = {(2, ''a*'', True)}"
    using g by auto
  then have e: "image_mset (\<lambda>(c, p, g). HubWrite c x) (mset_set {(c, p, g) \<in> ?S. p = ''a'' \<and> \<not> g}) = {#HubWrite 1 x#}"
    "image_mset (\<lambda>(c, p, g). HubWrite c (f p)) (mset_set {(c, p, g) \<in> ?S. g \<and> globMatch p ''a''}) = {#HubWrite 2 (f ''a*'')#}" for x f
    by simp_all
  have "map_iter (heOrder sampleHubEnv)" by (simp add: map_iter_def sampleHubEnv_def)
  from message_delivered_once [OF run this sampleSpec [symmetric] refl refl refl, of "''a''" "''x''" "''*''"]
  show ?thesis unfolding e unfolding union_mset_add_mset_left empty_neutral .
qed


section \<open>What the hub gets wrong\<close>

text \<open>
  \<^verbatim>\<open>UNSUBSCRIBE\<close> without arguments drops the subscriptions but not the client's own record of them,
  so that the client is not put back into the normal state.
\<close>

lemma unsubscribe_all_stale:
  "case unsubscribe 1 \<lparr>Args = [''UNSUBSCRIBE''], Raw = [], Cmd = ''UNSUBSCRIBE''\<rparr> sampleHub of
     (hub, es) \<Rightarrow> subsOf (hbSubs hub) ''a'' = [] \<and> clientSubsOf hub 1 = [''a''] \<and> HubState 1 stateNormal \<notin> set es"
  by code_simp

text \<open>
  A client that leaves a channel takes the shared connection out of it although another client
  is still subscribed: the request is forwarded as it is.
\<close>

lemma unsubscribe_cuts_others:
  "case unsubscribe 1 \<lparr>Args = [''UNSUBSCRIBE'', ''a''], Raw = [], Cmd = ''UNSUBSCRIBE''\<rparr> (addSub 2 ''a'' False sampleHub) of
     (hub, es) \<Rightarrow> map seConn (subsOf (hbSubs hub) ''a'') = [2] \<and> HubBackend (EncodeCommandBytes [''UNSUBSCRIBE'', ''a'']) \<in> set es"
  by code_simp

text \<open>
  The shared connection is subscribed to the channel and to the pattern for all channels, so a
  node sends a publication twice, and a pattern subscriber gets a copy for each.
\<close>

lemma pattern_duplicates:
  "let pm = HubWrite 2 (EncodeValue (Some (ArrayV (map (\<lambda>x. Some (BulkV x)) [''pmessage'', ''a*'', ''a'', ''x'']))))
   in pm \<in> set (the (dispatchMessage sampleHubEnv sampleHub (ArrayV (map (\<lambda>x. Some (BulkV x)) [''message'', ''a'', ''x''])))) \<and>
      pm \<in> set (the (dispatchMessage sampleHubEnv sampleHub (ArrayV (map (\<lambda>x. Some (BulkV x)) [''pmessage'', ''*'', ''a'', ''x'']))))"
  by code_simp

text \<open>A star in a pattern does not match a slash, which it does in Redis.\<close>

lemma star_stops_at_slash: "\<not> globMatch ''news*'' ''news/sports''"
  by code_simp

end
