(* ===== verification/MultiKey.thy ===== *)
theory MultiKey
  imports Router_Claims BackendMux
begin

text \<open>
  Requests with several keys on the multiplexed connections, \<^verbatim>\<open>routeMultiKeyToMux\<close> of
  \<^verbatim>\<open>src/pkg/engine/handler_routing.go\<close>: the keys are grouped by slot, each group becomes a request
  of its own, and the replies to these are merged into one reply. This theory has the grouping,
  the sub-requests and the merge functions; the handler itself is part of the client handler.
\<close>

section \<open>Groups\<close>

record slotGroup =
  sgAddr :: bytes
  sgIndices :: "nat list"
  sgKeys :: "bytes list"

definition multiKeys :: "bytes \<Rightarrow> bytes list \<Rightarrow> bytes list" where
  "multiKeys name args =
     (if name \<in> {''MGET'', ''DEL'', ''UNLINK'', ''EXISTS'', ''TOUCH''} then tl args
      else if name = ''MSET'' then map ((!) args) (keyPositions args)
      else [])"

text \<open>
  The groups in the order of \<^verbatim>\<open>slotOrder\<close>, which is the order in which the slots are first met. The
  slot of a key that no node serves ends the loop.
\<close>

fun groupKeys :: "Topology \<Rightarrow> (nat \<times> bytes) list \<Rightarrow> (nat \<times> slotGroup) list \<Rightarrow> nat + (nat \<times> slotGroup) list" where
  "groupKeys t [] gs = Inr gs"
| "groupKeys t ((i, k) # iks) gs =
     (let slot = HashSlot k in
      case map_of gs slot of
        Some sg \<Rightarrow> groupKeys t iks (AList.update slot (sg\<lparr>sgIndices := sgIndices sg @ [i], sgKeys := sgKeys sg @ [k]\<rparr>) gs)
      | None \<Rightarrow>
         (case GetNodeForSlot t (int slot) of
            None \<Rightarrow> Inl slot
          | Some n \<Rightarrow> groupKeys t iks (AList.update slot \<lparr>sgAddr = nAddr n, sgIndices = [i], sgKeys = [k]\<rparr> gs)))"

text \<open>The arguments of the request for a group; \<^term>\<open>None\<close> when a value of an \<^verbatim>\<open>MSET\<close> is missing.\<close>

definition subArgs :: "bytes \<Rightarrow> bytes list \<Rightarrow> slotGroup \<Rightarrow> bytes list option" where
  "subArgs name args sg =
     (if name = ''MSET'' then
        (if \<forall>i \<in> set (sgIndices sg). 1 + i * 2 + 1 < length args
         then Some (hd args # concat (map (\<lambda>(k, i). [k, args ! (1 + i * 2 + 1)]) (zip (sgKeys sg) (sgIndices sg))))
         else None)
      else Some (hd args # sgKeys sg))"


section \<open>Merging\<close>

text \<open>The message of \<^verbatim>\<open>ErrInvalidProtocol\<close>, the only error that \<open>ParseValue\<close> reports.\<close>

definition protocolMsg :: bytes where
  "protocolMsg = ''invalid RESP protocol''"

text \<open>
  The result of looking at a sub-reply: a panic is \<^term>\<open>None\<close>, an early return has the bytes to
  answer with. A sub-reply that holds no complete value is a nil pointer.
\<close>

definition parseSub :: "subResponse \<Rightarrow> (bytes + Value option) option" where
  "parseSub sub =
     (case ParseValue (subData sub) of
        Inl perr.Panic \<Rightarrow> None
      | Inl _ \<Rightarrow> Some (Inl (EncodeError protocolMsg))
      | Inr None \<Rightarrow> Some (Inr None)
      | Inr (Some (v, _)) \<Rightarrow> Some (if IsError v then Inl (subData sub) else Inr (Some v)))"

fun mgetLoop :: "slotGroup list \<Rightarrow> subResponse list \<Rightarrow> bytes option list \<Rightarrow> (bytes + bytes option list) option" where
  "mgetLoop (sg # sgs) (sub # subs) results =
     (case parseSub sub of
        None \<Rightarrow> None
      | Some (Inl out) \<Rightarrow> Some (Inl out)
      | Some (Inr None) \<Rightarrow> None
      | Some (Inr (Some v)) \<Rightarrow>
         mgetLoop sgs subs
           (if vType v = TypeArray then place (sgIndices sg) (map (Some \<circ> EncodeValue) (vArray v)) results else results))"
| "mgetLoop _ _ results = Some (Inr results)"

definition mergeMGET :: "nat \<Rightarrow> slotGroup list \<Rightarrow> subResponse list \<Rightarrow> bytes option" where
  "mergeMGET totalKeys groups subs =
     (case mgetLoop groups subs (replicate totalKeys None) of
        None \<Rightarrow> None
      | Some (Inl out) \<Rightarrow> Some out
      | Some (Inr results) \<Rightarrow>
         Some (''*'' @ fmt_int (int totalKeys) @ CRLF @
               concat (map (\<lambda>r. case r of None \<Rightarrow> ''$-1'' @ CRLF | Some b \<Rightarrow> b) results)))"

fun mergeMSET :: "subResponse list \<Rightarrow> bytes option" where
  "mergeMSET [] = Some (EncodeSimpleString ''OK'')"
| "mergeMSET (sub # subs) =
     (case parseSub sub of
        None \<Rightarrow> None
      | Some (Inl out) \<Rightarrow> Some out
      | Some (Inr _) \<Rightarrow> mergeMSET subs)"

fun mergeCount :: "int \<Rightarrow> subResponse list \<Rightarrow> bytes option" where
  "mergeCount n [] = Some (EncodeInteger n)"
| "mergeCount n (sub # subs) =
     (case parseSub sub of
        None \<Rightarrow> None
      | Some (Inl out) \<Rightarrow> Some out
      | Some (Inr None) \<Rightarrow> mergeCount n subs
      | Some (Inr (Some v)) \<Rightarrow> mergeCount (if vType v = TypeInteger then wrap64 (n + vInteger v) else n) subs)"

definition mergeSubs :: "bytes \<Rightarrow> nat \<Rightarrow> slotGroup list \<Rightarrow> subResponse list \<Rightarrow> bytes option" where
  "mergeSubs name totalKeys groups subs =
     (if name = ''MGET'' then mergeMGET totalKeys groups subs
      else if name = ''MSET'' then mergeMSET subs
      else mergeCount 0 subs)"


section \<open>The groups partition the keys\<close>

definition group_of :: "bytes list \<Rightarrow> Topology \<Rightarrow> nat \<times> slotGroup \<Rightarrow> bool" where
  "group_of keys t sg \<longleftrightarrow> sgKeys (snd sg) = map ((!) keys) (sgIndices (snd sg)) \<and>
     (\<exists>n. GetNodeForSlot t (int (fst sg)) = Some n \<and> sgAddr (snd sg) = nAddr n)"

lemma map_of_groups: "map_of (map (\<lambda>(s, g). (s, f g)) gs) s = map_option f (map_of gs s)"
  by (induction gs) auto

lemma update_groups: "map (\<lambda>(s, g). (s, f g)) (AList.update s g gs) = AList.update s (f g) (map (\<lambda>(s, g). (s, f g)) gs)"
  by (induction gs) auto

lemma group_of_update: "\<forall>sg \<in> set gs. group_of keys t sg \<Longrightarrow> group_of keys t (s, g) \<Longrightarrow> sg \<in> set (AList.update s g gs) \<Longrightarrow> group_of keys t sg"
  by (induction gs) (auto split: if_splits)

lemma groupKeys_fold:
  assumes "groupKeys t (map (\<lambda>i. (i, keys ! i)) is) gs = Inr gs'" "\<forall>sg \<in> set gs. group_of keys t sg"
  shows "map (\<lambda>(s, g). (s, sgIndices g)) gs' = fold (addGroup (\<lambda>i. HashSlot (keys ! i))) is (map (\<lambda>(s, g). (s, sgIndices g)) gs) \<and>
    (\<forall>sg \<in> set gs'. group_of keys t sg)"
  using assms
proof (induction "is" arbitrary: gs)
  case (Cons i "is")
  let ?slot = "HashSlot (keys ! i)"
  show ?case
  proof (cases "map_of gs ?slot")
    case None
    then obtain n where n: "GetNodeForSlot t (int ?slot) = Some n" using Cons.prems(1) by (auto simp: Let_def split: option.splits)
    let ?g = "\<lparr>sgAddr = nAddr n, sgIndices = [i], sgKeys = [keys ! i]\<rparr>"
    have "\<forall>sg \<in> set (AList.update ?slot ?g gs). group_of keys t sg"
      by (intro ballI, rule group_of_update [OF Cons.prems(2)]) (simp_all add: group_of_def n)
    moreover have "groupKeys t (map (\<lambda>i. (i, keys ! i)) is) (AList.update ?slot ?g gs) = Inr gs'"
      using Cons.prems(1) None n by (simp add: Let_def)
    ultimately show ?thesis using Cons.IH None by (simp add: addGroup_def map_of_groups update_groups)
  next
    case (Some g)
    let ?g = "g\<lparr>sgIndices := sgIndices g @ [i], sgKeys := sgKeys g @ [keys ! i]\<rparr>"
    have "group_of keys t (?slot, g)" using Cons.prems(2) map_of_SomeD [OF Some] by blast
    then have "group_of keys t (?slot, ?g)" by (simp add: group_of_def)
    from group_of_update [OF Cons.prems(2) this] have "\<forall>sg \<in> set (AList.update ?slot ?g gs). group_of keys t sg" by blast
    moreover have "groupKeys t (map (\<lambda>i. (i, keys ! i)) is) (AList.update ?slot ?g gs) = Inr gs'"
      using Cons.prems(1) Some by (simp add: Let_def)
    ultimately show ?thesis using Cons.IH Some by (simp add: addGroup_def map_of_groups update_groups)
  qed
qed simp

lemma enumerate_nth: "enumerate 0 keys = map (\<lambda>i. (i, keys ! i)) [0..<length keys]"
  by (rule nth_equalityI) (auto simp: nth_enumerate_eq)

lemma groupKeys_groups:
  assumes "groupKeys t (enumerate 0 keys) [] = Inr gs"
  shows "map (\<lambda>(s, g). (s, sgIndices g)) gs = groupBy (\<lambda>i. HashSlot (keys ! i)) [0..<length keys]"
    and "\<forall>sg \<in> set gs. group_of keys t sg"
  using groupKeys_fold [of t keys "[0..<length keys]" "[]" gs] assms by (simp_all add: enumerate_nth groupBy_def)

lemma groupKeys_served: "slots_served t keys \<Longrightarrow> set (map snd iks) \<subseteq> set keys \<Longrightarrow> \<exists>gs'. groupKeys t iks gs = Inr gs'"
proof (induction iks arbitrary: gs)
  case (Cons ik iks)
  obtain i k where ik: "ik = (i, k)" by (cases ik)
  obtain n where n: "GetNodeForSlot t (int (HashSlot k)) = Some n" using Cons.prems by (auto simp: slots_served_def ik)
  have "\<exists>gs'. groupKeys t iks gs = Inr gs'" for gs using Cons.prems by (intro Cons.IH) auto
  then show ?case by (cases "map_of gs (HashSlot k)") (simp_all add: ik Let_def n)
qed simp



section \<open>The merged reply\<close>

lemma wf_BulkValue: "wf_value (BulkValue x)"
  by (cases x) (auto simp: BulkValue_def intro: wf_value.intros)

lemma parseSub_array:
  assumes "subData sub = EncodeValue (Some (ArrayV (map (Some \<circ> BulkValue \<circ> db) ks)))" "go_slice (subData sub)" "8 * int (length ks) \<le> maxAlloc"
  shows "parseSub sub = Some (Inr (Some (ArrayV (map (Some \<circ> BulkValue \<circ> db) ks))))"
proof -
  have "wf_value (ArrayV (map Some (map (BulkValue \<circ> db) ks)))"
    by (rule wf_array) (use assms(3) in \<open>auto simp: wf_BulkValue\<close>)
  then have "wf_value (ArrayV (map (Some \<circ> BulkValue \<circ> db) ks))" by (simp add: comp_assoc)
  from parseValueAt_encoded [OF this, of "subData sub" "[]" "[]" "Suc (length (subData sub))"] assms(1,2)
  have "ParseValue (subData sub) = Inr (Some (ArrayV (map (Some \<circ> BulkValue \<circ> db) ks), length (subData sub)))"
    by (simp add: ParseValue_Some)
  then show ?thesis by (simp add: parseSub_def)
qed

text \<open>The sub-reply of a group has the values of its keys.\<close>

definition values_of :: "(bytes \<Rightarrow> bytes option) \<Rightarrow> slotGroup \<Rightarrow> subResponse \<Rightarrow> bool" where
  "values_of db sg sub \<longleftrightarrow>
     subData sub = EncodeValue (Some (ArrayV (map (Some \<circ> BulkValue \<circ> db) (sgKeys sg)))) \<and> go_slice (subData sub)"

lemma mgetLoop_values:
  assumes "list_all2 (values_of db) sgs subs" "\<forall>sg \<in> set sgs. sgKeys sg = map ((!) keys) (sgIndices sg) \<and> 8 * int (length (sgKeys sg)) \<le> maxAlloc"
  shows "\<exists>results'. mgetLoop sgs subs results = Some (Inr results') \<and> length results' = length results \<and>
    (\<forall>i < length results. results' ! i =
       (if \<exists>sg \<in> set sgs. i \<in> set (sgIndices sg) then Some (EncodeValue (Some (BulkValue (db (keys ! i))))) else results ! i))"
  using assms
proof (induction sgs subs arbitrary: results rule: list_all2_induct)
  case (Cons sg sgs sub subs)
  let ?r = "place (sgIndices sg) (map (Some \<circ> EncodeValue) (map (Some \<circ> BulkValue \<circ> db) (sgKeys sg))) results"
  have k: "sgKeys sg = map ((!) keys) (sgIndices sg)" using Cons.prems by simp
  have "parseSub sub = Some (Inr (Some (ArrayV (map (Some \<circ> BulkValue \<circ> db) (sgKeys sg)))))"
    using Cons by (intro parseSub_array) (auto simp: values_of_def)
  then have step: "mgetLoop (sg # sgs) (sub # subs) results = mgetLoop sgs subs ?r" by (simp add: ArrayV_def)
  have r: "?r = place (sgIndices sg) (map (\<lambda>i. Some (EncodeValue (Some (BulkValue (db (keys ! i)))))) (sgIndices sg)) results"
    by (simp add: k comp_def)
  have "\<forall>sg \<in> set sgs. sgKeys sg = map ((!) keys) (sgIndices sg) \<and> 8 * int (length (sgKeys sg)) \<le> maxAlloc"
    using Cons.prems unfolding list.set(2) by blast
  from Cons.IH [OF this, of ?r] show ?case unfolding step unfolding r place_map by auto
qed auto

lemma groups_cover:
  assumes "groupKeys t (enumerate 0 keys) [] = Inr gs" "i < length keys"
  shows "\<exists>sg \<in> set (map snd gs). i \<in> set (sgIndices sg)"
proof -
  obtain g where g: "g < length (groupBy (\<lambda>i. HashSlot (keys ! i)) [0..<length keys])"
    "fst (groupBy (\<lambda>i. HashSlot (keys ! i)) [0..<length keys] ! g) = HashSlot (keys ! i)"
    using groupBy_covers [of i "[0..<length keys]" "\<lambda>i. HashSlot (keys ! i)"] assms(2) by auto
  then have "i \<in> set (snd (groupBy (\<lambda>i. HashSlot (keys ! i)) [0..<length keys] ! g))" using groupBy_nth(1) [OF g(1)] assms(2) by simp
  moreover have "g < length gs" using g(1) groupKeys_groups(1) [OF assms(1)] by (metis length_map)
  ultimately have "i \<in> set (sgIndices (snd (gs ! g)))"
    unfolding groupKeys_groups(1) [OF assms(1), symmetric] by (simp add: split_beta)
  then show ?thesis using \<open>g < length gs\<close> by auto
qed

lemma group_keys:
  assumes "groupKeys t (enumerate 0 keys) [] = Inr gs" "(s, g) \<in> set gs"
  shows "sgKeys g = filter (\<lambda>k. HashSlot k = s) keys" "sgKeys g = map ((!) keys) (sgIndices g)"
    "\<exists>n. GetNodeForSlot t (int s) = Some n \<and> sgAddr g = nAddr n"
proof -
  have g: "group_of keys t (s, g)" using groupKeys_groups(2) [OF assms(1)] assms(2) by blast
  then show "sgKeys g = map ((!) keys) (sgIndices g)" "\<exists>n. GetNodeForSlot t (int s) = Some n \<and> sgAddr g = nAddr n"
    by (simp_all add: group_of_def)
  have "(s, sgIndices g) \<in> set (groupBy (\<lambda>i. HashSlot (keys ! i)) [0..<length keys])"
    unfolding groupKeys_groups(1) [OF assms(1), symmetric] using assms(2) by force
  then have "sgIndices g = filter (\<lambda>i. HashSlot (keys ! i) = s) [0..<length keys]" unfolding groupBy_member by simp
  then show "sgKeys g = filter (\<lambda>k. HashSlot k = s) keys" using g map_nth_filter [of keys "\<lambda>k. HashSlot k = s"] by (simp add: group_of_def)
qed

lemma mergeMGET_values:
  assumes gs: "groupKeys t (enumerate 0 keys) [] = Inr gs" and subs: "list_all2 (values_of db) (map snd gs) subs"
    and len: "8 * int (length keys) \<le> maxAlloc"
  shows "mergeMGET (length keys) (map snd gs) subs = Some (EncodeValue (Some (ArrayV (map (Some \<circ> BulkValue \<circ> db) keys))))"
proof -
  have "\<forall>sg \<in> set (map snd gs). sgKeys sg = map ((!) keys) (sgIndices sg) \<and> 8 * int (length (sgKeys sg)) \<le> maxAlloc"
  proof
    fix sg assume "sg \<in> set (map snd gs)"
    then obtain s where s: "(s, sg) \<in> set gs" by auto
    have "length (sgKeys sg) \<le> length keys" unfolding group_keys(1) [OF gs s] by (rule length_filter_le)
    then show "sgKeys sg = map ((!) keys) (sgIndices sg) \<and> 8 * int (length (sgKeys sg)) \<le> maxAlloc"
      using group_keys(2) [OF gs s] len by simp
  qed
  from mgetLoop_values [OF subs this, of "replicate (length keys) None"] obtain results where
    r: "mgetLoop (map snd gs) subs (replicate (length keys) None) = Some (Inr results)" "length results = length keys"
      "\<forall>i < length keys. results ! i = Some (EncodeValue (Some (BulkValue (db (keys ! i)))))"
    using groups_cover [OF gs] by auto
  have "results = map (\<lambda>k. Some (EncodeValue (Some (BulkValue (db k))))) keys"
    using r(2,3) by (intro nth_equalityI) auto
  then show ?thesis using r(1) by (simp add: mergeMGET_def EncodeValue_simps comp_def)
qed



section \<open>Claims\<close>

text \<open>
  C16. \<^verbatim>\<open>MGET\<close> on the multiplexed connections acts as one read of one store: every group of keys
  goes to the owner of its slot and only has keys of this slot, and when each group is answered
  with the values of its keys, the merged reply is the encoded array of the values of all the
  keys in the order of the request, with repetitions.
\<close>

theorem mget_fan_in:
  assumes "groupKeys t (enumerate 0 keys) [] = Inr gs" "list_all2 (values_of db) (map snd gs) subs" "8 * int (length keys) \<le> maxAlloc"
  shows "mergeSubs ''MGET'' (length keys) (map snd gs) subs = Some (EncodeValue (Some (ArrayV (map (Some \<circ> BulkValue \<circ> db) keys)))) \<and>
    (\<forall>(s, g) \<in> set gs. owner t (sgAddr g) (sgKeys g))"
proof -
  have "owner t (sgAddr g) (sgKeys g)" if "(s, g) \<in> set gs" for s g
  proof -
    have "(s, sgIndices g) \<in> set (groupBy (\<lambda>i. HashSlot (keys ! i)) [0..<length keys])"
      unfolding groupKeys_groups(1) [OF assms(1), symmetric] using that by force
    then have "sgIndices g \<noteq> []" unfolding groupBy_member by blast
    then have "sgKeys g \<noteq> []" using group_keys(2) [OF assms(1) that] by simp
    then show ?thesis using group_keys(1,3) [OF assms(1) that] unfolding owner_def by force
  qed
  then show ?thesis using mergeMGET_values [OF assms] by (auto simp: mergeSubs_def)
qed

definition sampleGroups :: "(nat \<times> slotGroup) list" where
  "sampleGroups =
     [(14042, \<lparr>sgAddr = ''b:2'', sgIndices = [0, 2], sgKeys = [''foo'', ''{foo}2'']\<rparr>),
      (2697, \<lparr>sgAddr = ''a:1'', sgIndices = [1], sgKeys = [''bar'']\<rparr>)]"

lemma sampleGroups_keys: "groupKeys twoNodes (enumerate 0 sampleKeys) [] = Inr sampleGroups"
proof -
  have "HashSlot ''foo'' = 14042" "HashSlot ''bar'' = 2697" "HashSlot ''{foo}2'' = 14042"
    by (simp_all add: HashSlot_def hashTag_def CRC16_def crc16_index_def byte_def crc16tab_def ClusterSlots_def)
  then show ?thesis
    by (simp add: sampleKeys_def sampleGroups_def GetNodeForSlot_def GetNodeByAddr_def twoNodes_def ClusterSlots_def Let_def)
qed

theorem mget_fan_in_witness:
  "mergeSubs ''MGET'' 3 (map snd sampleGroups)
     [\<lparr>subIdx = 0, subData = EncodeValue (Some (ArrayV [Some (BulkV ''1''), Some (BulkV ''3'')]))\<rparr>,
      \<lparr>subIdx = 1, subData = EncodeValue (Some (ArrayV [Some NilBulk]))\<rparr>] =
   Some (EncodeValue (Some (ArrayV [Some (BulkV ''1''), Some NilBulk, Some (BulkV ''3'')])))"
proof -
  let ?db = "[''foo'' \<mapsto> ''1'', ''{foo}2'' \<mapsto> ''3'']"
  let ?subs = "[\<lparr>subIdx = 0, subData = EncodeValue (Some (ArrayV [Some (BulkV ''1''), Some (BulkV ''3'')]))\<rparr>,
      \<lparr>subIdx = 1, subData = EncodeValue (Some (ArrayV [Some NilBulk]))\<rparr>]"
  have "go_slice (EncodeValue (Some (ArrayV [Some (BulkV ''1''), Some (BulkV ''3'')])))" "go_slice (EncodeValue (Some (ArrayV [Some NilBulk])))"
    by code_simp+
  then have "list_all2 (values_of ?db) (map snd sampleGroups) ?subs"
    by (simp add: sampleGroups_def values_of_def BulkValue_def)
  from mget_fan_in [OF sampleGroups_keys this] show ?thesis by (simp add: sampleKeys_def maxAlloc_def BulkValue_def numeral_3_eq_3)
qed


section \<open>What the handler gets wrong\<close>

text \<open>An \<^verbatim>\<open>MSET\<close> with a key without a value, over two slots, indexes the arguments out of range.\<close>

lemma subArgs_missing_value: "subArgs ''MSET'' [''MSET'', ''foo'', ''1'', ''bar''] \<lparr>sgAddr = ''a:1'', sgIndices = [1], sgKeys = [''bar'']\<rparr> = None"
  by code_simp

end
