(* ===== verification/BlockingPool.thy ===== *)
theory BlockingPool
  imports Prelude Alist_Extra Runs
begin

text \<open>
  The pool of idle blocking connections of an event loop, \<^verbatim>\<open>src/pkg/engine/blocking_pool.go\<close>: a stack
  of connections per node with a bound on its height. Connections are numbers.
\<close>

section \<open>Definitions\<close>

definition blockingPoolCap :: nat where "blockingPoolCap = 10"

record blockingConnPool =
  bpIdle :: "(bytes \<times> nat list) list"
  bpReuses :: int

definition newBlockingConnPool :: blockingConnPool where
  "newBlockingConnPool = \<lparr>bpIdle = [], bpReuses = 0\<rparr>"

definition idleOf :: "blockingConnPool \<Rightarrow> bytes \<Rightarrow> nat list" where
  "idleOf p addr = (case map_of (bpIdle p) addr of None \<Rightarrow> [] | Some cs \<Rightarrow> cs)"

definition bpGet :: "bytes \<Rightarrow> blockingConnPool \<Rightarrow> nat option \<times> blockingConnPool" where
  "bpGet addr p =
     (if idleOf p addr = [] then (None, p)
      else (Some (last (idleOf p addr)),
            p\<lparr>bpIdle := AList.update addr (butlast (idleOf p addr)) (bpIdle p), bpReuses := bpReuses p + 1\<rparr>))"

definition bpPut :: "bytes \<Rightarrow> nat \<Rightarrow> blockingConnPool \<Rightarrow> bool \<times> blockingConnPool" where
  "bpPut addr c p =
     (if length (idleOf p addr) \<ge> blockingPoolCap then (False, p)
      else (True, p\<lparr>bpIdle := AList.update addr (idleOf p addr @ [c]) (bpIdle p)\<rparr>))"

definition bpSize :: "blockingConnPool \<Rightarrow> nat" where
  "bpSize p = vsum length (bpIdle p)"


section \<open>Contract\<close>

text \<open>
  What the client handler relies on: an accepted connection is the next one handed out for its
  node, a refused one is not kept, other nodes are not touched, and no node keeps more than the
  bound.
\<close>

locale idle_stack =
  fixes idle :: "'p \<Rightarrow> bytes \<Rightarrow> 'c list"
    and get :: "bytes \<Rightarrow> 'p \<Rightarrow> 'c option \<times> 'p"
    and put :: "bytes \<Rightarrow> 'c \<Rightarrow> 'p \<Rightarrow> bool \<times> 'p"
    and cap :: nat
  assumes get_None: "fst (get a p) = None \<longleftrightarrow> idle p a = []"
    and get_idle: "idle p a \<noteq> [] \<Longrightarrow> fst (get a p) = Some (last (idle p a))"
    and get_rest: "idle (snd (get a p)) b = (if b = a then butlast (idle p a) else idle p b)"
    and put_full: "fst (put a c p) \<longleftrightarrow> length (idle p a) < cap"
    and put_idle: "idle (snd (put a c p)) b = (if b = a \<and> fst (put a c p) then idle p a @ [c] else idle p b)"
begin

definition within :: "'p \<Rightarrow> bool" where
  "within p \<longleftrightarrow> (\<forall>a. length (idle p a) \<le> cap)"

lemma get_within: "within p \<Longrightarrow> within (snd (get a p))"
  using le_trans [OF diff_le_self] by (auto simp: within_def get_rest)

lemma put_within: "within p \<Longrightarrow> within (snd (put a c p))"
  by (auto simp: within_def put_idle put_full Suc_leI)

lemma put_get: "fst (put a c p) \<Longrightarrow> fst (get a (snd (put a c p))) = Some c"
  by (simp add: get_idle put_idle)

lemma put_get_rest: "fst (put a c p) \<Longrightarrow> idle (snd (get a (snd (put a c p)))) b = idle p b"
  by (simp add: get_rest put_idle)

text \<open>A connection that is handed out was idle, and is so once less.\<close>

lemma get_member: "fst (get a p) = Some c \<Longrightarrow> mset (idle p a) = add_mset c (mset (idle (snd (get a p)) a))"
proof -
  assume "fst (get a p) = Some c"
  then have *: "idle p a \<noteq> []" using get_None [of a p] by auto
  with \<open>fst (get a p) = Some c\<close> have "idle p a = idle (snd (get a p)) a @ [c]" using get_idle [of p a] get_rest [of a p a] by (auto simp: append_butlast_last_id)
  then have "mset (idle p a) = mset (idle (snd (get a p)) a @ [c])" by simp
  then show ?thesis by simp
qed

end

lemma idleOf_update [simp]: "idleOf (p\<lparr>bpIdle := AList.update a cs (bpIdle p)\<rparr>) b = (if b = a then cs else idleOf p b)"
  "idleOf (p\<lparr>bpIdle := AList.update a cs (bpIdle p), bpReuses := n\<rparr>) b = (if b = a then cs else idleOf p b)"
  by (simp_all add: idleOf_def update_conv')

interpretation bp: idle_stack idleOf bpGet bpPut blockingPoolCap
  by unfold_locales (auto simp: bpGet_def bpPut_def)

end
