(* ===== verification/Registry.thy ===== *)
theory Registry
  imports Go_Strings Alist_Extra
begin

text \<open>
  The registry of connection pools, \<^verbatim>\<open>src/pkg/pool/registry.go\<close>: pools are created on demand and kept
  under the address of their node, with a suffix for the pool of read-only connections. The
  registry is generic in the pools and used with two kinds of them.
\<close>

section \<open>Definitions\<close>

type_synonym 'p registry = "(bytes \<times> 'p) list"

definition roSuffix :: bytes where "roSuffix = ''#ro''"

definition getOrCreate :: "(bytes \<Rightarrow> bool \<Rightarrow> 'p) \<Rightarrow> bytes \<Rightarrow> 'p registry \<Rightarrow> 'p \<times> 'p registry" where
  "getOrCreate factory key reg =
     (case map_of reg key of
        Some p \<Rightarrow> (p, reg)
      | None \<Rightarrow>
         (let p = factory (trim_suffix key roSuffix) (has_suffix key roSuffix)
          in (p, AList.update key p reg)))"

text \<open>The pools in the results of the next two are closed.\<close>

definition closeAll :: "'p registry \<Rightarrow> 'p registry \<times> 'p list" where
  "closeAll reg = ([], map snd reg)"

definition remove :: "bytes \<Rightarrow> 'p registry \<Rightarrow> 'p registry \<times> 'p list" where
  "remove key reg =
     (case map_of reg key of
        None \<Rightarrow> (reg, [])
      | Some p \<Rightarrow> (AList.delete key reg, [p]))"

text \<open>The methods that both managers have on top of the registry.\<close>

definition GetPool :: "(bytes \<Rightarrow> bool \<Rightarrow> 'p) \<Rightarrow> bytes \<Rightarrow> 'p registry \<Rightarrow> 'p \<times> 'p registry" where
  "GetPool factory addr reg = getOrCreate factory addr reg"

definition GetReadonlyPool :: "(bytes \<Rightarrow> bool \<Rightarrow> 'p) \<Rightarrow> bytes \<Rightarrow> 'p registry \<Rightarrow> 'p \<times> 'p registry" where
  "GetReadonlyPool factory addr reg = getOrCreate factory (addr @ roSuffix) reg"

definition RemovePool :: "bytes \<Rightarrow> 'p registry \<Rightarrow> 'p registry \<times> 'p list" where
  "RemovePool addr reg =
     (case remove addr reg of (reg1, ps1) \<Rightarrow>
      (case remove (addr @ roSuffix) reg1 of (reg2, ps2) \<Rightarrow> (reg2, ps1 @ ps2)))"


section \<open>Contract\<close>

text \<open>
  What a factory promises: the pool it makes is for the node and the kind of connections it was
  asked for. Then the registry hands out the right pool for a node, always the same one until it
  is removed, and a removed one no more.
\<close>

locale pool_factory =
  fixes factory :: "bytes \<Rightarrow> bool \<Rightarrow> 'p"
    and addrOf :: "'p \<Rightarrow> bytes"
    and readonlyOf :: "'p \<Rightarrow> bool"
  assumes factory_addr: "addrOf (factory a ro) = a"
    and factory_readonly: "readonlyOf (factory a ro) = ro"
begin

definition reg_ok :: "'p registry \<Rightarrow> bool" where
  "reg_ok reg \<longleftrightarrow> (\<forall>key p. map_of reg key = Some p \<longrightarrow>
     addrOf p = trim_suffix key roSuffix \<and> readonlyOf p = has_suffix key roSuffix)"

lemma reg_ok_Nil: "reg_ok []"
  by (simp add: reg_ok_def)

lemma getOrCreate_ok:
  assumes "reg_ok reg"
  shows "reg_ok (snd (getOrCreate factory key reg))"
    and "addrOf (fst (getOrCreate factory key reg)) = trim_suffix key roSuffix"
    and "readonlyOf (fst (getOrCreate factory key reg)) = has_suffix key roSuffix"
    and "map_of (snd (getOrCreate factory key reg)) key = Some (fst (getOrCreate factory key reg))"
  using assms
  by (auto simp: getOrCreate_def reg_ok_def Let_def update_conv' factory_addr factory_readonly split: option.split)

lemma GetPool_addr:
  assumes "reg_ok reg" "\<not> has_suffix addr roSuffix"
  shows "addrOf (fst (GetPool factory addr reg)) = addr" "\<not> readonlyOf (fst (GetPool factory addr reg))"
  using getOrCreate_ok(2,3) [OF assms(1), of addr] assms(2) by (simp_all add: GetPool_def trim_suffix_def)

lemma GetReadonlyPool_addr:
  assumes "reg_ok reg"
  shows "addrOf (fst (GetReadonlyPool factory addr reg)) = addr" "readonlyOf (fst (GetReadonlyPool factory addr reg))"
  using getOrCreate_ok(2,3) [OF assms, of "addr @ roSuffix"] by (simp_all add: GetReadonlyPool_def)

lemma getOrCreate_same: "getOrCreate factory key (snd (getOrCreate factory key reg)) = (fst (getOrCreate factory key reg), snd (getOrCreate factory key reg))"
  by (auto simp: getOrCreate_def Let_def update_conv' split: option.split)

lemma remove_ok: "reg_ok reg \<Longrightarrow> reg_ok (fst (remove key reg))"
  by (auto simp: remove_def reg_ok_def split: option.split)

lemma RemovePool_gone: "map_of (fst (RemovePool addr reg)) addr = None \<and> map_of (fst (RemovePool addr reg)) (addr @ roSuffix) = None"
  by (auto simp: RemovePool_def remove_def split: option.split)

end

end
