(* ===== verification/Pool.thy ===== *)
theory Pool
  imports Registry Resp Runs
begin

text \<open>
  The pool of connections to a node, \<^verbatim>\<open>src/pkg/pool/pool.go\<close>. Goroutines share a pool; what one of
  them does under the lock of the pool is one operation here, so that a sequence of operations is
  an interleaving of goroutines. A goroutine in \<^verbatim>\<open>Get\<close> tries under the lock; then it has an idle
  connection, or it dials without the lock, or it waits to be notified and tries again.
  Connections are numbers. Times are nanoseconds.
\<close>

section \<open>State\<close>

definition DefaultPoolSize :: int where "DefaultPoolSize = 10"
definition DefaultIdleTimeout :: int where "DefaultIdleTimeout = 30 * 1000000000"
definition DefaultDialTimeout :: int where "DefaultDialTimeout = 3 * 1000000000"

record Options =
  opAddr :: bytes
  opUsername :: bytes
  opPassword :: bytes
  opMaxSize :: int
  opIdleTimeout :: int
  opDialTimeout :: int
  opReadonly :: bool

text \<open>An idle connection has the time it was last used; \<open>plWaiters\<close> counts the notifications in the channel.\<close>

record Pool =
  plAddr :: bytes
  plUsername :: bytes
  plPassword :: bytes
  plMaxSize :: int
  plIdleTimeout :: int
  plDialTimeout :: int
  plReadonly :: bool
  plConns :: "(nat \<times> int) list"
  plNumConns :: int
  plClosed :: bool
  plWaiters :: nat

definition NewPool :: "Options \<Rightarrow> Pool" where
  "NewPool opts =
     \<lparr>plAddr = opAddr opts, plUsername = opUsername opts, plPassword = opPassword opts,
      plMaxSize = (if opMaxSize opts \<le> 0 then DefaultPoolSize else opMaxSize opts),
      plIdleTimeout = (if opIdleTimeout opts \<le> 0 then DefaultIdleTimeout else opIdleTimeout opts),
      plDialTimeout = (if opDialTimeout opts \<le> 0 then DefaultDialTimeout else opDialTimeout opts),
      plReadonly = opReadonly opts, plConns = [], plNumConns = 0, plClosed = False, plWaiters = 0\<rparr>"


section \<open>Dialling\<close>

text \<open>
  The commands that are sent on a new connection before it is used, and the error of the first
  step that fails. What the node does is a parameter: \<open>exch\<close> gives for a command the error of
  writing it or of reading the reply, or the reply.
\<close>

type_synonym exchange = "bytes list \<Rightarrow> bytes + Value"

definition command :: "exchange \<Rightarrow> bytes list \<Rightarrow> bytes \<Rightarrow> bytes list list \<times> bytes option" where
  "command exch args failed =
     ([args],
      case exch args of
        Inl e \<Rightarrow> Some e
      | Inr v \<Rightarrow> if IsError v then Some (failed @ Error v) else None)"

definition sendReadonly :: "exchange \<Rightarrow> bytes list list \<times> bytes option" where
  "sendReadonly exch = command exch [''READONLY''] ''READONLY failed: ''"

definition auth :: "exchange \<Rightarrow> Pool \<Rightarrow> bytes list list \<times> bytes option" where
  "auth exch p =
     command exch (if plUsername p \<noteq> [] then [''AUTH'', plUsername p, plPassword p] else [''AUTH'', plPassword p]) ''auth failed: ''"

definition dial :: "bytes option \<Rightarrow> exchange \<Rightarrow> Pool \<Rightarrow> bytes list list \<times> bytes option" where
  "dial dialErr exch p =
     (case dialErr of
        Some e \<Rightarrow> ([], Some (''dial '' @ plAddr p @ '': '' @ e))
      | None \<Rightarrow>
         (case (if plPassword p \<noteq> [] then auth exch p else ([], None)) of
            (cmds, Some e) \<Rightarrow> (cmds, Some e)
          | (cmds, None) \<Rightarrow>
             (case (if plReadonly p then sendReadonly exch else ([], None)) of
                (cmds', r) \<Rightarrow> (cmds @ cmds', r))))"


section \<open>Operations under the lock\<close>

definition notify :: "Pool \<Rightarrow> Pool" where
  "notify p = (if int (plWaiters p) < plMaxSize p then p\<lparr>plWaiters := plWaiters p + 1\<rparr> else p)"

text \<open>
  The last idle connection that is not too old; older ones on the way are closed. The list is
  the stack of idle connections from its top.
\<close>

fun popIdleLoop :: "int \<Rightarrow> int \<Rightarrow> (nat \<times> int) list \<Rightarrow> nat option \<times> (nat \<times> int) list \<times> nat list" where
  "popIdleLoop timeout now [] = (None, [], [])"
| "popIdleLoop timeout now ((c, used) # cs) =
     (if 0 < timeout \<and> timeout < now - used then
        (case popIdleLoop timeout now cs of (r, rest, old) \<Rightarrow> (r, rest, c # old))
      else (Some c, cs, []))"

definition popIdle :: "int \<Rightarrow> Pool \<Rightarrow> nat option \<times> Pool \<times> nat list" where
  "popIdle now p =
     (case popIdleLoop (plIdleTimeout p) now (rev (plConns p)) of
        (r, rest, old) \<Rightarrow> (r, p\<lparr>plConns := rev rest, plNumConns := plNumConns p - int (length old)\<rparr>, old))"

datatype getResult = GotIdle nat | MustDial | MustWait

definition getTry :: "int \<Rightarrow> Pool \<Rightarrow> getResult \<times> Pool \<times> nat list" where
  "getTry now p =
     (case popIdle now p of
        (Some c, p', old) \<Rightarrow> (GotIdle c, p', old)
      | (None, p', old) \<Rightarrow>
         if plNumConns p' < plMaxSize p' then (MustDial, p'\<lparr>plNumConns := plNumConns p' + 1\<rparr>, old)
         else (MustWait, p', old))"

definition getDialFailed :: "Pool \<Rightarrow> Pool" where
  "getDialFailed p = notify (p\<lparr>plNumConns := plNumConns p - 1\<rparr>)"

text \<open>\<open>closedRead\<close> is what the goroutine read of \<^verbatim>\<open>closed\<close> before it took the lock. The result says whether the connection is closed.\<close>

definition put :: "int \<Rightarrow> nat \<Rightarrow> bool \<Rightarrow> bool \<Rightarrow> Pool \<Rightarrow> Pool \<times> bool" where
  "put now c broken closedRead p =
     (if broken \<or> closedRead then (notify (p\<lparr>plNumConns := plNumConns p - 1\<rparr>), True)
      else if int (length (plConns p)) < plMaxSize p then (notify (p\<lparr>plConns := plConns p @ [(c, now)]\<rparr>), False)
      else (notify (p\<lparr>plNumConns := plNumConns p - 1\<rparr>), True))"

definition ClosePool :: "Pool \<Rightarrow> Pool \<times> nat list" where
  "ClosePool p = (p\<lparr>plClosed := True, plConns := [], plNumConns := 0\<rparr>, map fst (plConns p))"

definition StatsOf :: "Pool \<Rightarrow> int \<times> nat" where
  "StatsOf p = (plNumConns p, length (plConns p))"


section \<open>The manager\<close>

record PoolManager =
  pmReg :: "Pool registry"
  pmUsername :: bytes
  pmPassword :: bytes
  pmMaxSize :: int

definition NewPoolManager :: "bytes \<Rightarrow> bytes \<Rightarrow> int \<Rightarrow> PoolManager" where
  "NewPoolManager username password maxSize =
     \<lparr>pmReg = [], pmUsername = username, pmPassword = password,
      pmMaxSize = (if maxSize \<le> 0 then DefaultPoolSize else maxSize)\<rparr>"

definition newPool :: "PoolManager \<Rightarrow> bytes \<Rightarrow> bool \<Rightarrow> Pool" where
  "newPool m addr readonly =
     NewPool \<lparr>opAddr = addr, opUsername = pmUsername m, opPassword = pmPassword m, opMaxSize = pmMaxSize m,
              opIdleTimeout = 0, opDialTimeout = 0, opReadonly = readonly\<rparr>"

text \<open>The connections per node, of both kinds of pools together.\<close>

definition ConnCountByAddr :: "PoolManager \<Rightarrow> bytes \<Rightarrow> int" where
  "ConnCountByAddr m addr =
     sum_list (map (\<lambda>(key, p). if trim_suffix key roSuffix = addr \<and> 0 < fst (StatsOf p) then fst (StatsOf p) else 0) (pmReg m))"

interpretation pm: pool_factory "newPool m" plAddr plReadonly for m
  by unfold_locales (simp_all add: newPool_def NewPool_def)

end
