(* ===== verification/Pool_Correct.thy ===== *)
theory Pool_Correct
  imports Pool
begin

text \<open>
  A pool under any interleaving of goroutines: its count of connections is exact, it never goes
  over the bound, and no connection is in the hands of two users or in use and idle at once.
\<close>

section \<open>Interleavings\<close>

text \<open>
  The pool with what its goroutines hold: the number of them that are dialling, the connections
  in use, and the next number for a connection.
\<close>

record poolSys =
  syPool :: Pool
  syDialing :: nat
  syOut :: "nat list"
  syNext :: nat

datatype poolOp =
    TryGet int
  | DialOk
  | DialFail
  | Put nat bool bool int
  | Wake
  | CloseAll

datatype poolEffect = Handed nat | ConnClosed nat

definition newSys :: "Options \<Rightarrow> poolSys" where
  "newSys opts = \<lparr>syPool = NewPool opts, syDialing = 0, syOut = [], syNext = 0\<rparr>"

text \<open>
  A step has no result when it cannot be taken: a goroutine only finishes to dial when one has
  started, only puts back a connection that is in use, and can have read that the pool is closed
  only when it is.
\<close>

definition poolStep :: "poolOp \<Rightarrow> poolSys \<Rightarrow> (poolSys \<times> poolEffect list) option" where
  "poolStep op s =
     (case op of
        TryGet now \<Rightarrow>
          (case getTry now (syPool s) of
             (GotIdle c, p, old) \<Rightarrow> Some (s\<lparr>syPool := p, syOut := c # syOut s\<rparr>, map ConnClosed old @ [Handed c])
           | (MustDial, p, old) \<Rightarrow> Some (s\<lparr>syPool := p, syDialing := syDialing s + 1\<rparr>, map ConnClosed old)
           | (MustWait, p, old) \<Rightarrow> Some (s\<lparr>syPool := p\<rparr>, map ConnClosed old))
      | DialOk \<Rightarrow>
          if syDialing s = 0 then None
          else Some (s\<lparr>syDialing := syDialing s - 1, syOut := syNext s # syOut s, syNext := syNext s + 1\<rparr>, [Handed (syNext s)])
      | DialFail \<Rightarrow>
          if syDialing s = 0 then None
          else Some (s\<lparr>syDialing := syDialing s - 1, syPool := getDialFailed (syPool s)\<rparr>, [])
      | Put c broken closedRead now \<Rightarrow>
          if c \<notin> set (syOut s) \<or> (closedRead \<and> \<not> plClosed (syPool s)) then None
          else (case put now c broken closedRead (syPool s) of
                  (p, gone) \<Rightarrow> Some (s\<lparr>syPool := p, syOut := remove1 c (syOut s)\<rparr>, if gone then [ConnClosed c] else []))
      | Wake \<Rightarrow>
          if plWaiters (syPool s) = 0 then None
          else Some (s\<lparr>syPool := (syPool s)\<lparr>plWaiters := plWaiters (syPool s) - 1\<rparr>\<rparr>, [])
      | CloseAll \<Rightarrow>
          (case ClosePool (syPool s) of (p, cs) \<Rightarrow> Some (s\<lparr>syPool := p\<rparr>, map ConnClosed cs)))"


section \<open>The invariant\<close>

definition held :: "poolSys \<Rightarrow> nat list" where
  "held s = map fst (plConns (syPool s)) @ syOut s"

definition pool_inv :: "poolSys \<Rightarrow> bool" where
  "pool_inv s \<longleftrightarrow> distinct (held s) \<and> (\<forall>c \<in> set (held s). c < syNext s) \<and>
     (\<not> plClosed (syPool s) \<longrightarrow>
        plNumConns (syPool s) = int (length (held s)) + int (syDialing s) \<and> plNumConns (syPool s) \<le> plMaxSize (syPool s))"

lemma notify_simps [simp]:
  "plConns (notify p) = plConns p" "plNumConns (notify p) = plNumConns p" "plClosed (notify p) = plClosed p"
  "plMaxSize (notify p) = plMaxSize p"
  by (simp_all add: notify_def)

lemma popIdleLoop_parts:
  "popIdleLoop t now cs = (r, rest, old) \<Longrightarrow>
   map fst cs = old @ (case r of None \<Rightarrow> [] | Some c \<Rightarrow> [c]) @ map fst rest \<and> (r = None \<longrightarrow> rest = [])"
  by (induction cs arbitrary: r rest old) (auto split: if_splits prod.splits option.splits)

lemma popIdle_parts:
  assumes "popIdle now p = (r, p', old)"
  shows "mset (map fst (plConns p)) = mset (map fst (plConns p')) + mset old + (case r of None \<Rightarrow> {#} | Some c \<Rightarrow> {#c#})"
    and "plNumConns p' = plNumConns p - int (length old)" "plClosed p' = plClosed p" "plMaxSize p' = plMaxSize p"
    and "r = None \<Longrightarrow> plConns p' = []"
proof -
  obtain rest where l: "popIdleLoop (plIdleTimeout p) now (rev (plConns p)) = (r, rest, old)"
    and p': "p' = p\<lparr>plConns := rev rest, plNumConns := plNumConns p - int (length old)\<rparr>"
    using assms by (auto simp: popIdle_def split: prod.splits)
  have "mset (map fst (plConns p)) = mset (map fst (rev (plConns p)))" by (simp add: rev_map [symmetric])
  also have "\<dots> = mset old + (case r of None \<Rightarrow> {#} | Some c \<Rightarrow> {#c#}) + mset (map fst rest)"
    using popIdleLoop_parts [OF l] by (auto split: option.split)
  finally show "mset (map fst (plConns p)) = mset (map fst (plConns p')) + mset old + (case r of None \<Rightarrow> {#} | Some c \<Rightarrow> {#c#})"
    by (simp add: p' rev_map [symmetric] ac_simps)
  show "plNumConns p' = plNumConns p - int (length old)" "plClosed p' = plClosed p" "plMaxSize p' = plMaxSize p" by (simp_all add: p')
  show "plConns p' = []" if "r = None" using popIdleLoop_parts [OF l] that by (simp add: p')
qed

lemma distinct_count: "distinct xs \<longleftrightarrow> (\<forall>c. count (mset xs) c \<le> 1)"
proof
  assume "distinct xs"
  then show "\<forall>c. count (mset xs) c \<le> 1" by (simp add: distinct_count_atmost_1)
next
  assume *: "\<forall>c. count (mset xs) c \<le> 1"
  have "count (mset xs) c = (if c \<in> set xs then 1 else 0)" for c
  proof (cases "c \<in> set xs")
    case True
    then have "count (mset xs) c \<noteq> 0" by (simp add: count_mset_0_iff)
    moreover have "count (mset xs) c \<le> 1" using * by blast
    ultimately have "count (mset xs) c = 1" by presburger
    then show ?thesis using True by simp
  qed (simp add: count_mset_0_iff)
  then show "distinct xs" by (simp add: distinct_count_atmost_1)
qed

text \<open>A step that keeps some of the connections keeps them distinct.\<close>

lemma distinct_sub:
  assumes "distinct ys" "mset xs \<subseteq># mset ys"
  shows "distinct xs" "set xs \<subseteq> set ys"
proof -
  have "count (mset xs) c \<le> count (mset ys) c" for c using mset_subset_eq_count [OF assms(2)] .
  moreover have "count (mset ys) c \<le> 1" for c using assms(1) by (simp add: distinct_count)
  ultimately show "distinct xs" unfolding distinct_count using le_trans by blast
  show "set xs \<subseteq> set ys" using set_mset_mono [OF assms(2)] by simp
qed

lemma held_getTry:
  assumes "popIdle now (syPool s) = (r, p, old)"
  shows "mset (held s) = mset (held (s\<lparr>syPool := p, syOut := (case r of None \<Rightarrow> [] | Some c \<Rightarrow> [c]) @ syOut s\<rparr>)) + mset old"
  using popIdle_parts(1) [OF assms] by (simp add: held_def ac_simps split: option.split)

lemma tryGet_inv:
  assumes "pool_inv s" "poolStep (TryGet now) s = Some (s', es)"
  shows "pool_inv s'"
proof -
  obtain r p old where pop: "popIdle now (syPool s) = (r, p, old)" by (cases "popIdle now (syPool s)")
  define t where "t = s\<lparr>syPool := p, syOut := (case r of None \<Rightarrow> [] | Some c \<Rightarrow> [c]) @ syOut s\<rparr>"
  have h: "mset (held s) = mset (held t) + mset old" using held_getTry [OF pop] by (simp add: t_def)
  then have "mset (held t) \<subseteq># mset (held s)" by simp
  from distinct_sub [OF _ this] assms(1) have d: "distinct (held t)" "\<forall>c \<in> set (held t). c < syNext s" by (auto simp: pool_inv_def)
  have "size (mset (held s)) = size (mset (held t)) + size (mset old)" unfolding h by (rule size_union)
  then have l: "length (held s) = length (held t) + length old" by simp
  have n: "plNumConns p = plNumConns (syPool s) - int (length old)" "plClosed p = plClosed (syPool s)" "plMaxSize p = plMaxSize (syPool s)"
    using popIdle_parts [OF pop] by simp_all
  show ?thesis
  proof (cases r)
    case None
    then have t: "t = s\<lparr>syPool := p\<rparr>" by (simp add: t_def)
    show ?thesis
    proof (cases "plNumConns p < plMaxSize p")
      case True
      with None assms(2) pop have "s' = s\<lparr>syPool := p\<lparr>plNumConns := plNumConns p + 1\<rparr>, syDialing := syDialing s + 1\<rparr>"
        by (simp add: poolStep_def getTry_def)
      then show ?thesis using assms(1) d l n True by (auto simp: pool_inv_def held_def t)
    next
      case False
      with None assms(2) pop have "s' = t" by (simp add: poolStep_def getTry_def t)
      then show ?thesis using assms(1) d l n by (auto simp: pool_inv_def t held_def)
    qed
  next
    case (Some c)
    with assms(2) pop have "s' = t" by (simp add: poolStep_def getTry_def t_def)
    moreover have "syPool t = p" "syNext t = syNext s" "syDialing t = syDialing s" by (simp_all add: t_def)
    ultimately show ?thesis using assms(1) d l n by (auto simp: pool_inv_def)
  qed
qed

lemma put_inv:
  assumes "pool_inv s" "poolStep (Put c broken closedRead now) s = Some (s', es)"
  shows "pool_inv s'"
proof -
  let ?p = "syPool s"
  have c: "c \<in> set (syOut s)" "closedRead \<longrightarrow> plClosed ?p" using assms(2) by (auto simp: poolStep_def split: if_splits)
  have o: "mset (syOut s) = add_mset c (mset (remove1 c (syOut s)))" using c(1) by simp
  have nd: "c \<notin> fst ` set (plConns ?p)" "c \<notin> set (remove1 c (syOut s))" "c < syNext s"
    using assms(1) c(1) by (auto simp: pool_inv_def held_def)
  consider (drop) "s' = s\<lparr>syPool := notify (?p\<lparr>plNumConns := plNumConns ?p - 1\<rparr>), syOut := remove1 c (syOut s)\<rparr>"
    | (keep) "s' = s\<lparr>syPool := notify (?p\<lparr>plConns := plConns ?p @ [(c, now)]\<rparr>), syOut := remove1 c (syOut s)\<rparr>"
    using assms(2) by (auto simp: poolStep_def put_def split: if_splits)
  then show ?thesis
  proof cases
    case drop
    have "mset (held s) = add_mset c (mset (held s'))" using o by (simp add: drop held_def)
    then have sub: "mset (held s') \<subseteq># mset (held s)" and "size (mset (held s)) = Suc (size (mset (held s')))" by simp_all
    then have len: "length (held s) = Suc (length (held s'))" by simp
    have "syNext s' = syNext s" "syDialing s' = syDialing s" "plNumConns (syPool s') = plNumConns ?p - 1"
      "plClosed (syPool s') = plClosed ?p" "plMaxSize (syPool s') = plMaxSize ?p" by (simp_all add: drop)
    with distinct_sub [OF _ sub] len assms(1) show ?thesis unfolding pool_inv_def by auto
  next
    case keep
    have m: "mset (held s') = mset (held s)" using o by (simp add: keep held_def)
    then have sub: "mset (held s') \<subseteq># mset (held s)" by simp
    have len: "length (held s') = length (held s)" using m by (metis size_mset)
    have "syNext s' = syNext s" "syDialing s' = syDialing s" "plNumConns (syPool s') = plNumConns ?p"
      "plClosed (syPool s') = plClosed ?p" "plMaxSize (syPool s') = plMaxSize ?p" by (simp_all add: keep)
    with distinct_sub [OF _ sub] len assms(1) show ?thesis unfolding pool_inv_def by auto
  qed
qed

lemma dialOk_inv:
  assumes "pool_inv s" "poolStep DialOk s = Some (s', es)"
  shows "pool_inv s'"
proof -
  have d: "syDialing s \<noteq> 0" and s': "s' = s\<lparr>syDialing := syDialing s - 1, syOut := syNext s # syOut s, syNext := syNext s + 1\<rparr>"
    using assms(2) by (simp_all add: poolStep_def split: if_splits)
  have m: "mset (held s') = add_mset (syNext s) (mset (held s))" by (simp add: held_def s')
  then have "set_mset (mset (held s')) = insert (syNext s) (set_mset (mset (held s)))" by simp
  then have set: "set (held s') = insert (syNext s) (set (held s))" by simp
  have "size (mset (held s')) = Suc (size (mset (held s)))" using m by simp
  then have len: "length (held s') = Suc (length (held s))" by simp
  have "syNext s \<notin> set (held s)" using assms(1) by (auto simp: pool_inv_def)
  then have "distinct (held s')" using assms(1) by (auto simp: pool_inv_def held_def s')
  then show ?thesis using assms(1) set len d unfolding pool_inv_def by (auto simp: s' less_Suc_eq)
qed

lemma poolStep_inv: "pool_inv s \<Longrightarrow> poolStep op s = Some (s', es) \<Longrightarrow> pool_inv s'"
proof (cases op)
  case DialFail
  assume inv: "pool_inv s" "poolStep op s = Some (s', es)"
  then obtain n where "syDialing s = Suc n" "s' = s\<lparr>syDialing := n, syPool := getDialFailed (syPool s)\<rparr>"
    using DialFail by (cases "syDialing s") (simp_all add: poolStep_def)
  then show ?thesis using inv(1) by (auto simp: pool_inv_def held_def getDialFailed_def)
next
  case CloseAll
  assume inv: "pool_inv s" "poolStep op s = Some (s', es)"
  then have "s' = s\<lparr>syPool := (syPool s)\<lparr>plClosed := True, plConns := [], plNumConns := 0\<rparr>\<rparr>"
    using CloseAll by (simp add: poolStep_def ClosePool_def)
  then show ?thesis using inv(1) by (simp add: pool_inv_def held_def)
next
  case Wake
  assume inv: "pool_inv s" "poolStep op s = Some (s', es)"
  then have "s' = s\<lparr>syPool := (syPool s)\<lparr>plWaiters := plWaiters (syPool s) - 1\<rparr>\<rparr>"
    using Wake by (simp add: poolStep_def split: if_splits)
  then show ?thesis using inv(1) by (auto simp: pool_inv_def held_def)
qed (use tryGet_inv put_inv dialOk_inv in blast)+

interpretation pool: step_invariant poolStep pool_inv
  by unfold_locales (rule poolStep_inv)



section \<open>Claims\<close>

text \<open>
  C20. A pool keeps its bound under any interleaving of goroutines: until it is closed, the
  connections that are idle, in use or being dialled are never more than the maximum, and the
  pool's count is exact. Whether or not it is closed, no connection is ever in use by two
  goroutines, or in use and idle, at once.
\<close>

theorem pool_bounded:
  assumes "runs poolStep ops (newSys opts) = Some (s, es)"
  shows "distinct (map fst (plConns (syPool s)) @ syOut s) \<and>
    (\<not> plClosed (syPool s) \<longrightarrow>
       plNumConns (syPool s) = int (length (plConns (syPool s)) + length (syOut s) + syDialing s) \<and>
       plNumConns (syPool s) \<le> plMaxSize (syPool s))"
proof -
  have "pool_inv (newSys opts)" by (simp add: pool_inv_def held_def newSys_def NewPool_def DefaultPoolSize_def)
  from pool.runs_inv [OF assms this] show ?thesis by (auto simp: pool_inv_def held_def)
qed

definition samplePoolOps :: "poolOp list" where
  "samplePoolOps = [TryGet 0, DialOk, TryGet 1, DialOk, Put 0 False False 2, TryGet 3, TryGet 4, Put 1 True False 5]"

definition samplePoolOpts :: Options where
  "samplePoolOpts = \<lparr>opAddr = ''a:1'', opUsername = [], opPassword = [], opMaxSize = 2, opIdleTimeout = 0, opDialTimeout = 0, opReadonly = False\<rparr>"

lemma samplePool_run: "\<not> Option.is_none (runs poolStep samplePoolOps (newSys samplePoolOpts))"
  by code_simp

theorem pool_bounded_witness:
  "\<exists>s es. runs poolStep samplePoolOps (newSys samplePoolOpts) = Some (s, es) \<and> distinct (map fst (plConns (syPool s)) @ syOut s)"
  using samplePool_run pool_bounded [of samplePoolOps samplePoolOpts] by (fastforce simp: Option.is_none_def)


section \<open>What a pool gets wrong\<close>

text \<open>
  Closing a pool sets its count to 0 although connections are in use; when they are put back the
  count becomes negative.
\<close>

lemma closed_pool_count:
  "map_option (\<lambda>(s, es). plNumConns (syPool s)) (runs poolStep [TryGet 0, DialOk, CloseAll, Put 0 False True 1] (newSys samplePoolOpts)) = Some (- 1)"
  by code_simp

text \<open>
  A goroutine that read that the pool is open before another one closed it puts its connection
  back as idle: nobody closes it any more.
\<close>

lemma closed_pool_leak:
  "map_option (\<lambda>(s, es). (plClosed (syPool s), plConns (syPool s)))
     (runs poolStep [TryGet 0, DialOk, CloseAll, Put 0 False False 1] (newSys samplePoolOpts)) = Some (True, [(0, 1)])"
  by code_simp

end
