(* ===== verification/Pipe.thy ===== *)
theory Pipe
  imports Registry Resp Runs
begin

text \<open>
  Pipelined connections to a node, \<^verbatim>\<open>src/pkg/pool/pipeline.go\<close>: goroutines hand their requests to the
  loop of a connection through a channel; the loop takes what has come in, up to 64 requests,
  writes them all and reads one reply for each. A request is known by a number, which stands for
  the channel on which its sender waits. The network is a parameter of each round of the loop.
\<close>

section \<open>Connections\<close>

definition pipeConnBackoffBase :: int where "pipeConnBackoffBase = 100 * 1000000"
definition pipeConnBackoffMax :: int where "pipeConnBackoffMax = 4 * 1000000000"

record pipeReq =
  prId :: nat
  prData :: bytes

datatype pipeResp = RespVal Value | RespErr bytes

record pipeConn =
  pnAddr :: bytes
  pnUsername :: bytes
  pnPassword :: bytes
  pnReadonly :: bool
  pnQueue :: "pipeReq list"
  pnClosed :: bool
  pnDone :: bool
  pnOpen :: bool
  pnUntil :: int
  pnDelay :: int

text \<open>The zero time, before all other times, is 0.\<close>

definition newPipeConn :: "bytes \<Rightarrow> bytes \<Rightarrow> bytes \<Rightarrow> bool \<Rightarrow> pipeConn" where
  "newPipeConn addr username password readonly =
     \<lparr>pnAddr = addr, pnUsername = username, pnPassword = password, pnReadonly = readonly,
      pnQueue = [], pnClosed = False, pnDone = False, pnOpen = False, pnUntil = 0, pnDelay = 0\<rparr>"

definition reqChCap :: nat where "reqChCap = 512"

text \<open>
  The channel holds 512 requests, then a sender has to wait; sending to a closed channel panics.
\<close>

datatype 'a sent = Sent 'a | Blocked | SendPanic

definition pipeSend :: "pipeReq \<Rightarrow> pipeConn \<Rightarrow> pipeConn sent" where
  "pipeSend req pc =
     (if pnClosed pc then SendPanic
      else if reqChCap \<le> length (pnQueue pc) then Blocked
      else Sent (pc\<lparr>pnQueue := pnQueue pc @ [req]\<rparr>))"

text \<open>Closing a closed channel panics.\<close>

definition pipeClose :: "pipeConn \<Rightarrow> pipeConn option" where
  "pipeClose pc = (if pnClosed pc then None else Some (pc\<lparr>pnClosed := True\<rparr>))"


section \<open>A round of the loop\<close>

text \<open>
  What a round meets: the time, the error of dialling, for a command on a new connection the
  error of writing it, the error of reading the reply or the reply, the times after failures,
  whether writing and flushing succeed, and what the \<open>i\<close>-th read gives.
\<close>

record pipeEnv =
  peNow :: int
  peDialErr :: "bytes option"
  peExch :: "bytes list \<Rightarrow> bytes + (bytes + Value)"
  peLater :: int
  peWriteOK :: bool
  peRead :: "nat \<Rightarrow> bytes + Value"

definition handshake :: "pipeEnv \<Rightarrow> bytes list \<Rightarrow> bytes \<Rightarrow> bytes option" where
  "handshake env args failed =
     (case peExch env args of
        Inl e \<Rightarrow> Some e
      | Inr (Inl _) \<Rightarrow> Some failed
      | Inr (Inr v) \<Rightarrow> if IsError v then Some failed else None)"

definition connect :: "pipeEnv \<Rightarrow> pipeConn \<Rightarrow> bytes option" where
  "connect env pc =
     (case peDialErr env of
        Some e \<Rightarrow> Some e
      | None \<Rightarrow>
         (case (if pnPassword pc \<noteq> [] then
                  handshake env (if pnUsername pc \<noteq> [] then [''AUTH'', pnUsername pc, pnPassword pc] else [''AUTH'', pnPassword pc])
                    ''auth failed''
                else None) of
            Some e \<Rightarrow> Some e
          | None \<Rightarrow> if pnReadonly pc then handshake env [''READONLY''] ''READONLY failed'' else None))"

definition nextBackoff :: "int \<Rightarrow> int" where
  "nextBackoff d =
     (if d = 0 then pipeConnBackoffBase
      else if 2 * d > pipeConnBackoffMax then pipeConnBackoffMax else 2 * d)"

definition failAll :: "bytes \<Rightarrow> pipeReq list \<Rightarrow> (nat \<times> pipeResp) list" where
  "failAll e ps = map (\<lambda>p. (prId p, RespErr e)) ps"

text \<open>The connection is given up, to be dialled again after the shortest delay.\<close>

definition dropConn :: "pipeEnv \<Rightarrow> pipeConn \<Rightarrow> pipeConn" where
  "dropConn env pc = pc\<lparr>pnOpen := False, pnDelay := pipeConnBackoffBase, pnUntil := peLater env + pipeConnBackoffBase\<rparr>"

text \<open>Reading the replies; the flag says whether all were read.\<close>

fun readReplies :: "(nat \<Rightarrow> bytes + Value) \<Rightarrow> nat \<Rightarrow> pipeReq list \<Rightarrow> (nat \<times> pipeResp) list \<times> bool" where
  "readReplies rd i [] = ([], True)"
| "readReplies rd i (p # ps) =
     (case rd i of
        Inl e \<Rightarrow> ((prId p, RespErr e) # failAll ''connection reset'' ps, False)
      | Inr v \<Rightarrow> (case readReplies rd (i + 1) ps of (rs, ok) \<Rightarrow> ((prId p, RespVal v) # rs, ok)))"

definition exchangeAll :: "pipeEnv \<Rightarrow> pipeReq list \<Rightarrow> pipeConn \<Rightarrow> pipeConn \<times> (nat \<times> pipeResp) list" where
  "exchangeAll env pending pc =
     (if \<not> peWriteOK env then (dropConn env pc, failAll ''write error'' pending)
      else (case readReplies (peRead env) 0 pending of
              (rs, ok) \<Rightarrow> (if ok then pc else dropConn env pc, rs)))"

definition serveBatch :: "pipeEnv \<Rightarrow> pipeReq list \<Rightarrow> pipeConn \<Rightarrow> pipeConn \<times> (nat \<times> pipeResp) list" where
  "serveBatch env pending pc =
     (if pnOpen pc then exchangeAll env pending pc
      else if 0 < pnUntil pc - peNow env then
        (pc, failAll (''backend '' @ pnAddr pc @ '' unavailable (reconnecting)'') pending)
      else (case connect env pc of
              Some e \<Rightarrow>
                (let d = nextBackoff (pnDelay pc)
                 in (pc\<lparr>pnDelay := d, pnUntil := peLater env + d\<rparr>, failAll e pending))
            | None \<Rightarrow> exchangeAll env pending (pc\<lparr>pnOpen := True, pnDelay := 0, pnUntil := 0\<rparr>)))"

definition maxBatch :: nat where "maxBatch = 64"

text \<open>
  One round. There is no round while the channel is open and empty. A closed channel that runs
  empty ends the loop, also when it does so while a batch is being collected.
\<close>

definition pipeRound :: "pipeEnv \<Rightarrow> pipeConn \<Rightarrow> (pipeConn \<times> (nat \<times> pipeResp) list) option" where
  "pipeRound env pc =
     (if pnDone pc \<or> (pnQueue pc = [] \<and> \<not> pnClosed pc) then None
      else if pnClosed pc \<and> length (pnQueue pc) < maxBatch then
        Some (pc\<lparr>pnQueue := [], pnDone := True, pnOpen := False\<rparr>, [])
      else Some (serveBatch env (take maxBatch (pnQueue pc)) (pc\<lparr>pnQueue := drop maxBatch (pnQueue pc)\<rparr>)))"


section \<open>Pools\<close>

record PipelinedPool =
  ppAddr :: bytes
  ppUsername :: bytes
  ppPassword :: bytes
  ppSize :: int
  ppReadonly :: bool
  ppConns :: "pipeConn list"
  ppIdx :: int

definition NewPipelinedPoolOpts :: "bytes \<Rightarrow> bytes \<Rightarrow> bytes \<Rightarrow> int \<Rightarrow> bool \<Rightarrow> PipelinedPool" where
  "NewPipelinedPoolOpts addr username password size0 readonly =
     (let n = (if size0 \<le> 0 then 4 else size0)
      in \<lparr>ppAddr = addr, ppUsername = username, ppPassword = password, ppSize = n, ppReadonly = readonly,
          ppConns = replicate (nat n) (newPipeConn addr username password readonly), ppIdx = 0\<rparr>)"

definition NewPipelinedPool :: "bytes \<Rightarrow> bytes \<Rightarrow> bytes \<Rightarrow> int \<Rightarrow> PipelinedPool" where
  "NewPipelinedPool addr username password size0 = NewPipelinedPoolOpts addr username password size0 False"

text \<open>
  The next connection of the pool. Go's remainder has the sign of the dividend, which is negative
  once the counter has wrapped around: then the index is out of range, a panic.
\<close>

definition ppPick :: "PipelinedPool \<Rightarrow> (nat \<times> PipelinedPool) option" where
  "ppPick pp =
     (if ppIdx pp < 0 \<and> ppIdx pp mod ppSize pp \<noteq> 0 then None
      else Some (nat (ppIdx pp mod ppSize pp), pp\<lparr>ppIdx := wrap64 (ppIdx pp + 1)\<rparr>))"

text \<open>Then the request goes to it, perhaps after waiting.\<close>

definition ppSend :: "nat \<Rightarrow> pipeReq \<Rightarrow> PipelinedPool \<Rightarrow> PipelinedPool sent" where
  "ppSend i req pp =
     (case pipeSend req (ppConns pp ! i) of
        Sent pc \<Rightarrow> Sent (pp\<lparr>ppConns := (ppConns pp)[i := pc]\<rparr>)
      | Blocked \<Rightarrow> Blocked
      | SendPanic \<Rightarrow> SendPanic)"

fun closeEach :: "pipeConn list \<Rightarrow> pipeConn list option" where
  "closeEach [] = Some []"
| "closeEach (pc # pcs) =
     (case pipeClose pc of
        None \<Rightarrow> None
      | Some pc' \<Rightarrow> map_option ((#) pc') (closeEach pcs))"

definition ppClose :: "PipelinedPool \<Rightarrow> PipelinedPool option" where
  "ppClose pp = map_option (\<lambda>pcs. pp\<lparr>ppConns := pcs\<rparr>) (closeEach (ppConns pp))"

record PipelinedManager =
  plmReg :: "PipelinedPool registry"
  plmUsername :: bytes
  plmPassword :: bytes
  plmSize :: int

definition NewPipelinedManager :: "bytes \<Rightarrow> bytes \<Rightarrow> int \<Rightarrow> PipelinedManager" where
  "NewPipelinedManager username password size0 =
     \<lparr>plmReg = [], plmUsername = username, plmPassword = password, plmSize = (if size0 \<le> 0 then 4 else size0)\<rparr>"

definition newPipelinedPool :: "PipelinedManager \<Rightarrow> bytes \<Rightarrow> bool \<Rightarrow> PipelinedPool" where
  "newPipelinedPool m addr readonly = NewPipelinedPoolOpts addr (plmUsername m) (plmPassword m) (plmSize m) readonly"

definition PipeConnCountByAddr :: "PipelinedManager \<Rightarrow> bytes \<Rightarrow> int" where
  "PipeConnCountByAddr m addr =
     sum_list (map (\<lambda>(key, p). if trim_suffix key roSuffix = addr then ppSize p else 0) (plmReg m))"

interpretation ppm: pool_factory "newPipelinedPool m" ppAddr ppReadonly for m
  by unfold_locales (simp_all add: newPipelinedPool_def NewPipelinedPoolOpts_def Let_def)

end
