(* ===== verification/Pipe_Correct.thy ===== *)
theory Pipe_Correct
  imports Pipe
begin

text \<open>
  The pipelined connection answers every request once, in order, with the reply that belongs to
  it; the delays between attempts to connect; the choice of a connection in a pool.
\<close>

section \<open>A batch\<close>

lemma failAll_simps [simp]:
  "map fst (failAll e ps) = map prId ps"
  "length (failAll e ps) = length ps"
  by (simp_all add: failAll_def)

lemma failAll_nth [simp]: "i < length ps \<Longrightarrow> snd (failAll e ps ! i) = RespErr e"
  by (simp add: failAll_def)

lemma readReplies_ids: "map fst (fst (readReplies rd i ps)) = map prId ps"
  by (induction rd i ps rule: readReplies.induct) (auto split: sum.split prod.split)

lemma readReplies_length: "length (fst (readReplies rd i ps)) = length ps"
  using arg_cong [OF readReplies_ids, of length] by simp

lemma readReplies_vals:
  "j < length ps \<Longrightarrow> snd (fst (readReplies rd i ps) ! j) = RespVal v \<Longrightarrow>
     rd (i + j) = Inr v \<and> (\<forall>k < j. \<exists>u. rd (i + k) = Inr u)"
proof (induction rd i ps arbitrary: j rule: readReplies.induct)
  case (2 rd i p ps)
  show ?case
  proof (cases "rd i")
    case (Inl e)
    with 2(2,3) show ?thesis by (cases j) auto
  next
    case (Inr u)
    with 2(2,3) 2(1) [OF Inr, of "j - 1"] show ?thesis
      by (cases j) (auto split: prod.splits simp: less_Suc_eq_0_disj)
  qed
qed simp

lemma readReplies_ok:
  "snd (readReplies rd i ps) \<longleftrightarrow> (\<forall>j < length ps. \<exists>v. snd (fst (readReplies rd i ps) ! j) = RespVal v)"
proof (induction rd i ps rule: readReplies.induct)
  case (2 rd i p ps)
  show ?case
  proof (cases "rd i")
    case (Inl e)
    then show ?thesis by auto
  next
    case (Inr u)
    with 2 [OF Inr] show ?thesis by (auto split: prod.splits simp: less_Suc_eq_0_disj)
  qed
qed simp

lemma exchangeAll_ids: "map fst (snd (exchangeAll env ps pc)) = map prId ps"
  using readReplies_ids [of "peRead env" 0 ps] by (auto simp: exchangeAll_def split: prod.split)

lemma exchangeAll_vals:
  assumes "j < length ps" "snd (snd (exchangeAll env ps pc) ! j) = RespVal v"
  shows "peWriteOK env \<and> peRead env j = Inr v \<and> (\<forall>k < j. \<exists>u. peRead env k = Inr u)"
  using assms readReplies_vals [OF assms(1), of "peRead env" 0 v]
  by (auto simp: exchangeAll_def split: if_splits prod.splits)

lemma exchangeAll_open:
  assumes "pnOpen (fst (exchangeAll env ps pc))" "j < length ps"
  shows "\<exists>v. snd (snd (exchangeAll env ps pc) ! j) = RespVal v"
  using assms readReplies_ok [of "peRead env" 0 ps]
  by (auto simp: exchangeAll_def dropConn_def split: if_splits prod.splits)

lemma exchangeAll_queue [simp]:
  "pnQueue (fst (exchangeAll env ps pc)) = pnQueue pc" "pnClosed (fst (exchangeAll env ps pc)) = pnClosed pc"
  "pnDone (fst (exchangeAll env ps pc)) = pnDone pc"
  by (auto simp: exchangeAll_def dropConn_def split: prod.split)

lemma serveBatch_queue [simp]:
  "pnQueue (fst (serveBatch env ps pc)) = pnQueue pc" "pnClosed (fst (serveBatch env ps pc)) = pnClosed pc"
  "pnDone (fst (serveBatch env ps pc)) = pnDone pc"
  by (auto simp: serveBatch_def Let_def split: option.split)

lemma serveBatch_ids: "map fst (snd (serveBatch env ps pc)) = map prId ps"
  by (auto simp: serveBatch_def exchangeAll_ids Let_def split: option.split)

lemma serveBatch_vals:
  assumes "j < length ps" "snd (snd (serveBatch env ps pc) ! j) = RespVal v"
  shows "peWriteOK env \<and> peRead env j = Inr v \<and> (\<forall>k < j. \<exists>u. peRead env k = Inr u)"
  using assms exchangeAll_vals [OF assms(1)] by (auto simp: serveBatch_def Let_def split: if_splits option.splits)

lemma serveBatch_open:
  assumes "pnOpen (fst (serveBatch env ps pc))" "j < length ps"
  shows "\<exists>v. snd (snd (serveBatch env ps pc) ! j) = RespVal v"
  using assms exchangeAll_open [OF _ assms(2)] by (auto simp: serveBatch_def Let_def split: if_splits option.splits)


section \<open>Backing off\<close>

definition delay_ok :: "pipeConn \<Rightarrow> bool" where
  "delay_ok pc \<longleftrightarrow> pnDelay pc = 0 \<or> pipeConnBackoffBase \<le> pnDelay pc \<and> pnDelay pc \<le> pipeConnBackoffMax"

lemma nextBackoff_range: "0 \<le> d \<Longrightarrow> d = 0 \<or> pipeConnBackoffBase \<le> d \<Longrightarrow>
    pipeConnBackoffBase \<le> nextBackoff d \<and> nextBackoff d \<le> pipeConnBackoffMax"
  by (auto simp: nextBackoff_def pipeConnBackoffBase_def pipeConnBackoffMax_def)

lemma serveBatch_delay:
  assumes "delay_ok pc" shows "delay_ok (fst (serveBatch env ps pc))"
proof -
  have e: "delay_ok q \<Longrightarrow> delay_ok (fst (exchangeAll env ps q))" for q
    by (auto simp: exchangeAll_def dropConn_def delay_ok_def pipeConnBackoffBase_def pipeConnBackoffMax_def split: prod.split)
  have "pipeConnBackoffBase \<le> nextBackoff (pnDelay pc) \<and> nextBackoff (pnDelay pc) \<le> pipeConnBackoffMax"
    by (rule nextBackoff_range) (use assms in \<open>auto simp: delay_ok_def pipeConnBackoffBase_def\<close>)
  then have n: "delay_ok (pc\<lparr>pnDelay := nextBackoff (pnDelay pc), pnUntil := t\<rparr>)" for t by (simp add: delay_ok_def)
  have z: "delay_ok (pc\<lparr>pnOpen := True, pnDelay := 0, pnUntil := 0\<rparr>)" by (simp add: delay_ok_def)
  show ?thesis by (auto simp: serveBatch_def Let_def assms e n z split: option.split)
qed

text \<open>After \<open>n + 1\<close> failures in a row the delay is the base doubled \<open>n\<close> times, up to the limit.\<close>

lemma backoff_doubles: "(nextBackoff ^^ Suc n) 0 = min (pipeConnBackoffBase * 2 ^ n) pipeConnBackoffMax"
proof (induction n)
  case 0
  then show ?case by (simp add: nextBackoff_def pipeConnBackoffBase_def pipeConnBackoffMax_def)
next
  case (Suc n)
  have "(nextBackoff ^^ Suc (Suc n)) 0 = nextBackoff (min (pipeConnBackoffBase * 2 ^ n) pipeConnBackoffMax)"
    by (simp only: funpow.simps(2) o_apply Suc [unfolded funpow.simps(2) o_apply])
  also have "\<dots> = min (pipeConnBackoffBase * 2 ^ Suc n) pipeConnBackoffMax"
  proof -
    have "(1::int) \<le> 2 ^ n" by simp
    then show ?thesis by (auto simp: nextBackoff_def pipeConnBackoffBase_def pipeConnBackoffMax_def min_def)
  qed
  finally show ?case .
qed


section \<open>Runs\<close>

datatype pipeOp = PSend pipeReq | PRound pipeEnv | PClose

fun pipeStep :: "pipeOp \<Rightarrow> pipeConn \<Rightarrow> (pipeConn \<times> (nat \<times> pipeResp) list) option" where
  "pipeStep (PSend req) pc = (case pipeSend req pc of Sent pc' \<Rightarrow> Some (pc', []) | _ \<Rightarrow> None)"
| "pipeStep (PRound env) pc = pipeRound env pc"
| "pipeStep PClose pc = map_option (\<lambda>pc'. (pc', [])) (pipeClose pc)"

definition pipe_inv :: "pipeConn \<Rightarrow> bool" where
  "pipe_inv pc \<longleftrightarrow> length (pnQueue pc) \<le> reqChCap \<and> delay_ok pc \<and> (pnDone pc \<longrightarrow> pnClosed pc \<and> \<not> pnOpen pc \<and> pnQueue pc = [])"

lemma pipe_inv_step: "pipe_inv pc \<Longrightarrow> pipeStep op pc = Some (pc', rs) \<Longrightarrow> pipe_inv pc'"
proof (cases op)
  case (PRound env)
  assume i: "pipe_inv pc" and st: "pipeStep op pc = Some (pc', rs)"
  let ?q = "pc\<lparr>pnQueue := drop maxBatch (pnQueue pc)\<rparr>"
  have "delay_ok ?q" using i by (simp add: pipe_inv_def delay_ok_def)
  from serveBatch_delay [OF this] have d: "delay_ok (fst (serveBatch env (take maxBatch (pnQueue pc)) ?q))" .
  from i st PRound show ?thesis
    by (auto simp: pipeRound_def pipe_inv_def delay_ok_def split: if_splits)
       (use d in \<open>auto simp: delay_ok_def dest!: arg_cong [where f = fst] intro: le_trans\<close>)
qed (auto simp: pipe_inv_def pipeSend_def pipeClose_def delay_ok_def split: sent.splits if_splits)

interpretation pipe: step_invariant pipeStep pipe_inv
  by unfold_locales (rule pipe_inv_step)

fun submitted :: "pipeOp list \<Rightarrow> nat list" where
  "submitted [] = []"
| "submitted (PSend req # ops) = prId req # submitted ops"
| "submitted (_ # ops) = submitted ops"

lemma pipeStep_fifo:
  assumes "pipeStep op pc = Some (pc', rs)" "op \<noteq> PClose" "\<not> pnClosed pc"
  shows "\<not> pnClosed pc' \<and> map fst rs @ map prId (pnQueue pc') = map prId (pnQueue pc) @ submitted [op]"
proof (cases op)
  case (PRound env)
  let ?b = "serveBatch env (take maxBatch (pnQueue pc)) (pc\<lparr>pnQueue := drop maxBatch (pnQueue pc)\<rparr>)"
  from assms PRound have "Some (pc', rs) = Some ?b" by (simp add: pipeRound_def split: if_splits)
  then have "pc' = fst ?b" "rs = snd ?b" by (metis option.inject fst_conv, metis option.inject snd_conv)
  then show ?thesis using assms(3) PRound
    by (simp add: serveBatch_ids flip: map_append)
qed (use assms in \<open>auto simp: pipeSend_def split: sent.splits if_splits\<close>)

lemma submitted_Cons: "submitted (op # ops) = submitted [op] @ submitted ops"
  by (cases op) auto

lemma runs_fifo:
  assumes "runs pipeStep ops pc = Some (pc', rs)" "PClose \<notin> set ops" "\<not> pnClosed pc"
  shows "map fst rs @ map prId (pnQueue pc') = map prId (pnQueue pc) @ submitted ops"
  using assms
proof (induction ops arbitrary: pc rs)
  case (Cons op ops)
  from Cons.prems(1) obtain pc1 r1 r2 where *: "pipeStep op pc = Some (pc1, r1)" "runs pipeStep ops pc1 = Some (pc', r2)" "rs = r1 @ r2"
    by (rule runs_ConsE)
  from Cons.prems have "op \<noteq> PClose" by auto
  note st = pipeStep_fifo [OF *(1) this Cons.prems(3)]
  have "map fst r2 @ map prId (pnQueue pc') = map prId (pnQueue pc1) @ submitted ops"
    by (rule Cons.IH [OF *(2)]) (use Cons.prems(2) st in auto)
  with st *(3) show ?case unfolding submitted_Cons [of op ops] by (metis append_assoc map_append)
qed simp


section \<open>Properties\<close>

text \<open>
  C15. A batch of requests on a pipelined connection (\<^verbatim>\<open>pipeConn.loop\<close>): each request gets exactly
  one answer, in the order of the batch; a value given to the \<open>j\<close>-th request is the \<open>j\<close>-th value
  read from a connection to which the whole batch was written, and all earlier reads succeeded;
  and if the connection stays open then every request was answered with a value, so that no
  reply is left on it for a later request.
\<close>

theorem pipe_batch_matched:
  "map fst (snd (serveBatch env ps pc)) = map prId ps \<and>
   (\<forall>j v. j < length ps \<longrightarrow> snd (snd (serveBatch env ps pc) ! j) = RespVal v \<longrightarrow>
      peWriteOK env \<and> peRead env j = Inr v \<and> (\<forall>k < j. \<exists>u. peRead env k = Inr u)) \<and>
   (pnOpen (fst (serveBatch env ps pc)) \<longrightarrow>
      (\<forall>j < length ps. \<exists>v. snd (snd (serveBatch env ps pc) ! j) = RespVal v))"
  using serveBatch_ids serveBatch_vals serveBatch_open by blast

definition sampleReqs :: "pipeReq list" where
  "sampleReqs = [\<lparr>prId = 7, prData = ''a''\<rparr>, \<lparr>prId = 8, prData = ''b''\<rparr>]"

definition sampleEnv :: pipeEnv where
  "sampleEnv = \<lparr>peNow = 1, peDialErr = None, peExch = (\<lambda>_. Inr (Inl [])), peLater = 2, peWriteOK = True,
     peRead = (\<lambda>i. if i = 0 then Inr (IntValue 1) else Inl ''EOF'')\<rparr>"

theorem pipe_batch_matched_witness:
  "snd (serveBatch sampleEnv sampleReqs (newPipeConn ''n:1'' [] [] False)) =
     [(7, RespVal (IntValue 1)), (8, RespErr ''EOF'')] \<and>
   peRead sampleEnv 0 = Inr (IntValue 1) \<and> \<not> pnOpen (fst (serveBatch sampleEnv sampleReqs (newPipeConn ''n:1'' [] [] False)))"
proof -
  let ?b = "serveBatch sampleEnv sampleReqs (newPipeConn ''n:1'' [] [] False)"
  have e: "snd ?b = [(7, RespVal (IntValue 1)), (8, RespErr ''EOF'')]"
    by (simp add: serveBatch_def exchangeAll_def connect_def failAll_def newPipeConn_def sampleEnv_def sampleReqs_def dropConn_def)
  have l: "length sampleReqs = 2" by (simp add: sampleReqs_def)
  note t = pipe_batch_matched [of sampleEnv sampleReqs "newPipeConn ''n:1'' [] [] False"]
  have "\<not> pnOpen (fst ?b)"
  proof
    assume "pnOpen (fst ?b)"
    with t l have "\<exists>v. snd (snd ?b ! 1) = RespVal v" by simp
    then show False by (simp add: e)
  qed
  moreover have "peRead sampleEnv 0 = Inr (IntValue 1)" using t l by (simp add: e)
  ultimately show ?thesis using e by blast
qed

text \<open>
  C21. However sending and the rounds of the loop interleave, and whatever fails on the network, the
  requests answered so far followed by those still queued are those submitted, in order: no
  request is lost, answered twice or overtaken as long as the connection is not closed. The
  queue stays within the capacity of the channel and the delay before the next attempt to
  connect is zero or between 100 milliseconds and 4 seconds.
\<close>

theorem pipe_fifo:
  assumes "runs pipeStep ops (newPipeConn addr username password readonly) = Some (pc, rs)" "PClose \<notin> set ops"
  shows "map fst rs @ map prId (pnQueue pc) = submitted ops \<and> length (pnQueue pc) \<le> reqChCap \<and>
    (pnDelay pc = 0 \<or> pipeConnBackoffBase \<le> pnDelay pc \<and> pnDelay pc \<le> pipeConnBackoffMax)"
proof -
  have "pipe_inv (newPipeConn addr username password readonly)" by (simp add: pipe_inv_def newPipeConn_def delay_ok_def)
  from pipe.runs_inv [OF assms(1) this] have "pipe_inv pc" .
  with runs_fifo [OF assms] show ?thesis by (simp add: pipe_inv_def delay_ok_def newPipeConn_def)
qed

definition sampleOps :: "pipeOp list" where
  "sampleOps = map PSend sampleReqs @ [PRound sampleEnv, PSend \<lparr>prId = 9, prData = ''c''\<rparr>]"

theorem pipe_fifo_witness:
  "\<exists>pc rs. runs pipeStep sampleOps (newPipeConn ''n:1'' [] [] False) = Some (pc, rs) \<and>
     map fst rs = [7, 8] \<and> map prId (pnQueue pc) = [9] \<and> pnDelay pc = pipeConnBackoffBase \<and>
     map fst rs @ map prId (pnQueue pc) = submitted sampleOps"
proof -
  let ?r = "runs pipeStep sampleOps (newPipeConn ''n:1'' [] [] False)"
  have "map_option (\<lambda>(pc, rs). (map fst rs, map prId (pnQueue pc), pnDelay pc)) ?r = Some ([7, 8], [9], pipeConnBackoffBase)"
    by (simp add: sampleOps_def pipeSend_def reqChCap_def pipeRound_def maxBatch_def serveBatch_def exchangeAll_def
        connect_def failAll_def newPipeConn_def sampleEnv_def sampleReqs_def dropConn_def)
  then obtain pc rs where r: "?r = Some (pc, rs)"
    and v: "map fst rs = [7, 8]" "map prId (pnQueue pc) = [9]" "pnDelay pc = pipeConnBackoffBase" by auto
  have "PClose \<notin> set sampleOps" by (simp add: sampleOps_def sampleReqs_def)
  then have "map fst rs @ map prId (pnQueue pc) = submitted sampleOps" using pipe_fifo [OF r] by blast
  with r v show ?thesis by (intro exI [of _ pc] exI [of _ rs] conjI)
qed


section \<open>Closing\<close>

text \<open>
  The loop ends as soon as it finds the channel closed and empty; the requests of the batch it
  was collecting then get no answer, and their senders wait forever.
\<close>

lemma close_drops_pending:
  "map_option snd (runs pipeStep [PSend req, PClose, PRound env] (newPipeConn addr username password readonly)) = Some []"
  by (simp add: pipeSend_def reqChCap_def pipeClose_def pipeRound_def maxBatch_def newPipeConn_def)

lemma send_after_close: "pipeClose pc = Some pc' \<Longrightarrow> pipeSend req pc' = SendPanic"
  by (auto simp: pipeClose_def pipeSend_def split: if_splits)


section \<open>Choosing a connection\<close>

text \<open>Until the counter wraps around, a pool picks its connections in turn.\<close>

lemma ppPick_range:
  assumes "0 < ppSize pp" "length (ppConns pp) = nat (ppSize pp)" "ppPick pp = Some (i, pp')"
  shows "i < length (ppConns pp)"
  using assms by (auto simp: ppPick_def split: if_splits)

lemma ppPick_ok: "0 \<le> ppIdx pp \<Longrightarrow> ppIdx pp < 2 ^ 63 - 1 \<Longrightarrow>
    ppPick pp = Some (nat (ppIdx pp mod ppSize pp), pp\<lparr>ppIdx := ppIdx pp + 1\<rparr>)"
  by (simp add: ppPick_def wrap64_def)

lemma ppPick_overflow: "ppIdx pp = - (2 ^ 63) \<Longrightarrow> ppSize pp = 3 \<Longrightarrow> ppPick pp = None"
  by (simp add: ppPick_def)

end
