(* ===== verification/Stats.thy ===== *)
theory Stats
  imports Go_Strings Runs
begin

text \<open>
  The counters of the proxy, \<^verbatim>\<open>src/pkg/engine/stats.go\<close>. The counters are 64-bit integers changed by
  atomic operations; times are parameters. Floating-point numbers occur only in the processor
  times: their arithmetic and their rendering are parameters too, in a record.
\<close>

section \<open>Definitions\<close>

record 'f Stats =
  totalConnections :: int
  currConnections :: int
  totalCommands :: int
  qpsBucketSec :: int
  qpsBucketCount :: int
  qpsLastValue :: int
  startTime :: int
  lastCPUSample :: "int option"
  lastCPUSys :: 'f
  lastCPUUser :: 'f
  cpuSysPct :: 'f
  cpuUserPct :: 'f

record 'f floatOps =
  fZero :: 'f
  fSeconds :: "int \<Rightarrow> int \<Rightarrow> 'f"
  fPct :: "'f \<Rightarrow> 'f \<Rightarrow> int \<Rightarrow> 'f"
  fFixed :: "nat \<Rightarrow> 'f \<Rightarrow> bytes"

definition newStats :: "'f floatOps \<Rightarrow> int \<Rightarrow> 'f Stats" where
  "newStats F now =
     \<lparr>totalConnections = 0, currConnections = 0, totalCommands = 0, qpsBucketSec = 0, qpsBucketCount = 0,
      qpsLastValue = 0, startTime = now, lastCPUSample = None, lastCPUSys = fZero F, lastCPUUser = fZero F,
      cpuSysPct = fZero F, cpuUserPct = fZero F\<rparr>"

definition incConnections :: "'f Stats \<Rightarrow> 'f Stats" where
  "incConnections s =
     s\<lparr>totalConnections := wrap64 (totalConnections s + 1), currConnections := wrap64 (currConnections s + 1)\<rparr>"

definition decConnections :: "'f Stats \<Rightarrow> 'f Stats" where
  "decConnections s = s\<lparr>currConnections := wrap64 (currConnections s - 1)\<rparr>"

text \<open>Adding commands when nothing else runs in between; \<open>n\<close> is unsigned and converted.\<close>

definition addCommands :: "int \<Rightarrow> int \<Rightarrow> 'f Stats \<Rightarrow> 'f Stats" where
  "addCommands now n s =
     (let s1 = s\<lparr>totalCommands := wrap64 (totalCommands s + wrap64 n)\<rparr>
      in if qpsBucketSec s1 = now then s1\<lparr>qpsBucketCount := wrap64 (qpsBucketCount s1 + wrap64 n)\<rparr>
         else s1\<lparr>qpsBucketSec := now, qpsBucketCount := wrap64 n, qpsLastValue := qpsBucketCount s1\<rparr>)"

definition incCommands :: "int \<Rightarrow> 'f Stats \<Rightarrow> 'f Stats" where
  "incCommands now s = addCommands now 1 s"

definition qps :: "int \<Rightarrow> 'f Stats \<Rightarrow> int" where
  "qps now s =
     (if qpsBucketSec s = 0 then 0
      else if now > wrap64 (qpsBucketSec s + 1) then 0
      else qpsLastValue s)"

subsection \<open>Snapshots\<close>

record 'f StatsSnapshot =
  UptimeSeconds :: int
  TotalConnections :: int
  CurrConnections :: int
  TotalCommands :: int
  QPS :: int
  HeapAllocBytes :: int
  HeapSysBytes :: int
  NumGoroutines :: int
  NumCPU :: int
  NumGC :: int
  PauseTotalNs :: int
  UsedCPUSys :: 'f
  UsedCPUUser :: 'f
  CPUSysPct :: 'f
  CPUUserPct :: 'f

text \<open>
  What the Go runtime and the operating system report: the memory statistics, the numbers of
  goroutines and processors, and, unless the call fails, the processor times in seconds and
  microseconds.
\<close>

record sysInfo =
  siHeapAlloc :: int
  siHeapSys :: int
  siGoroutines :: int
  siCPU :: int
  siNumGC :: int
  siPauseTotalNs :: int
  siRusage :: "((int \<times> int) \<times> (int \<times> int)) option"

text \<open>The time is in nanoseconds; \<open>fPct F cur last elapsed\<close> is the percentage of an elapsed time.\<close>

definition sampleCPU :: "'f floatOps \<Rightarrow> int \<Rightarrow> 'f \<Rightarrow> 'f \<Rightarrow> 'f Stats \<Rightarrow> 'f Stats" where
  "sampleCPU F now curSys curUser s =
     (let s1 = (case lastCPUSample s of
                  None \<Rightarrow> s
                | Some t \<Rightarrow>
                    (if now - t > 0 then
                       s\<lparr>cpuSysPct := fPct F curSys (lastCPUSys s) (now - t), cpuUserPct := fPct F curUser (lastCPUUser s) (now - t)\<rparr>
                     else s))
      in s1\<lparr>lastCPUSample := Some now, lastCPUSys := curSys, lastCPUUser := curUser\<rparr>)"

definition Snapshot :: "'f floatOps \<Rightarrow> sysInfo \<Rightarrow> int \<Rightarrow> 'f Stats \<Rightarrow> 'f StatsSnapshot \<times> 'f Stats" where
  "Snapshot F sys now s =
     (let snap0 = \<lparr>UptimeSeconds = (now - startTime s) div 1000000000, TotalConnections = totalConnections s,
                  CurrConnections = currConnections s, TotalCommands = totalCommands s, QPS = qps (now div 1000000000) s,
                  HeapAllocBytes = wrap64 (siHeapAlloc sys), HeapSysBytes = wrap64 (siHeapSys sys),
                  NumGoroutines = siGoroutines sys, NumCPU = siCPU sys, NumGC = siNumGC sys,
                  PauseTotalNs = wrap64 (siPauseTotalNs sys), UsedCPUSys = fZero F, UsedCPUUser = fZero F,
                  CPUSysPct = fZero F, CPUUserPct = fZero F\<rparr>
      in case siRusage sys of
           None \<Rightarrow> (snap0, s)
         | Some ((ssec, susec), (usec, uusec)) \<Rightarrow>
            (let curSys = fSeconds F ssec susec; curUser = fSeconds F usec uusec;
                 s1 = sampleCPU F now curSys curUser s
             in (snap0\<lparr>UsedCPUSys := curSys, UsedCPUUser := curUser, CPUSysPct := cpuSysPct s1, CPUUserPct := cpuUserPct s1\<rparr>,
                 s1)))"

definition statLine :: "bytes \<Rightarrow> bytes \<Rightarrow> bytes" where
  "statLine name v = name @ '':'' @ v @ CRLF"

definition Format :: "'f floatOps \<Rightarrow> 'f StatsSnapshot \<Rightarrow> bytes" where
  "Format F snap =
     ''# Stats'' @ CRLF @
     statLine ''uptime_in_seconds'' (fmt_int (UptimeSeconds snap)) @
     statLine ''total_connections_received'' (fmt_int (TotalConnections snap)) @
     statLine ''connected_clients'' (fmt_int (CurrConnections snap)) @
     statLine ''total_commands_processed'' (fmt_int (TotalCommands snap)) @
     statLine ''instantaneous_ops_per_sec'' (fmt_int (QPS snap)) @
     CRLF @
     ''# Memory'' @ CRLF @
     statLine ''heap_alloc_bytes'' (fmt_int (HeapAllocBytes snap)) @
     statLine ''heap_sys_bytes'' (fmt_int (HeapSysBytes snap)) @
     CRLF @
     ''# CPU'' @ CRLF @
     statLine ''num_cpu'' (fmt_int (NumCPU snap)) @
     statLine ''num_goroutines'' (fmt_int (NumGoroutines snap)) @
     statLine ''used_cpu_sys'' (fFixed F 6 (UsedCPUSys snap)) @
     statLine ''used_cpu_user'' (fFixed F 6 (UsedCPUUser snap)) @
     statLine ''used_cpu_sys_pct'' (fFixed F 2 (CPUSysPct snap)) @
     statLine ''used_cpu_user_pct'' (fFixed F 2 (CPUUserPct snap)) @
     CRLF @
     ''# GC'' @ CRLF @
     statLine ''total_gc_runs'' (fmt_int (NumGC snap)) @
     statLine ''gc_pause_total_ns'' (fmt_int (PauseTotalNs snap))"


section \<open>Adding commands concurrently\<close>

text \<open>
  The goroutines of the event loops add commands at the same time. Each of them makes the atomic
  operations of \<^verbatim>\<open>addCommands\<close> one by one: adding to the total, loading the second of the bucket,
  adding to the bucket or moving it on, exchanging its count, and storing the old count.
\<close>

datatype addPc = AStart | ATotal | ALoaded int int | AWon | ASwapped int | ADone

fun addStep :: "int \<Rightarrow> int \<Rightarrow> addPc \<Rightarrow> 'f Stats \<Rightarrow> (addPc \<times> 'f Stats \<times> int list) option" where
  "addStep now n AStart s = Some (ATotal, s\<lparr>totalCommands := wrap64 (totalCommands s + wrap64 n)\<rparr>, [])"
| "addStep now n ATotal s = Some (ALoaded now (qpsBucketSec s), s, [])"
| "addStep now n (ALoaded t b) s =
     (if b = t then Some (ADone, s\<lparr>qpsBucketCount := wrap64 (qpsBucketCount s + wrap64 n)\<rparr>, [])
      else if qpsBucketSec s = b then Some (AWon, s\<lparr>qpsBucketSec := t\<rparr>, [])
      else Some (ADone, s\<lparr>qpsBucketCount := wrap64 (qpsBucketCount s + wrap64 n)\<rparr>, []))"
| "addStep now n AWon s = Some (ASwapped (qpsBucketCount s), s\<lparr>qpsBucketCount := wrap64 n\<rparr>, [qpsBucketCount s])"
| "addStep now n (ASwapped old) s = Some (ADone, s\<lparr>qpsLastValue := old\<rparr>, [])"
| "addStep now n ADone s = None"

text \<open>
  A step of the \<open>i\<close>-th goroutine at some time. The effects are the counts taken out of the bucket.
\<close>

fun addSched :: "nat \<times> int \<Rightarrow> (int \<times> addPc) list \<times> 'f Stats \<Rightarrow> (((int \<times> addPc) list \<times> 'f Stats) \<times> int list) option" where
  "addSched (i, now) (ts, s) =
     (if i < length ts then
        (case addStep now (fst (ts ! i)) (snd (ts ! i)) s of
           None \<Rightarrow> None
         | Some (pc', s', es) \<Rightarrow> Some ((ts[i := (fst (ts ! i), pc')], s'), es))
      else None)"

text \<open>Uninterrupted, the operations amount to \<open>addCommands\<close>.\<close>

lemma addSched_sequential:
  "\<exists>k. map_option fst (runs addSched (replicate k (0, now)) ([(n, AStart)], s)) = Some ([(n, ADone)], addCommands now n s)"
proof (cases "qpsBucketSec s = now")
  case True
  then show ?thesis by (intro exI [of _ 3]) (simp add: numeral_3_eq_3 addCommands_def Let_def)
next
  case False
  then show ?thesis
    by (intro exI [of _ 5]) (simp add: numeral_eq_Suc addCommands_def Let_def)
qed

fun started :: "int \<times> addPc \<Rightarrow> int" where
  "started (n, pc) = (if pc = AStart then 0 else n)"

fun counted :: "int \<times> addPc \<Rightarrow> int" where
  "counted (n, ADone) = n"
| "counted (n, ASwapped _) = n"
| "counted (n, _) = 0"

lemma sum_list_upd: "i < length ts \<Longrightarrow> sum_list (map f (ts[i := x])) = sum_list (map f ts) - f (ts ! i) + (f x :: int)"
  by (induction ts arbitrary: i) (auto split: nat.split)

lemma wrap64_cong_add: "wrap64 a = wrap64 b \<Longrightarrow> wrap64 (a + c) = wrap64 (b + c)"
  by (metis wrap64_add_left)

lemma wrap64_add_right: "wrap64 (a + wrap64 b) = wrap64 (a + b)"
  by (metis add.commute wrap64_add_left)

lemma addStep_sums:
  assumes "addStep now n pc s = Some (pc', s', es)"
  shows "wrap64 (totalCommands s') = wrap64 (totalCommands s + (started (n, pc') - started (n, pc)))"
    and "wrap64 (qpsBucketCount s' + sum_list es) = wrap64 (qpsBucketCount s + (counted (n, pc') - counted (n, pc)))"
  using assms by (cases pc; auto simp: wrap64_add_left wrap64_add_right add.commute split: if_splits)+

lemma addSched_sums:
  assumes "addSched op (ts, s) = Some ((ts', s'), es)"
  shows "wrap64 (totalCommands s') = wrap64 (totalCommands s + (sum_list (map started ts') - sum_list (map started ts)))"
    and "wrap64 (qpsBucketCount s' + sum_list es) = wrap64 (qpsBucketCount s + (sum_list (map counted ts') - sum_list (map counted ts)))"
    and "map fst ts' = map fst ts"
proof -
  obtain i now where op: "op = (i, now)" by (cases op)
  from assms op obtain pc' where i: "i < length ts" and st: "addStep now (fst (ts ! i)) (snd (ts ! i)) s = Some (pc', s', es)"
    and ts': "ts' = ts[i := (fst (ts ! i), pc')]" by (auto split: if_splits option.splits)
  note d = addStep_sums [OF st, unfolded prod.collapse]
  show "wrap64 (totalCommands s') = wrap64 (totalCommands s + (sum_list (map started ts') - sum_list (map started ts)))"
    using d(1) i by (simp add: ts' sum_list_upd)
  show "wrap64 (qpsBucketCount s' + sum_list es) = wrap64 (qpsBucketCount s + (sum_list (map counted ts') - sum_list (map counted ts)))"
    using d(2) i by (simp add: ts' sum_list_upd)
  show "map fst ts' = map fst ts" using i by (simp add: ts' map_update)
       (metis list_update_id map_update)
qed

lemma runs_sums:
  assumes "runs addSched ops (ts, s) = Some ((ts', s'), es)"
  shows "wrap64 (totalCommands s') = wrap64 (totalCommands s + (sum_list (map started ts') - sum_list (map started ts))) \<and>
    wrap64 (qpsBucketCount s' + sum_list es) = wrap64 (qpsBucketCount s + (sum_list (map counted ts') - sum_list (map counted ts))) \<and>
    map fst ts' = map fst ts"
  using assms
proof (induction ops arbitrary: ts s es)
  case (Cons op ops)
  from Cons.prems obtain m es1 es2 where *: "addSched op (ts, s) = Some (m, es1)"
    "runs addSched ops m = Some ((ts', s'), es2)" "es = es1 @ es2"
    by (rule runs_ConsE)
  obtain ts1 s1 where m: "m = (ts1, s1)" by (cases m)
  note st = addSched_sums [OF *(1) [unfolded m]] and rest = Cons.IH [OF *(2) [unfolded m]]
  have "wrap64 (totalCommands s') = wrap64 (totalCommands s + (sum_list (map started ts') - sum_list (map started ts)))"
    using conjunct1 [OF rest] wrap64_cong_add [OF st(1), of "sum_list (map started ts') - sum_list (map started ts1)"]
    by (simp add: algebra_simps)
  moreover have "wrap64 (qpsBucketCount s' + sum_list es2 + sum_list es1) =
      wrap64 (qpsBucketCount s1 + (sum_list (map counted ts') - sum_list (map counted ts1)) + sum_list es1)"
    by (rule wrap64_cong_add) (use rest in blast)
  then have "wrap64 (qpsBucketCount s' + sum_list es) = wrap64 (qpsBucketCount s + (sum_list (map counted ts') - sum_list (map counted ts)))"
    using wrap64_cong_add [OF st(2), of "sum_list (map counted ts') - sum_list (map counted ts1)"]
    by (simp add: *(3) algebra_simps)
  ultimately show ?case using rest st(3) by simp
qed simp

text \<open>
  C22. When goroutines add their commands to the statistics concurrently, in any interleaving of the
  atomic operations of \<^verbatim>\<open>addCommands\<close>, the total counts every command once they are done, and no
  command is lost from or counted twice in the buckets: the counts taken out of the bucket and
  the one left in it sum up to all the commands.
\<close>

theorem addCommands_exact:
  assumes "runs addSched ops (map (\<lambda>n. (n, AStart)) ns, newStats F t) = Some ((ts, s), es)" "snd ` set ts \<subseteq> {ADone}"
  shows "wrap64 (totalCommands s) = wrap64 (sum_list ns) \<and> wrap64 (qpsBucketCount s + sum_list es) = wrap64 (sum_list ns)"
proof -
  note r = runs_sums [OF assms(1)]
  have "map started ts = map fst ts" using assms(2) by (intro map_cong refl) (force split: prod.split)
  moreover have "map counted ts = map fst ts"
    using assms(2) by (intro map_cong refl) (metis (no_types, lifting) counted.simps(1) image_subset_iff prod.collapse singletonD)
  moreover have "sum_list (map started (map (\<lambda>n. (n, AStart)) ns)) = 0" "sum_list (map counted (map (\<lambda>n. (n, AStart)) ns)) = 0"
    by (induction ns) auto
  moreover have "map fst (map (\<lambda>n. (n, AStart)) ns) = ns" by (induction ns) auto
  ultimately show ?thesis using r by (simp add: newStats_def)
qed

definition sampleSched :: "(nat \<times> int) list" where
  "sampleSched = [(0, 5), (0, 5), (1, 5), (0, 5), (1, 5), (0, 5), (1, 5), (0, 5)]"

definition unitOps :: "unit floatOps" where
  "unitOps = \<lparr>fZero = (), fSeconds = (\<lambda>_ _. ()), fPct = (\<lambda>_ _ _. ()), fFixed = (\<lambda>_ _. [])\<rparr>"

theorem addCommands_exact_witness:
  "\<exists>ts s es. runs addSched sampleSched (map (\<lambda>n. (n, AStart)) [3, 4], newStats unitOps 0) = Some ((ts, s), es) \<and>
     snd ` set ts \<subseteq> {ADone} \<and> wrap64 (totalCommands s) = wrap64 (sum_list [3, 4])"
proof -
  let ?r = "runs addSched sampleSched (map (\<lambda>n. (n, AStart)) [3, 4], newStats unitOps 0)"
  have "map_option (\<lambda>((ts, s), es). snd ` set ts \<subseteq> {ADone}) ?r = Some True"
    by (simp add: sampleSched_def newStats_def)
  then obtain ts s es where r: "?r = Some ((ts, s), es)" and d: "snd ` set ts \<subseteq> {ADone}" by auto
  from conjunct1 [OF addCommands_exact [OF r d]] r d show ?thesis by blast
qed

text \<open>
  The rate shown is the count of the bucket before the current one, whatever the second it is
  from: after a pause it is that of the last busy second before the pause.
\<close>

lemma qps_stale:
  assumes "qpsBucketSec s = t" "0 < t" "t + 1000 < 2 ^ 63 - 1"
  shows "qps (t + 1000) (addCommands (t + 1000) n s) = qpsBucketCount s"
  using assms by (simp add: qps_def addCommands_def Let_def wrap64_def)

end
