(* ===== verification/Engine.thy ===== *)
theory Engine
  imports BackendMux PubsubHub BlockingPool Config Router_Exec MultiKey
begin

text \<open>
  The event loop of the proxy, \<^verbatim>\<open>src/pkg/engine/handler.go\<close>: its state, the effects of its handlers
  and the operations that the handlers share. One event loop is modelled; loops share only the
  counters of clients.

  A connection is a number. The context that Go attaches to a connection is an entry of a map:
  a client has a \<open>clientCtx\<close> and a reply queue, which is part of the state of the multiplexer; a
  dedicated connection to a node has a \<open>backendCtx\<close>. The functions that wait for replies on a
  dedicated connection are values of a datatype.

  What happens outside is a list of effects. Connections are closed and registered by effects;
  that they have been closed or opened is an event of its own. The topology of the manager is
  never nil, so the branches for a nil topology are left out.
\<close>

section \<open>State\<close>

record clientCtx =
  ccId :: int
  ccState :: clientState
  ccAuthenticated :: bool
  ccName :: bytes
  ccTxQueue :: "Request list"
  ccTxErr :: bool
  ccWatchAddr :: bytes
  ccWatch :: "nat option"
  ccMulti :: "nat option"
  ccSub :: "nat option"
  ccBlocking :: "nat option"
  ccBlockingSlot :: int
  ccPendingCmds :: "Request list"
  ccPendingWatchReq :: "Request option"
  ccPendingWatchSlot :: int
  ccPendingSubReq :: "Request option"

text \<open>
  The functions waiting for a reply: of \<^verbatim>\<open>AUTH\<close> on a dedicated connection, alone or followed by a
  blocking command; of the first \<^verbatim>\<open>WATCH\<close> on a connection and of a later one; of \<^verbatim>\<open>MULTI\<close> and \<^verbatim>\<open>EXEC\<close>;
  of a blocking command; and the one that ignores its reply.
\<close>

datatype respond =
    RIgnore
  | RAuth
  | RAuthThenBlocking "Request option"
  | RWatchFirst Request int
  | RWatchAgain int
  | RMulti "Request list" int
  | RExec int
  | RBlocking Request

record backendCtx =
  bcClient :: nat
  bcAddr :: bytes
  bcIsSub :: bool
  bcIsBlocking :: bool
  bcIsMulti :: bool
  bcIsClosed :: bool
  bcPendingBlockingReq :: "Request option"
  bcPending :: "(nat \<times> respond) list"

record engine =
  enLoop :: loopState
  enClients :: "nat \<Rightarrow> clientCtx option"
  enBackends :: "nat \<Rightarrow> backendCtx option"
  enHub :: pubsubHub
  enBlocking :: blockingConnPool
  enRouter :: "unit Router"
  enNumClients :: int
  enMaxClients :: int
  enClientSeq :: int
  enCmdCount :: int

text \<open>What the goroutine pool is to run: a request through the router, a script, a broadcast.\<close>

datatype job = JobExecute Request | JobScript Request | JobBroadcast Request

text \<open>The goroutine that waits for a dialled connection knows what it is for.\<close>

datatype dialFor = DialWatch | DialSub | DialBlocking | DialMulti "Request list" int

datatype eff =
    MuxEff effect
  | HubEff hubEffect
  | DedWrite nat bytes
  | DedClose nat
  | CloseClient nat
  | DedRegister nat backendCtx dialFor
  | Submit nat int job
  | AsyncWrite nat bytes
  | TriggerTopo
  | StatInc
  | StatDec
  | StatAdd int

text \<open>
  The environment: configuration and address of the proxy, the errors of resolving and of
  registering an address, the iteration order of the subscriptions, the remote address of a
  connection, the numbers of connections in the pools of the router, the text of a snapshot of
  the statistics, and whether the event loop calls \<^verbatim>\<open>OnClose\<close> for a connection before
  \<^verbatim>\<open>EventLoop.Close\<close> returns. That makes a difference inside a handler only when a client leaves
  during a blocking command. In all other places the call of \<^verbatim>\<open>OnClose\<close> is an event of its own,
  which may come next or later: closing the connection of a finished transaction clears the
  client's reference to it there, and what else the handler does is independent of that.
\<close>

record engineEnv =
  eeCfg :: Config
  eeListenAddr :: bytes
  eeResolveErr :: "bytes \<Rightarrow> bytes option"
  eeRegisterErr :: "bytes \<Rightarrow> bytes option"
  eeOrder :: map_order
  eeRemoteAddr :: "nat \<Rightarrow> bytes"
  eePoolCount :: "bytes \<Rightarrow> int"
  eePipeCount :: "bytes \<Rightarrow> int"
  eeStatsText :: bytes
  eeCloseNow :: bool

definition menvOf :: "engineEnv \<Rightarrow> engine \<Rightarrow> menv" where
  "menvOf env en =
     \<lparr>meDialErr = (\<lambda>addr. case eeResolveErr env addr of
          Some e \<Rightarrow> Some (''resolve '' @ addr @ '': '' @ e)
        | None \<Rightarrow> map_option (\<lambda>e. ''register '' @ addr @ '': '' @ e) (eeRegisterErr env addr)),
      meTopo = rtTopo (enRouter en)\<rparr>"

definition hubEnvOf :: "engineEnv \<Rightarrow> engine \<Rightarrow> hubEnv" where
  "hubEnvOf env en =
     \<lparr>heTopo = rtTopo (enRouter en),
      heDialErr = (\<lambda>addr. eeResolveErr env addr \<noteq> None \<or> eeRegisterErr env addr \<noteq> None),
      heUsername = cfgUsername (eeCfg env), hePassword = cfgPassword (eeCfg env), heOrder = eeOrder env\<rparr>"

definition newClientCtx :: "engineEnv \<Rightarrow> int \<Rightarrow> clientCtx" where
  "newClientCtx env i =
     \<lparr>ccId = i, ccState = stateNormal, ccAuthenticated = (cfgClientPassword (eeCfg env) = []), ccName = [],
      ccTxQueue = [], ccTxErr = False, ccWatchAddr = [], ccWatch = None, ccMulti = None, ccSub = None,
      ccBlocking = None, ccBlockingSlot = 0, ccPendingCmds = [], ccPendingWatchReq = None,
      ccPendingWatchSlot = 0, ccPendingSubReq = None\<rparr>"

definition newEngine :: "engineEnv \<Rightarrow> unit Router \<Rightarrow> engine" where
  "newEngine env r =
     \<lparr>enLoop = newBackendMux, enClients = (\<lambda>_. None), enBackends = (\<lambda>_. None), enHub = newPubsubHub,
      enBlocking = newBlockingConnPool, enRouter = r, enNumClients = 0,
      enMaxClients = cfgMaxClients (eeCfg env), enClientSeq = 0, enCmdCount = 0\<rparr>"


section \<open>Access to the state\<close>

text \<open>The context of a client; handlers run only for connections that have one.\<close>

definition cx :: "engine \<Rightarrow> nat \<Rightarrow> clientCtx" where
  "cx en c = the (enClients en c)"

definition updClient :: "nat \<Rightarrow> (clientCtx \<Rightarrow> clientCtx) \<Rightarrow> engine \<Rightarrow> engine" where
  "updClient c f en = en\<lparr>enClients := (enClients en)(c := map_option f (enClients en c))\<rparr>"

definition updBackend :: "nat \<Rightarrow> (backendCtx \<Rightarrow> backendCtx) \<Rightarrow> engine \<Rightarrow> engine" where
  "updBackend b f en = en\<lparr>enBackends := (enBackends en)(b := map_option f (enBackends en b))\<rparr>"

definition queueOf :: "engine \<Rightarrow> nat \<Rightarrow> rqueue" where
  "queueOf en c = the (lsClients (enLoop en) c)"

definition setQueue :: "nat \<Rightarrow> rqueue \<Rightarrow> engine \<Rightarrow> engine" where
  "setQueue c q en = en\<lparr>enLoop := (enLoop en)\<lparr>lsClients := (lsClients (enLoop en))(c \<mapsto> q)\<rparr>\<rparr>"

text \<open>A step of the multiplexer as a step of the engine.\<close>

definition onLoop :: "(loopState \<Rightarrow> loopState \<times> effect list) \<Rightarrow> engine \<Rightarrow> engine \<times> eff list" where
  "onLoop f en = (case f (enLoop en) of (ls, es) \<Rightarrow> (en\<lparr>enLoop := ls\<rparr>, map MuxEff es))"

text \<open>A step of the hub; the states of clients that it sets are set at once.\<close>

definition applyHub :: "pubsubHub \<times> hubEffect list \<Rightarrow> engine \<Rightarrow> engine \<times> eff list" where
  "applyHub r en =
     (case r of (hub, es) \<Rightarrow>
       (fold (\<lambda>e s. case e of HubState c st \<Rightarrow> updClient c (\<lambda>cc. cc\<lparr>ccState := st\<rparr>) s | _ \<Rightarrow> s) es (en\<lparr>enHub := hub\<rparr>),
        map HubEff (filter (\<lambda>e. case e of HubState _ _ \<Rightarrow> False | _ \<Rightarrow> True) es)))"

text \<open>Running two steps one after the other.\<close>

definition andThen :: "engine \<times> eff list \<Rightarrow> (engine \<Rightarrow> engine \<times> eff list) \<Rightarrow> engine \<times> eff list" where
  "andThen r f = (case r of (en, es) \<Rightarrow> (case f en of (en', es') \<Rightarrow> (en', es @ es')))"


section \<open>Replies to clients\<close>

definition writeTo :: "nat \<Rightarrow> bytes \<Rightarrow> eff" where
  "writeTo c data = MuxEff (ClientWrite c [data])"

definition allocSlot :: "nat \<Rightarrow> engine \<Rightarrow> int \<times> engine" where
  "allocSlot c en = (case allocResponseSlot (queueOf en c) of (i, q) \<Rightarrow> (i, setQueue c q en))"

definition fillResponseSlot :: "nat \<Rightarrow> int \<Rightarrow> bytes \<Rightarrow> eff" where
  "fillResponseSlot c absIdx data = MuxEff (AsyncFill c absIdx data)"

text \<open>The fill in the loop; the writes of a client that has gone are lost.\<close>

definition fillInLoop :: "nat \<Rightarrow> int \<Rightarrow> bytes \<Rightarrow> engine \<Rightarrow> engine \<times> eff list" where
  "fillInLoop c absIdx data en =
     (case lsClients (enLoop en) c of
        None \<Rightarrow> (en, [])
      | Some q \<Rightarrow>
         (case fillResponseSlotInLoop absIdx data q of
            (q', out) \<Rightarrow> (setQueue c q' en, if out = [] then [] else [MuxEff (ClientWrite c out)])))"

definition writeImmediate :: "nat \<Rightarrow> bytes \<Rightarrow> engine \<Rightarrow> engine \<times> eff list" where
  "writeImmediate c data en =
     (if respQueue (queueOf en c) = [] then (en, [writeTo c data])
      else (case allocSlot c en of (slotIdx, en') \<Rightarrow> (en', [fillResponseSlot c slotIdx data])))"

definition writeErrToClient :: "nat \<Rightarrow> bytes \<Rightarrow> eff" where
  "writeErrToClient c msg = AsyncWrite c (EncodeError msg)"

definition writeValueToClient :: "nat \<Rightarrow> Value \<Rightarrow> eff" where
  "writeValueToClient c v = AsyncWrite c (EncodeValue (Some v))"


section \<open>Dedicated connections\<close>

definition closeOpt :: "nat option \<Rightarrow> eff list" where
  "closeOpt b = (case b of None \<Rightarrow> [] | Some b \<Rightarrow> [DedClose b])"

definition resetClientState :: "nat \<Rightarrow> engine \<Rightarrow> engine \<times> eff list" where
  "resetClientState c en =
     (let cc = cx en c
      in (updClient c (\<lambda>cc. cc\<lparr>ccState := stateNormal, ccTxQueue := [], ccTxErr := False,
                               ccWatchAddr := (if ccWatch cc \<noteq> None then [] else ccWatchAddr cc),
                               ccWatch := None, ccMulti := None, ccSub := None, ccBlocking := None,
                               ccPendingCmds := []\<rparr>) en,
          closeOpt (ccWatch cc) @ closeOpt (ccMulti cc) @ closeOpt (ccSub cc) @ closeOpt (ccBlocking cc)))"

definition dedCtx :: "nat \<Rightarrow> bytes \<Rightarrow> backendCtx" where
  "dedCtx c addr =
     \<lparr>bcClient = c, bcAddr = addr, bcIsSub = False, bcIsBlocking = False, bcIsMulti = False,
      bcIsClosed = False, bcPendingBlockingReq = None, bcPending = []\<rparr>"

text \<open>Resolving and registering: the address registered, or the message.\<close>

definition tryRegister :: "engineEnv \<Rightarrow> bytes \<Rightarrow> bytes option" where
  "tryRegister env addr =
     (case eeResolveErr env addr of
        Some e \<Rightarrow> Some (''ERR failed to resolve '' @ addr @ '': '' @ e)
      | None \<Rightarrow> map_option (\<lambda>e. ''ERR failed to register backend '' @ addr @ '': '' @ e) (eeRegisterErr env addr))"

definition dialDedicatedBackend :: "engineEnv \<Rightarrow> nat \<Rightarrow> bytes \<Rightarrow> bool \<Rightarrow> engine \<Rightarrow> engine \<times> eff list" where
  "dialDedicatedBackend env c addr isSubConn en =
     (case tryRegister env addr of
        Some msg \<Rightarrow>
          if \<not> isSubConn then fillInLoop c (ccPendingWatchSlot (cx en c)) (EncodeError msg) en
          else (en, [writeErrToClient c msg])
      | None \<Rightarrow> (en, [DedRegister c (dedCtx c addr \<lparr>bcIsSub := isSubConn\<rparr>) (if isSubConn then DialSub else DialWatch)]))"

text \<open>The goroutine reports that dialling failed.\<close>

definition dedicatedDialFailed :: "nat \<Rightarrow> bool \<Rightarrow> bytes \<Rightarrow> engine \<Rightarrow> engine \<times> eff list" where
  "dedicatedDialFailed c isSubConn e en =
     (let data = EncodeError (''ERR backend connection failed: '' @ e)
      in if isSubConn then (en, [AsyncWrite c data])
         else (case enClients en c of
                 None \<Rightarrow> (en, [])
               | Some cc \<Rightarrow> fillInLoop c (ccPendingWatchSlot cc) data en))"

definition authArgs :: "Config \<Rightarrow> bytes list" where
  "authArgs cfg =
     (if cfgUsername cfg \<noteq> [] then [''AUTH'', cfgUsername cfg, cfgPassword cfg] else [''AUTH'', cfgPassword cfg])"

text \<open>Waiting for a reply on a dedicated connection and writing the command.\<close>

definition sendDed :: "nat \<Rightarrow> nat \<Rightarrow> respond \<Rightarrow> bytes list \<Rightarrow> engine \<Rightarrow> engine \<times> eff list" where
  "sendDed c b k args en =
     (updBackend b (\<lambda>bc. bc\<lparr>bcPending := bcPending bc @ [(c, k)]\<rparr>) en, [DedWrite b (EncodeCommandBytes args)])"

definition authDedicatedConn :: "engineEnv \<Rightarrow> nat \<Rightarrow> nat \<Rightarrow> engine \<Rightarrow> engine \<times> eff list" where
  "authDedicatedConn env c b en =
     (if cfgPassword (eeCfg env) = [] then (en, [])
      else sendDed c b RAuth (authArgs (eeCfg env)) en)"

end
