(* ===== verification/Engine_Local.thy ===== *)
theory Engine_Local
  imports Engine
begin

text \<open>
  The commands that the proxy answers itself, \<^verbatim>\<open>src/pkg/engine/handler_routing.go\<close>: \<^verbatim>\<open>HELLO\<close>, \<^verbatim>\<open>AUTH\<close>,
  \<^verbatim>\<open>CLUSTER\<close>, \<^verbatim>\<open>CLIENT\<close> and \<^verbatim>\<open>PROXY\<close>, and the way into the router.
\<close>

type_synonym handled = "engine \<times> eff list \<times> action"

definition reply :: "nat \<Rightarrow> bytes \<Rightarrow> engine \<Rightarrow> handled" where
  "reply c data en = (case writeImmediate c data en of (en', es) \<Rightarrow> (en', es, ActNone))"

definition quoted :: "bytes \<Rightarrow> bytes" where
  "quoted s = [CHR 0x27] @ s @ [CHR 0x27]"

definition wrongArgs :: "bytes \<Rightarrow> bytes" where
  "wrongArgs name = EncodeError (''ERR wrong number of arguments for '' @ quoted name @ '' command'')"

definition noAuth :: bytes where
  "noAuth = EncodeError ''NOAUTH Authentication required.''"

definition proxyAddr :: "engineEnv \<Rightarrow> bytes" where
  "proxyAddr env = (if eeListenAddr env = [] then ''127.0.0.1:7777'' else eeListenAddr env)"


section \<open>The router\<close>

definition submitToRouter :: "nat \<Rightarrow> job \<Rightarrow> engine \<Rightarrow> handled" where
  "submitToRouter c j en = (case allocSlot c en of (slotIdx, en') \<Rightarrow> (en', [Submit c slotIdx j], ActNone))"

text \<open>What the goroutine fills the slot with.\<close>

definition routedData :: "bytes + Value \<Rightarrow> bytes" where
  "routedData r = (case r of Inl e \<Rightarrow> EncodeError e | Inr v \<Rightarrow> EncodeValue (Some v))"

definition handleViaRouter :: "nat \<Rightarrow> Request \<Rightarrow> engine \<Rightarrow> handled" where
  "handleViaRouter c req en = submitToRouter c (JobExecute req) en"

definition handleViaRouterScript :: "nat \<Rightarrow> Request \<Rightarrow> engine \<Rightarrow> handled" where
  "handleViaRouterScript c req en = submitToRouter c (JobScript req) en"


section \<open>Authentication\<close>

definition handleAUTH :: "engineEnv \<Rightarrow> nat \<Rightarrow> bytes list \<Rightarrow> engine \<Rightarrow> handled" where
  "handleAUTH env c args en =
     (let pw = cfgClientPassword (eeCfg env) in
      if pw = [] then
        reply c (EncodeError ''ERR Client sent AUTH, but no password is set. Did you mean ACL SETUSER with >password?'') en
      else if length args \<noteq> 2 \<and> length args \<noteq> 3 then reply c (wrongArgs ''auth'') en
      else (let provided = (if length args = 2 then args ! 1 else args ! 2)
            in if provided \<noteq> pw then
                 reply c (EncodeError ''WRONGPASS invalid username-password pair or user is disabled.'')
                   (updClient c (\<lambda>cc. cc\<lparr>ccAuthenticated := False\<rparr>) en)
               else reply c (EncodeSimpleString ''OK'') (updClient c (\<lambda>cc. cc\<lparr>ccAuthenticated := True\<rparr>) en)))"

text \<open>
  The options of \<^verbatim>\<open>HELLO\<close>; the flag says whether to go on after them.
\<close>

fun helloOpts :: "engineEnv \<Rightarrow> nat \<Rightarrow> bytes list \<Rightarrow> engine \<Rightarrow> engine \<times> eff list \<times> bool" where
  "helloOpts env c [] en = (en, [], True)"
| "helloOpts env c (a # rest) en =
     (if to_upper a = ''AUTH'' then
        (case rest of
           user # pass # rest' \<Rightarrow>
             (case handleAUTH env c [''AUTH'', user, pass] en of
                (en1, es1, _) \<Rightarrow>
                  if \<not> ccAuthenticated (cx en1 c) then (en1, es1, False)
                  else (case helloOpts env c rest' en1 of (en2, es2, go) \<Rightarrow> (en2, es1 @ es2, go)))
         | _ \<Rightarrow>
             (case reply c (EncodeError (''ERR Syntax error in HELLO option '' @ quoted ''auth'')) en of
                (en1, es1, _) \<Rightarrow> (en1, es1, False)))
      else if to_upper a = ''SETNAME'' then
        (case rest of
           name # rest' \<Rightarrow> helloOpts env c rest' (updClient c (\<lambda>cc. cc\<lparr>ccName := name\<rparr>) en)
         | [] \<Rightarrow>
             (case reply c (EncodeError (''ERR Syntax error in HELLO option '' @ quoted ''setname'')) en of
                (en1, es1, _) \<Rightarrow> (en1, es1, False)))
      else helloOpts env c rest en)"

definition helloReply :: "int \<Rightarrow> bytes" where
  "helloReply i =
     EncodeValue (Some (ArrayV
       [Some (BulkV ''server''), Some (BulkV ''pluster''), Some (BulkV ''version''), Some (BulkV ''1.0.0''),
        Some (BulkV ''proto''), Some (IntValue 2), Some (BulkV ''id''), Some (IntValue i),
        Some (BulkV ''mode''), Some (BulkV ''cluster''), Some (BulkV ''role''), Some (BulkV ''master''),
        Some (BulkV ''modules''), Some (ArrayV [])]))"

definition handleHELLO :: "engineEnv \<Rightarrow> nat \<Rightarrow> bytes list \<Rightarrow> engine \<Rightarrow> handled" where
  "handleHELLO env c args en =
     (if 2 \<le> length args \<and> args ! 1 = ''3'' then reply c (EncodeError ''NOPROTO unsupported protocol version'') en
      else if 2 \<le> length args \<and> args ! 1 \<noteq> ''2'' \<and> args ! 1 \<noteq> [] then
        reply c (EncodeError ''ERR Protocol version must be 2 or 3'') en
      else (case helloOpts env c (drop 2 args) en of
              (en1, es1, go) \<Rightarrow>
                if \<not> go then (en1, es1, ActNone)
                else (case reply c (if ccAuthenticated (cx en1 c) then helloReply (ccId (cx en1 c)) else noAuth) en1 of
                        (en2, es2, a) \<Rightarrow> (en2, es1 @ es2, a))))"


section \<open>Information\<close>

definition nodesOutput :: "engineEnv \<Rightarrow> bytes" where
  "nodesOutput env =
     ''0000000000000000000000000000000000000000 '' @ proxyAddr env @ ''@0 myself,master - 0 0 1 connected 0-16383'' @ [LF]"

definition handleClusterNodes :: "engineEnv \<Rightarrow> nat \<Rightarrow> engine \<Rightarrow> handled" where
  "handleClusterNodes env c en = reply c (EncodeBulkString (nodesOutput env)) en"

definition muxConnCount :: "engine \<Rightarrow> bytes \<Rightarrow> int" where
  "muxConnCount en addr = (if lsMuxCount (enLoop en) addr > 0 then lsMuxCount (enLoop en) addr else 0)"

definition totalConnByAddr :: "engineEnv \<Rightarrow> engine \<Rightarrow> bytes \<Rightarrow> int" where
  "totalConnByAddr env en addr = muxConnCount en addr + eePoolCount env addr + eePipeCount env addr"

definition masterLines :: "engineEnv \<Rightarrow> engine \<Rightarrow> Node \<Rightarrow> bytes" where
  "masterLines env en master =
     ''master_'' @ nAddr master @ '' connection: '' @ fmt_int (totalConnByAddr env en (nAddr master)) @ [LF] @
     concat (map (\<lambda>a. '' slave_node_'' @ a @ '' connection: '' @ fmt_int (totalConnByAddr env en a) @ [LF]) (nReplicas master))"

definition handleClusterConnection :: "engineEnv \<Rightarrow> nat \<Rightarrow> engine \<Rightarrow> handled" where
  "handleClusterConnection env c en =
     reply c (EncodeBulkString (concat (map (masterLines env en) (AllMasters (rtTopo (enRouter en)))))) en"

definition handleCLUSTER :: "engineEnv \<Rightarrow> nat \<Rightarrow> Request \<Rightarrow> engine \<Rightarrow> handled" where
  "handleCLUSTER env c req en =
     (if length (Args req) < 2 then reply c (wrongArgs ''cluster'') en
      else (let sub = to_upper (Args req ! 1) in
        if sub = ''NODES'' then handleClusterNodes env c en
        else if sub \<in> {''SLOTS'', ''INFO'', ''MYID'', ''SHARDS'', ''KEYSLOT'', ''COUNTKEYSINSLOT'', ''GETKEYSINSLOT'', ''RESET''} then
          handleViaRouter c req en
        else if sub = ''CONNECTION'' then handleClusterConnection env c en
        else reply c (EncodeError (''ERR unknown subcommand '' @ quoted (to_lower sub) @ ''. Try CLUSTER HELP.'')) en))"

definition clientInfo :: "engineEnv \<Rightarrow> nat \<Rightarrow> engine \<Rightarrow> bytes" where
  "clientInfo env c en = ''id='' @ fmt_int (ccId (cx en c)) @ '' addr='' @ eeRemoteAddr env c @ [LF]"

definition handleClientCmd :: "engineEnv \<Rightarrow> nat \<Rightarrow> bytes list \<Rightarrow> engine \<Rightarrow> handled" where
  "handleClientCmd env c args en =
     (if length args < 2 then reply c (wrongArgs ''client'') en
      else (let sub = to_upper (args ! 1) in
        if sub = ''SETNAME'' then
          (if length args < 3 then reply c (wrongArgs ''client|setname'') en
           else if length (args ! 2) > maxClientNameLen then
             reply c (EncodeError (''ERR Client setname command name too long, maximum is '' @ fmt_int (int maxClientNameLen))) en
           else reply c (EncodeSimpleString ''OK'') (updClient c (\<lambda>cc. cc\<lparr>ccName := args ! 2\<rparr>) en))
        else if sub = ''GETNAME'' then
          reply c (EncodeBulkString
            (if ccName (cx en c) = [] then ''pluster-client-'' @ fmt_int (ccId (cx en c)) else ccName (cx en c))) en
        else if sub = ''ID'' then reply c (EncodeValue (Some (IntValue (ccId (cx en c))))) en
        else if sub = ''INFO'' \<or> sub = ''LIST'' then reply c (EncodeBulkString (clientInfo env c en)) en
        else if sub \<in> {''NO-EVICT'', ''NO-TOUCH'', ''CACHING'', ''UNPAUSE'', ''PAUSE''} then reply c (EncodeSimpleString ''OK'') en
        else reply c (EncodeError (''ERR unknown subcommand '' @ quoted sub @ '' for '' @ quoted ''client'' @ '' command'')) en))"

definition proxyConfig :: "nat \<Rightarrow> bytes list \<Rightarrow> engine \<Rightarrow> handled" where
  "proxyConfig c args en =
     (if length args < 3 then reply c (wrongArgs ''proxy config'') en
      else (let action = to_upper (args ! 2) in
        if action = ''GET'' then
          (if length args < 4 then reply c (EncodeError ''ERR wrong number of arguments'') en
           else (let opt = to_lower (args ! 3) in
             if opt = ''max-clients'' then
               reply c (EncodeValue (Some (ArrayV [Some (BulkV ''max-clients''), Some (BulkV (fmt_int (enMaxClients en)))]))) en
             else reply c (EncodeError (''ERR unknown option '' @ quoted opt)) en))
        else if action = ''SET'' then
          (if length args < 5 then reply c (EncodeError ''ERR wrong number of arguments'') en
           else (let opt = to_lower (args ! 3) in
             if opt = ''max-clients'' then
               (case parse_int64 (args ! 4) of
                  Some n \<Rightarrow>
                    if n < 0 then reply c (EncodeError ''ERR invalid value for max-clients'') en
                    else reply c (EncodeSimpleString ''OK'') (en\<lparr>enMaxClients := n\<rparr>)
                | None \<Rightarrow> reply c (EncodeError ''ERR invalid value for max-clients'') en)
             else reply c (EncodeError (''ERR unknown option '' @ quoted opt)) en))
        else reply c (EncodeError (''ERR unknown action '' @ quoted action)) en))"

definition proxyMultiplexing :: "nat \<Rightarrow> bytes list \<Rightarrow> engine \<Rightarrow> handled" where
  "proxyMultiplexing c args en =
     (if length args < 3 then reply c (wrongArgs ''proxy multiplexing'') en
      else (let action = to_upper (args ! 2) in
        if action = ''STATUS'' then reply c (EncodeBulkString ''off'') en
        else if action = ''OFF'' then reply c (EncodeSimpleString ''OK'') en
        else reply c (EncodeError (''ERR unknown subcommand '' @ quoted (to_lower action) @
               ''. Try PROXY MULTIPLEXING STATUS|OFF.'')) en))"

definition proxyInfo :: bytes where
  "proxyInfo = ''proxy_version:1.0.0'' @ CRLF @ ''cross_slot:true'' @ CRLF @ ''multiplexing_api:off'' @ CRLF"

definition handleProxyCmd :: "engineEnv \<Rightarrow> nat \<Rightarrow> bytes list \<Rightarrow> engine \<Rightarrow> handled" where
  "handleProxyCmd env c args en =
     (if length args < 2 then reply c (wrongArgs ''proxy'') en
      else (let sub = to_upper (args ! 1) in
        if sub = ''CONFIG'' then proxyConfig c args en
        else if sub = ''INFO'' then reply c (EncodeBulkString proxyInfo) en
        else if sub = ''STATS'' then reply c (EncodeBulkString (eeStatsText env)) en
        else if sub = ''NODES'' then reply c (EncodeBulkString (nodesOutput env)) en
        else if sub = ''MULTIPLEXING'' then proxyMultiplexing c args en
        else reply c (EncodeError (''ERR unknown subcommand '' @ quoted sub @ '' for '' @ quoted ''proxy'' @ '' command'')) en))"

end
