(* ===== verification/Engine_Route.thy ===== *)
theory Engine_Route
  imports Engine_Local
begin

text \<open>
  The requests that leave the proxy: the routing of requests with one and with several keys in
  \<^verbatim>\<open>src/pkg/engine/handler_routing.go\<close> and blocking commands in \<^verbatim>\<open>handler_blocking.go\<close>. A handler
  that may panic has an optional result.
\<close>

definition finish :: "engine \<times> eff list \<Rightarrow> handled" where
  "finish r = (case r of (en, es) \<Rightarrow> (en, es, ActNone))"

definition noNode :: "nat \<Rightarrow> bytes" where
  "noNode slot = EncodeError (''ERR no node for slot '' @ fmt_int (int slot))"

definition crossSlot :: bytes where
  "crossSlot = EncodeError (''CROSSSLOT Keys in request don'' @ [CHR 0x27] @ ''t hash to the same slot'')"

definition nodeFor :: "engine \<Rightarrow> nat \<Rightarrow> Node option" where
  "nodeFor en slot = GetNodeForSlot (rtTopo (enRouter en)) (int slot)"


section \<open>One node\<close>

definition muxReq :: "nat \<Rightarrow> int \<Rightarrow> Request \<Rightarrow> pendingClientReq" where
  "muxReq c slotIdx req =
     \<lparr>pcConn = c, pcSlot = slotIdx, pcDepth = 0, pcReq = Some req, pcSkip = False, pcAsk = False,
      pcFanIn = False, pcFanInIdx = 0\<rparr>"

definition sendMux :: "engineEnv \<Rightarrow> bytes \<Rightarrow> pendingClientReq \<Rightarrow> engine \<Rightarrow> engine \<times> eff list" where
  "sendMux env addr p en = onLoop (send (menvOf env en) addr p) en"

definition sendOne :: "engineEnv \<Rightarrow> nat \<Rightarrow> bytes \<Rightarrow> Request \<Rightarrow> engine \<Rightarrow> handled" where
  "sendOne env c addr req en =
     (case allocSlot c en of (slotIdx, en') \<Rightarrow> finish (sendMux env addr (muxReq c slotIdx req) en'))"

fun sendGroups :: "engineEnv \<Rightarrow> nat \<Rightarrow> int \<Rightarrow> Request \<Rightarrow> bytes \<Rightarrow> (nat \<times> slotGroup) list \<Rightarrow> engine \<Rightarrow> (engine \<times> eff list) option" where
  "sendGroups env c slotIdx req name [] en = Some (en, [])"
| "sendGroups env c slotIdx req name ((gi, sg) # gs) en =
     (case subArgs name (Args req) sg of
        None \<Rightarrow> None
      | Some args \<Rightarrow>
         (case sendMux env (sgAddr sg)
                 ((muxReq c slotIdx \<lparr>Args = args, Raw = [], Cmd = Cmd req\<rparr>)\<lparr>pcFanIn := True, pcFanInIdx := gi\<rparr>) en of
            (en1, es1) \<Rightarrow>
              (case sendGroups env c slotIdx req name gs en1 of
                 None \<Rightarrow> None
               | Some (en2, es2) \<Rightarrow> Some (en2, es1 @ es2))))"

definition fanInOf :: "bytes \<Rightarrow> nat \<Rightarrow> slotGroup list \<Rightarrow> fanInState" where
  "fanInOf name totalKeys groups =
     \<lparr>fiTotal = length groups, fiReceived = 0, fiSubData = replicate (length groups) \<lparr>subIdx = 0, subData = []\<rparr>,
      fiMergeFunc = mergeSubs name totalKeys groups\<rparr>"

definition routeMultiKeyToMux :: "engineEnv \<Rightarrow> nat \<Rightarrow> Request \<Rightarrow> bytes \<Rightarrow> engine \<Rightarrow> handled option" where
  "routeMultiKeyToMux env c req name en =
     (let keys = multiKeys name (Args req) in
      if keys = [] then Some (reply c (wrongArgs (to_lower name)) en)
      else (case groupKeys (rtTopo (enRouter en)) (zip [0..<length keys] keys) [] of
              Inl slot \<Rightarrow> Some (reply c (noNode slot) en)
            | Inr gs \<Rightarrow>
               if length gs = 1 then Some (sendOne env c (sgAddr (snd (hd gs))) req en)
               else (let groups = map snd gs in
                     case allocSlot c en of
                       (slotIdx, en1) \<Rightarrow>
                         (let en2 = setQueue c (startFanIn slotIdx (fanInOf name (length keys) groups) (queueOf en1 c)) en1
                          in map_option finish (sendGroups env c slotIdx req name (zip [0..<length groups] groups) en2)))))"

definition notSupportedReply :: "bytes \<Rightarrow> bytes" where
  "notSupportedReply name = EncodeError (''ERR command '' @ quoted (to_lower name) @ '' is not supported in cluster proxy'')"

definition routeToBackend :: "engineEnv \<Rightarrow> nat \<Rightarrow> Request \<Rightarrow> engine \<Rightarrow> handled option" where
  "routeToBackend env c req en =
     (case GetFirstKeyAndInfo req of
        (None, info) \<Rightarrow>
          Some (if info \<noteq> None \<and> IsNotAllowed info then reply c (notSupportedReply (Cmd req)) en
                else submitToRouter c (JobExecute req) en)
      | (Some key, info) \<Rightarrow>
          if info \<noteq> None \<and> IsNotAllowed info then Some (reply c (notSupportedReply (Cmd req)) en)
          else if info \<noteq> None \<and> IsAllNodes info then Some (submitToRouter c (JobExecute req) en)
          else if info \<noteq> None \<and> IsMultiKey info then
            (if Cmd req \<in> {''MGET'', ''MSET'', ''DEL'', ''UNLINK'', ''EXISTS'', ''TOUCH''} then
               routeMultiKeyToMux env c req (Cmd req) en
             else Some (submitToRouter c (JobExecute req) en))
          else (let slot = HashSlot key; isRead = (info \<noteq> None \<and> IsRead info \<and> \<not> IsWrite info) in
                case nodeAddrForSlot (enRouter en) (int slot) isRead of
                  (Inl _, r) \<Rightarrow> Some (reply c (noNode slot) (en\<lparr>enRouter := r\<rparr>))
                | (Inr addr, r) \<Rightarrow> Some (sendOne env c addr req (en\<lparr>enRouter := r\<rparr>))))"


section \<open>Blocking commands\<close>

text \<open>\<^verbatim>\<open>extractXREADKeys\<close>; a nil slice is an empty list.\<close>

fun extractXREADKeys :: "bytes list \<Rightarrow> bytes list" where
  "extractXREADKeys [] = []"
| "extractXREADKeys (a # rest) =
     (if equal_fold a ''STREAMS'' then
        (if rest = [] \<or> length rest mod 2 \<noteq> 0 then [] else take (length rest div 2) rest)
      else extractXREADKeys rest)"

text \<open>\<^term>\<open>None\<close> is a slice out of bounds: the end is computed in 64 bits.\<close>

definition extractBlockingKeys :: "Request \<Rightarrow> bytes list option" where
  "extractBlockingKeys req =
     (let args = Args req in
      if Cmd req \<in> {''BLPOP'', ''BRPOP'', ''BZPOPMIN'', ''BZPOPMAX''} then
        Some (if length args < 3 then [] else butlast (tl args))
      else if Cmd req = ''BLMOVE'' then Some (if length args < 6 then [] else take 2 (tl args))
      else if Cmd req \<in> {''BLMPOP'', ''BZMPOP''} then
        (if length args < 5 then Some []
         else (case parse_int64 (args ! 2) of
                 None \<Rightarrow> Some []
               | Some numKeys \<Rightarrow>
                  if numKeys \<le> 0 then Some []
                  else (let end = wrap64 (3 + numKeys)
                        in if end \<ge> int (length args) then Some []
                           else if end < 3 then None
                           else Some (take (nat end - 3) (drop 3 args)))))
      else if Cmd req \<in> {''XREAD'', ''XREADGROUP''} then Some (extractXREADKeys args)
      else Some [])"

text \<open>A connection from the pool that is still open is used at once.\<close>

definition reuseBlockingConn :: "nat \<Rightarrow> nat \<Rightarrow> Request \<Rightarrow> engine \<Rightarrow> engine \<times> eff list" where
  "reuseBlockingConn b c req en =
     sendDed c b (RBlocking req) (Args req)
       (updClient c (\<lambda>cc. cc\<lparr>ccBlocking := Some b\<rparr>) (updBackend b (\<lambda>bc. bc\<lparr>bcClient := c, bcPending := []\<rparr>) en))"

definition usable :: "engine \<Rightarrow> nat \<Rightarrow> bool" where
  "usable en b = (case enBackends en b of None \<Rightarrow> False | Some bc \<Rightarrow> \<not> bcIsClosed bc)"

definition dialNewBlocking :: "engineEnv \<Rightarrow> nat \<Rightarrow> bytes \<Rightarrow> Request \<Rightarrow> engine \<Rightarrow> engine \<times> eff list" where
  "dialNewBlocking env c addr req en =
     (case tryRegister env addr of
        Some msg \<Rightarrow>
          (case fillInLoop c (ccBlockingSlot (cx en c)) (EncodeError msg) en of
             (en1, es1) \<Rightarrow> (updClient c (\<lambda>cc. cc\<lparr>ccState := stateNormal\<rparr>) en1, es1))
      | None \<Rightarrow>
          (en, [DedRegister c (dedCtx c addr \<lparr>bcIsBlocking := True, bcPendingBlockingReq := Some req\<rparr>) DialBlocking]))"

text \<open>Connections of the pool that have been closed meanwhile are dropped from it.\<close>

function dialBlockingBackend :: "engineEnv \<Rightarrow> nat \<Rightarrow> bytes \<Rightarrow> Request \<Rightarrow> engine \<Rightarrow> engine \<times> eff list" where
  "dialBlockingBackend env c addr req en =
     (case bpGet addr (enBlocking en) of
        (None, _) \<Rightarrow> dialNewBlocking env c addr req en
      | (Some b, pool) \<Rightarrow>
          (let en' = en\<lparr>enBlocking := pool\<rparr>
           in if usable en' b then reuseBlockingConn b c req en' else dialBlockingBackend env c addr req en'))"
  by pat_completeness auto

termination
  by (relation "measure (\<lambda>(env, c, addr, req, en). length (idleOf (enBlocking en) addr))")
     (auto simp: bpGet_def idleOf_def update_conv' split: if_splits option.splits)

declare dialBlockingBackend.simps [simp del]

definition dispatchBlockingCommand :: "engineEnv \<Rightarrow> nat \<Rightarrow> Request \<Rightarrow> engine \<Rightarrow> handled option" where
  "dispatchBlockingCommand env c req en =
     (case extractBlockingKeys req of
        None \<Rightarrow> None
      | Some [] \<Rightarrow> Some (reply c (wrongArgs (to_lower (Cmd req))) en)
      | Some (k # ks) \<Rightarrow>
         (let slot = HashSlot k in
          if \<exists>k' \<in> set ks. HashSlot k' \<noteq> slot then Some (reply c crossSlot en)
          else (case nodeFor en slot of
                  None \<Rightarrow> Some (reply c (noNode slot) en)
                | Some node \<Rightarrow>
                   (case allocSlot c en of
                      (slotIdx, en1) \<Rightarrow>
                        Some (finish (dialBlockingBackend env c (nAddr node) req
                          (updClient c (\<lambda>cc. cc\<lparr>ccState := stateBlocking, ccBlockingSlot := slotIdx\<rparr>) en1)))))))"

end
