(* ===== verification/Engine_Dispatch.thy ===== *)
theory Engine_Dispatch
  imports Engine_Route
begin

text \<open>
  Transactions, \<^verbatim>\<open>src/pkg/engine/handler_tx.go\<close>, subscriptions, \<^verbatim>\<open>handler_pubsub.go\<close>, and the dispatch of
  a request by the state of its client, \<^verbatim>\<open>dispatchClientRequest\<close> and \<^verbatim>\<open>handleNormal\<close> of
  \<^verbatim>\<open>handler_routing.go\<close>.
\<close>

section \<open>Watching keys\<close>

definition handleWATCH :: "engineEnv \<Rightarrow> nat \<Rightarrow> Request \<Rightarrow> engine \<Rightarrow> handled" where
  "handleWATCH env c req en =
     (let cc = cx en c in
      if length (Args req) < 2 then reply c (wrongArgs ''watch'') en
      else if ccState cc = stateMulti \<or> ccState cc = stateWatchMulti then
        reply c (EncodeError ''ERR WATCH inside MULTI is not allowed'') en
      else (let keys = tl (Args req); slot = HashSlot (hd keys) in
        if \<exists>k \<in> set (tl keys). HashSlot k \<noteq> slot then reply c crossSlot en
        else (case nodeFor en slot of
                None \<Rightarrow> reply c (noNode slot) en
              | Some node \<Rightarrow>
                 (case allocSlot c en of
                    (slotIdx, en1) \<Rightarrow>
                      (case (if ccWatchAddr cc = nAddr node then ccWatch cc else None) of
                         Some b \<Rightarrow> finish (sendDed c b (RWatchAgain slotIdx) (Args req) en1)
                       | None \<Rightarrow>
                           finish (andThen
                             (updClient c (\<lambda>cc. cc\<lparr>ccWatch := None, ccWatchAddr := nAddr node,
                                            ccPendingWatchReq := Some req, ccPendingWatchSlot := slotIdx\<rparr>) en1,
                              closeOpt (ccWatch cc))
                             (dialDedicatedBackend env c (nAddr node) False)))))))"

definition handleUNWATCH :: "nat \<Rightarrow> engine \<Rightarrow> handled" where
  "handleUNWATCH c en =
     finish (andThen
       (case ccWatch (cx en c) of
          None \<Rightarrow> (en, [])
        | Some b \<Rightarrow>
            andThen (sendDed c b RIgnore [''UNWATCH''] en)
              (\<lambda>en. (updClient c (\<lambda>cc. cc\<lparr>ccWatch := None, ccWatchAddr := []\<rparr>) en, [DedClose b])))
       (\<lambda>en. writeImmediate c (EncodeSimpleString ''OK'') (updClient c (\<lambda>cc. cc\<lparr>ccState := stateNormal\<rparr>) en)))"


section \<open>Transactions\<close>

text \<open>The slot of a transaction: none yet is -1.\<close>

fun targetSlot :: "Request list \<Rightarrow> int \<Rightarrow> int option" where
  "targetSlot [] t = Some t"
| "targetSlot (req # reqs) t =
     (case GetFirstKeyFromRequest req of
        None \<Rightarrow> targetSlot reqs t
      | Some key \<Rightarrow>
         (let s = int (HashSlot key)
          in if t < 0 then targetSlot reqs s else if s \<noteq> t then None else targetSlot reqs t))"

definition resolveMultiSlot :: "Request list \<Rightarrow> engine \<Rightarrow> bytes + bytes" where
  "resolveMultiSlot queue en =
     (let topo = rtTopo (enRouter en) in
      case targetSlot queue (- 1) of
        None \<Rightarrow> Inl (''CROSSSLOT Keys in MULTI transaction don'' @ [CHR 0x27] @ ''t hash to the same slot'')
      | Some t \<Rightarrow>
         if t < 0 then
           (case AllMasters topo of [] \<Rightarrow> Inl ''ERR no cluster nodes available'' | n # _ \<Rightarrow> Inr (nAddr n))
         else (case GetNodeForSlot topo t of
                 None \<Rightarrow> Inl (''ERR no node for slot '' @ fmt_int t)
               | Some n \<Rightarrow> Inr (nAddr n)))"

definition endTx :: "clientCtx \<Rightarrow> clientCtx" where
  "endTx cc = cc\<lparr>ccState := stateNormal, ccTxQueue := [], ccTxErr := False\<rparr>"

definition execMultiOnDedicatedConn :: "nat \<Rightarrow> nat \<Rightarrow> bool \<Rightarrow> engine \<Rightarrow> handled" where
  "execMultiOnDedicatedConn c b closeAfter en =
     (let queue = ccTxQueue (cx en c);
          en1 = updClient c (\<lambda>cc. if closeAfter then (endTx cc)\<lparr>ccWatch := None, ccWatchAddr := []\<rparr>
                                  else (endTx cc)\<lparr>ccMulti := None\<rparr>) en
      in case allocSlot c en1 of
           (slotIdx, en2) \<Rightarrow> finish (sendDed c b (RMulti queue slotIdx) [''MULTI''] en2))"

definition dialMultiBackend :: "engineEnv \<Rightarrow> nat \<Rightarrow> bytes \<Rightarrow> Request list \<Rightarrow> int \<Rightarrow> engine \<Rightarrow> engine \<times> eff list" where
  "dialMultiBackend env c addr queue slotIdx en =
     (case tryRegister env addr of
        Some msg \<Rightarrow> (en, [fillResponseSlot c slotIdx (EncodeError msg)])
      | None \<Rightarrow> (en, [DedRegister c (dedCtx c addr \<lparr>bcIsMulti := True\<rparr>) (DialMulti queue slotIdx)]))"

text \<open>Closing the connections of a transaction.\<close>

definition closeTxConns :: "nat \<Rightarrow> engine \<Rightarrow> engine \<times> eff list" where
  "closeTxConns c en =
     (let cc = cx en c
      in (updClient c (\<lambda>cc. cc\<lparr>ccWatchAddr := (if ccWatch cc \<noteq> None then [] else ccWatchAddr cc),
                               ccWatch := None, ccMulti := None\<rparr>) en,
          closeOpt (ccWatch cc) @ closeOpt (ccMulti cc)))"

text \<open>
  An open connection of an earlier transaction is used again only for the same node. Contexts are
  never removed, so the connection of a client always has one.
\<close>

definition reusableMulti :: "engine \<Rightarrow> nat \<Rightarrow> bytes \<Rightarrow> nat option" where
  "reusableMulti en c addr =
     (case ccMulti (cx en c) of
        None \<Rightarrow> None
      | Some b \<Rightarrow> (case enBackends en b of None \<Rightarrow> None | Some bc \<Rightarrow> if bcAddr bc = addr then Some b else None))"

definition execMulti :: "engineEnv \<Rightarrow> nat \<Rightarrow> engine \<Rightarrow> handled" where
  "execMulti env c en =
     (let cc = cx en c; queue = ccTxQueue cc in
      if ccTxErr cc then
        finish (andThen (closeTxConns c (updClient c endTx en))
          (writeImmediate c (EncodeError ''EXECABORT Transaction discarded because of previous errors.'')))
      else if ccState cc = stateWatchMulti \<and> ccWatch cc \<noteq> None then
        execMultiOnDedicatedConn c (the (ccWatch cc)) True en
      else if queue = [] then (updClient c endTx en, [writeTo c (EncodeValue (Some (ArrayV [])))], ActNone)
      else (case resolveMultiSlot queue en of
              Inl e \<Rightarrow> reply c (EncodeError e) (updClient c endTx en)
            | Inr addr \<Rightarrow>
               (case reusableMulti en c addr of
                  Some b \<Rightarrow> execMultiOnDedicatedConn c b False en
                | None \<Rightarrow>
                   (case allocSlot c (updClient c (\<lambda>cc. (endTx cc)\<lparr>ccMulti := None\<rparr>) en) of
                      (slotIdx, en1) \<Rightarrow>
                        finish (andThen (en1, closeOpt (ccMulti cc)) (dialMultiBackend env c addr queue slotIdx))))))"

definition discardMulti :: "nat \<Rightarrow> engine \<Rightarrow> handled" where
  "discardMulti c en =
     finish (andThen (closeTxConns c en) (\<lambda>en. writeImmediate c (EncodeSimpleString ''OK'') (updClient c endTx en)))"

definition resetReply :: "nat \<Rightarrow> engine \<Rightarrow> handled" where
  "resetReply c en = finish (andThen (resetClientState c en) (writeImmediate c (EncodeSimpleString ''RESET'')))"

definition quitReply :: "nat \<Rightarrow> engine \<Rightarrow> handled" where
  "quitReply c en = (en, [writeTo c (EncodeSimpleString ''OK'')], ActClose)"

definition txError :: "nat \<Rightarrow> bytes \<Rightarrow> engine \<Rightarrow> handled" where
  "txError c data en = reply c data (updClient c (\<lambda>cc. cc\<lparr>ccTxErr := True\<rparr>) en)"

definition handleInMulti :: "engineEnv \<Rightarrow> nat \<Rightarrow> Request \<Rightarrow> engine \<Rightarrow> handled" where
  "handleInMulti env c req en =
     (let name = Cmd req in
      if name = ''EXEC'' then execMulti env c en
      else if name = ''DISCARD'' then discardMulti c en
      else if name = ''MULTI'' then
        (if ccState (cx en c) = stateWatch then
           reply c (EncodeSimpleString ''OK'')
             (updClient c (\<lambda>cc. cc\<lparr>ccState := stateWatchMulti, ccTxQueue := [], ccTxErr := False\<rparr>) en)
         else reply c (EncodeError ''ERR MULTI calls can not be nested'') en)
      else if name = ''WATCH'' then reply c (EncodeError ''ERR WATCH inside MULTI is not allowed'') en
      else if name = ''UNWATCH'' then reply c (EncodeError ''ERR UNWATCH not allowed inside MULTI'') en
      else if name = ''RESET'' then resetReply c en
      else if name = ''QUIT'' then quitReply c en
      else (case GetCmdInfo name of
              None \<Rightarrow> txError c (EncodeError (''ERR unknown command '' @ quoted (to_lower name))) en
            | Some info \<Rightarrow>
               if IsNotAllowed (Some info) then txError c (notSupportedReply name) en
               else reply c (EncodeSimpleString ''QUEUED'') (updClient c (\<lambda>cc. cc\<lparr>ccTxQueue := ccTxQueue cc @ [req]\<rparr>) en)))"


section \<open>Subscriptions\<close>

definition startSubscribe :: "engineEnv \<Rightarrow> nat \<Rightarrow> Request \<Rightarrow> engine \<Rightarrow> handled" where
  "startSubscribe env c req en = finish (applyHub (subscribe (hubEnvOf env en) c req (enHub en)) en)"

definition pongMsg :: bytes where
  "pongMsg = EncodeValue (Some (ArrayV [Some (BulkV ''pong''), Some (BulkV [])]))"

definition handleInSubscribe :: "engineEnv \<Rightarrow> nat \<Rightarrow> Request \<Rightarrow> engine \<Rightarrow> handled" where
  "handleInSubscribe env c req en =
     (let name = Cmd req in
      if name = ''RESET'' then resetReply c en
      else if name = ''QUIT'' then quitReply c en
      else if name = ''PING'' then (en, [AsyncWrite c pongMsg], ActNone)
      else if name = ''UNSUBSCRIBE'' \<or> name = ''PUNSUBSCRIBE'' then
        finish (applyHub (unsubscribe c req (enHub en)) en)
      else if name = ''SUBSCRIBE'' \<or> name = ''PSUBSCRIBE'' then startSubscribe env c req en
      else reply c (EncodeError ''ERR Command not allowed inside a subscription context'') en)"


section \<open>Dispatch\<close>

text \<open>The commands with a fixed number of arguments that are only acknowledged.\<close>

definition simpleCmd :: "nat \<Rightarrow> Request \<Rightarrow> engine \<Rightarrow> handled option" where
  "simpleCmd c req en =
     (let name = Cmd req; args = Args req in
      if name = ''PING'' then
        Some (reply c (if length args = 1 then EncodeSimpleString ''PONG'' else EncodeBulkString (args ! 1)) en)
      else if name = ''ECHO'' then
        Some (reply c (if length args \<noteq> 2 then wrongArgs ''echo'' else EncodeBulkString (args ! 1)) en)
      else if name = ''SELECT'' then
        Some (reply c (if length args \<noteq> 2 then wrongArgs ''select''
                       else if args ! 1 \<noteq> ''0'' then EncodeError ''ERR SELECT is not allowed in cluster mode''
                       else EncodeSimpleString ''OK'') en)
      else if name = ''READONLY'' then
        Some (reply c (if length args \<noteq> 1 then wrongArgs ''readonly'' else EncodeSimpleString ''OK'') en)
      else if name = ''READWRITE'' then
        Some (reply c (if length args \<noteq> 1 then wrongArgs ''readwrite'' else EncodeSimpleString ''OK'') en)
      else if name = ''DISCARD'' then Some (reply c (EncodeError ''ERR DISCARD without MULTI'') en)
      else if name = ''EXEC'' then Some (reply c (EncodeError ''ERR EXEC without MULTI'') en)
      else None)"

definition startMulti :: "nat \<Rightarrow> engine \<Rightarrow> handled" where
  "startMulti c en =
     reply c (EncodeSimpleString ''OK'')
       (updClient c (\<lambda>cc. cc\<lparr>ccState := (if ccState cc = stateWatch then stateWatchMulti else stateMulti),
                             ccTxQueue := [], ccTxErr := False\<rparr>) en)"

definition isBlockingReq :: "Request \<Rightarrow> bool" where
  "isBlockingReq req = (IsBlocking (GetCmdInfo (Cmd req)) \<or> IsBlockingXREAD req)"

definition namedCmd :: "engineEnv \<Rightarrow> nat \<Rightarrow> Request \<Rightarrow> engine \<Rightarrow> handled option" where
  "namedCmd env c req en =
     (let name = Cmd req in
      if name = ''QUIT'' then Some (quitReply c en)
      else if name = ''RESET'' then Some (resetReply c en)
      else if name = ''HELLO'' then Some (handleHELLO env c (Args req) en)
      else if name = ''AUTH'' then Some (handleAUTH env c (Args req) en)
      else if name = ''CLIENT'' then Some (handleClientCmd env c (Args req) en)
      else if name = ''INFO'' then Some (handleViaRouter c req en)
      else if name = ''CLUSTER'' then Some (handleCLUSTER env c req en)
      else if name = ''MULTI'' then Some (startMulti c en)
      else if name = ''WATCH'' then Some (handleWATCH env c req en)
      else if name = ''UNWATCH'' then Some (handleUNWATCH c en)
      else if name = ''SUBSCRIBE'' \<or> name = ''PSUBSCRIBE'' then Some (startSubscribe env c req en)
      else if name \<in> {''EVAL'', ''EVALSHA'', ''EVAL_RO'', ''EVALSHA_RO''} then Some (handleViaRouterScript c req en)
      else if name = ''PROXY'' then Some (handleProxyCmd env c (Args req) en)
      else if name = ''BROADCAST'' then Some (submitToRouter c (JobBroadcast req) en)
      else None)"

definition buffered :: "nat \<Rightarrow> Request \<Rightarrow> engine \<Rightarrow> handled" where
  "buffered c req en = (updClient c (\<lambda>cc. cc\<lparr>ccPendingCmds := ccPendingCmds cc @ [req]\<rparr>) en, [], ActNone)"

definition handleNormal :: "engineEnv \<Rightarrow> nat \<Rightarrow> Request \<Rightarrow> engine \<Rightarrow> handled option" where
  "handleNormal env c req en =
     (let cc = cx en c; name = Cmd req in
      if \<not> ccAuthenticated cc \<and> name \<notin> {''AUTH'', ''QUIT'', ''HELLO'', ''PING''} then Some (reply c noAuth en)
      else if ccPendingWatchReq cc \<noteq> None \<and> name \<noteq> ''QUIT'' \<and> name \<noteq> ''RESET'' then Some (buffered c req en)
      else (case simpleCmd c req en of
              Some r \<Rightarrow> Some r
            | None \<Rightarrow>
               (case namedCmd env c req en of
                  Some r \<Rightarrow> Some r
                | None \<Rightarrow>
                   if isBlockingReq req then dispatchBlockingCommand env c req en else routeToBackend env c req en)))"

definition dispatchClientRequest :: "engineEnv \<Rightarrow> nat \<Rightarrow> Request \<Rightarrow> engine \<Rightarrow> handled option" where
  "dispatchClientRequest env c req en0 =
     (if Args req = [] then Some (en0, [writeTo c (EncodeError ''ERR empty command'')], ActNone)
      else (let en = en0\<lparr>enCmdCount := enCmdCount en0 + 1\<rparr>
            in case ccState (cx en c) of
                 stateMulti \<Rightarrow> Some (handleInMulti env c req en)
               | stateWatchMulti \<Rightarrow> Some (handleInMulti env c req en)
               | stateSubscribe \<Rightarrow> Some (handleInSubscribe env c req en)
               | stateBlocking \<Rightarrow>
                   if Cmd req = ''QUIT'' \<or> Cmd req = ''RESET'' then handleNormal env c req en
                   else Some (buffered c req en)
               | _ \<Rightarrow> handleNormal env c req en))"

end
