(* ===== verification/Engine_Events.thy ===== *)
theory Engine_Events
  imports Engine_Dispatch Runs
begin

text \<open>
  The events of an event loop: connections of clients and of nodes open, close and receive data,
  goroutines report results, the topology changes. \<^verbatim>\<open>src/pkg/engine/handler.go\<close> and
  \<^verbatim>\<open>handler_blocking.go\<close>. An event handler gives the new state and the effects, or panics.

  The functions that wait for a reply hold on to the context of their client when it has gone. No
  data comes from a connection after it has been closed, so only those of a transaction can still
  run then; what they write to the node is modelled, what they do to the client has no effect.
\<close>

section \<open>Commands that had to wait\<close>

fun drainLoop :: "engineEnv \<Rightarrow> nat \<Rightarrow> Request list \<Rightarrow> engine \<Rightarrow> (engine \<times> eff list) option" where
  "drainLoop env c [] en = Some (en, [])"
| "drainLoop env c (req # reqs) en =
     (case dispatchClientRequest env c req en of
        None \<Rightarrow> None
      | Some (en1, es1, a) \<Rightarrow>
         if a \<noteq> ActNone then Some (en1, es1)
         else (case drainLoop env c reqs en1 of None \<Rightarrow> None | Some (en2, es2) \<Rightarrow> Some (en2, es1 @ es2)))"

definition drainPendingCmds :: "engineEnv \<Rightarrow> nat \<Rightarrow> engine \<Rightarrow> (engine \<times> eff list) option" where
  "drainPendingCmds env c en =
     (let cmds = ccPendingCmds (cx en c) in
      if cmds = [] then Some (en, [])
      else (case drainLoop env c cmds (updClient c (\<lambda>cc. cc\<lparr>ccPendingCmds := []\<rparr>) en) of
              None \<Rightarrow> None
            | Some (en1, es1) \<Rightarrow> Some (andThen (en1, es1) (onLoop flushBackendWrites))))"

text \<open>Draining after a step.\<close>

definition thenDrain :: "engineEnv \<Rightarrow> nat \<Rightarrow> engine \<times> eff list \<Rightarrow> (engine \<times> eff list) option" where
  "thenDrain env c r =
     (case r of (en, es) \<Rightarrow>
       (case drainPendingCmds env c en of None \<Rightarrow> None | Some (en', es') \<Rightarrow> Some (en', es @ es')))"


section \<open>Replies on dedicated connections\<close>

definition returnBlockingConn :: "nat \<Rightarrow> engine \<Rightarrow> engine \<times> eff list" where
  "returnBlockingConn b en =
     (case enBackends en b of
        None \<Rightarrow> (en, [DedClose b])
      | Some bc \<Rightarrow>
         if bcPending bc \<noteq> [] then (en, [DedClose b])
         else (case bpPut (bcAddr bc) b (enBlocking en) of
                 (ok, pool) \<Rightarrow> (en\<lparr>enBlocking := pool\<rparr>, if ok then [] else [DedClose b])))"

definition handleBlockingResponse :: "engineEnv \<Rightarrow> nat \<Rightarrow> nat \<Rightarrow> Value \<Rightarrow> Request \<Rightarrow> engine \<Rightarrow> (engine \<times> eff list) option" where
  "handleBlockingResponse env c b v req en =
     (case (if IsMovedError v then ParseRedirection v else None) of
        Some (_, newAddr) \<Rightarrow>
          Some (andThen (updClient c (\<lambda>cc. cc\<lparr>ccBlocking := None\<rparr>) en, [TriggerTopo, DedClose b])
                 (dialBlockingBackend env c newAddr req))
      | None \<Rightarrow>
          thenDrain env c
            (andThen
              (andThen (fillInLoop c (ccBlockingSlot (cx en c)) (EncodeValue (Some v)) en)
                (\<lambda>en. (updClient c (\<lambda>cc. cc\<lparr>ccState := stateNormal, ccBlocking := None\<rparr>) en, [])))
              (returnBlockingConn b)))"

definition authReply :: "nat \<Rightarrow> nat \<Rightarrow> Value \<Rightarrow> engine \<Rightarrow> engine \<times> eff list" where
  "authReply c b v en =
     (let msg = ''ERR backend auth failed: '' @ Error v in
      if \<not> IsError v then (en, [])
      else (case (enClients en c, enBackends en b) of
              (Some cc, Some bc) \<Rightarrow>
                if \<not> bcIsSub bc then fillInLoop c (ccPendingWatchSlot cc) (EncodeError msg) en
                else (en, [writeErrToClient c msg])
            | _ \<Rightarrow> (en, [writeErrToClient c msg])))"

definition watchFirstReply :: "engineEnv \<Rightarrow> nat \<Rightarrow> Request \<Rightarrow> int \<Rightarrow> Value \<Rightarrow> engine \<Rightarrow> (engine \<times> eff list) option" where
  "watchFirstReply env c req slotIdx v en =
     (if IsMovedError v then
        (let newAddr = (case ParseRedirection v of None \<Rightarrow> [] | Some (_, a) \<Rightarrow> a)
         in Some (dialDedicatedBackend env c newAddr False
              (updClient c (\<lambda>cc. cc\<lparr>ccWatchAddr := newAddr, ccWatch := None, ccPendingWatchReq := Some req,
                                   ccPendingWatchSlot := slotIdx\<rparr>) en)))
      else thenDrain env c
             (fillInLoop c slotIdx (EncodeValue (Some v))
               (if IsError v then en else updClient c (\<lambda>cc. cc\<lparr>ccState := stateWatch\<rparr>) en)))"

definition watchAgainReply :: "nat \<Rightarrow> int \<Rightarrow> Value \<Rightarrow> engine \<Rightarrow> engine \<times> eff list" where
  "watchAgainReply c slotIdx v en =
     fillInLoop c slotIdx (EncodeValue (Some v))
       (if IsError v then en else updClient c (\<lambda>cc. cc\<lparr>ccState := stateWatch\<rparr>) en)"

text \<open>The reply to \<^verbatim>\<open>MULTI\<close>: the queued commands and \<^verbatim>\<open>EXEC\<close> are written in one go.\<close>

fun sendQueue :: "nat \<Rightarrow> nat \<Rightarrow> Request list \<Rightarrow> engine \<Rightarrow> engine \<times> eff list" where
  "sendQueue c b [] en = (en, [])"
| "sendQueue c b (req # reqs) en = andThen (sendDed c b RIgnore (Args req) en) (sendQueue c b reqs)"

definition multiReply :: "nat \<Rightarrow> nat \<Rightarrow> Request list \<Rightarrow> int \<Rightarrow> Value \<Rightarrow> engine \<Rightarrow> engine \<times> eff list" where
  "multiReply c b queue slotIdx v en =
     (if IsError v then
        andThen (en, [DedClose b]) (fillInLoop c slotIdx (EncodeError ''ERR failed to start MULTI on backend''))
      else andThen (sendQueue c b queue en) (sendDed c b (RExec slotIdx) [''EXEC'']))"

definition execReply :: "nat \<Rightarrow> nat \<Rightarrow> int \<Rightarrow> Value \<Rightarrow> engine \<Rightarrow> engine \<times> eff list" where
  "execReply c b slotIdx v en = andThen (en, [DedClose b]) (fillInLoop c slotIdx (EncodeValue (Some v)))"

fun respondTo :: "engineEnv \<Rightarrow> nat \<Rightarrow> nat \<times> respond \<Rightarrow> Value \<Rightarrow> engine \<Rightarrow> (engine \<times> eff list) option" where
  "respondTo env b (c, RIgnore) v en = Some (en, [])"
| "respondTo env b (c, RAuth) v en = Some (authReply c b v en)"
| "respondTo env b (c, RAuthThenBlocking req) v en =
     Some (andThen (authReply c b v en)
       (\<lambda>en. if IsError v then (en, [])
             else (case req of None \<Rightarrow> (en, []) | Some r \<Rightarrow> sendDed c b (RBlocking r) (Args r) en)))"
| "respondTo env b (c, RWatchFirst req slotIdx) v en =
     (if enClients en c = None then Some (en, []) else watchFirstReply env c req slotIdx v en)"
| "respondTo env b (c, RWatchAgain slotIdx) v en =
     (if enClients en c = None then Some (en, []) else Some (watchAgainReply c slotIdx v en))"
| "respondTo env b (c, RMulti queue slotIdx) v en = Some (multiReply c b queue slotIdx v en)"
| "respondTo env b (c, RExec slotIdx) v en = Some (execReply c b slotIdx v en)"
| "respondTo env b (c, RBlocking req) v en =
     (if enClients en c = None then Some (en, []) else handleBlockingResponse env c b v req en)"

text \<open>One value on a dedicated connection.\<close>

definition dedValue :: "engineEnv \<Rightarrow> nat \<Rightarrow> Value \<Rightarrow> engine \<Rightarrow> (engine \<times> eff list) option" where
  "dedValue env b v en =
     (case enBackends en b of
        None \<Rightarrow> Some (en, [])
      | Some bc \<Rightarrow>
         (case bcPending bc of
            [] \<Rightarrow> Some (en, if bcIsSub bc then [writeValueToClient (bcClient bc) v] else [])
          | k # ks \<Rightarrow> respondTo env b k v (updBackend b (\<lambda>bc. bc\<lparr>bcPending := ks\<rparr>) en)))"

text \<open>
  The read loop of \<^verbatim>\<open>onBackendTraffic\<close>; the fuel bounds the number of values, each of which takes at
  least a byte.
\<close>

fun dedTraffic :: "engineEnv \<Rightarrow> nat \<Rightarrow> nat \<Rightarrow> bytes \<Rightarrow> engine \<Rightarrow> (engine \<times> eff list) option" where
  "dedTraffic env b 0 buf en = Some (en, [])"
| "dedTraffic env b (Suc k) buf en =
     (case ParseValue buf of
        Inl perr.Panic \<Rightarrow> None
      | Inl _ \<Rightarrow> Some (en, [DedClose b])
      | Inr None \<Rightarrow> Some (en, [])
      | Inr (Some (v, n)) \<Rightarrow>
         (case dedValue env b v en of
            None \<Rightarrow> None
          | Some (en1, es1) \<Rightarrow>
             (case dedTraffic env b k (drop n buf) en1 of
                None \<Rightarrow> None
              | Some (en2, es2) \<Rightarrow> Some (en2, es1 @ es2))))"

definition onDedTraffic :: "engineEnv \<Rightarrow> nat \<Rightarrow> bytes \<Rightarrow> engine \<Rightarrow> (engine \<times> eff list) option" where
  "onDedTraffic env b buf en =
     (if enBackends en b = None then Some (en, [DedClose b]) else dedTraffic env b (Suc (length buf)) buf en)"


section \<open>Dedicated connections open and close\<close>

definition openBlocking :: "engineEnv \<Rightarrow> nat \<Rightarrow> nat \<Rightarrow> backendCtx \<Rightarrow> engine \<Rightarrow> engine \<times> eff list" where
  "openBlocking env c b bctx en0 =
     (let en = updBackend b (\<lambda>bc. bc\<lparr>bcPendingBlockingReq := None\<rparr>) (updClient c (\<lambda>cc. cc\<lparr>ccBlocking := Some b\<rparr>) en0)
      in if cfgPassword (eeCfg env) \<noteq> [] then
           sendDed c b (RAuthThenBlocking (bcPendingBlockingReq bctx)) (authArgs (eeCfg env)) en
         else (case bcPendingBlockingReq bctx of
                 None \<Rightarrow> (en, [])
               | Some r \<Rightarrow> sendDed c b (RBlocking r) (Args r) en))"

definition openWatch :: "engineEnv \<Rightarrow> nat \<Rightarrow> nat \<Rightarrow> engine \<Rightarrow> engine \<times> eff list" where
  "openWatch env c b en0 =
     (let en = updBackend b (\<lambda>bc. bc\<lparr>bcAddr := ccWatchAddr (cx en0 c)\<rparr>) (updClient c (\<lambda>cc. cc\<lparr>ccWatch := Some b\<rparr>) en0)
      in andThen (authDedicatedConn env c b en)
           (\<lambda>en. case ccPendingWatchReq (cx en c) of
                   None \<Rightarrow> (en, [])
                 | Some req \<Rightarrow>
                     sendDed c b (RWatchFirst req (ccPendingWatchSlot (cx en c))) (Args req)
                       (updClient c (\<lambda>cc. cc\<lparr>ccPendingWatchReq := None\<rparr>) en)))"

definition openSub :: "nat \<Rightarrow> nat \<Rightarrow> engine \<Rightarrow> engine \<times> eff list" where
  "openSub c b en =
     (updClient c (\<lambda>cc. cc\<lparr>ccSub := Some b, ccPendingSubReq := None\<rparr>) en,
      case ccPendingSubReq (cx en c) of None \<Rightarrow> [] | Some req \<Rightarrow> [DedWrite b (EncodeCommandBytes (Args req))])"

text \<open>The context is the one registered with the connection.\<close>

definition onDedOpen :: "engineEnv \<Rightarrow> nat \<Rightarrow> backendCtx \<Rightarrow> engine \<Rightarrow> engine \<times> eff list" where
  "onDedOpen env b bctx en0 =
     (let c = bcClient bctx; en = en0\<lparr>enBackends := (enBackends en0)(b \<mapsto> bctx)\<rparr> in
      if enClients en c = None then (en, [DedClose b])
      else if bcIsBlocking bctx then openBlocking env c b bctx en
      else if bcIsMulti bctx then (updClient c (\<lambda>cc. cc\<lparr>ccMulti := Some b\<rparr>) en, [])
      else if bcIsSub bctx then openSub c b en
      else openWatch env c b en)"

definition forget :: "nat \<Rightarrow> clientCtx \<Rightarrow> clientCtx" where
  "forget b cc =
     cc\<lparr>ccWatch := (if ccWatch cc = Some b then None else ccWatch cc),
        ccMulti := (if ccMulti cc = Some b then None else ccMulti cc),
        ccSub := (if ccSub cc = Some b then None else ccSub cc),
        ccBlocking := (if ccBlocking cc = Some b then None else ccBlocking cc)\<rparr>"

definition interrupted :: bytes where
  "interrupted = EncodeError ''ERR blocking command interrupted: backend connection closed''"

definition onDedClose :: "engineEnv \<Rightarrow> nat \<Rightarrow> engine \<Rightarrow> (engine \<times> eff list) option" where
  "onDedClose env b en0 =
     (case enBackends en0 b of
        None \<Rightarrow> Some (en0, [])
      | Some bc \<Rightarrow>
         (let en = updBackend b (\<lambda>bc. bc\<lparr>bcIsClosed := True\<rparr>) en0; c = bcClient bc in
          case enClients en c of
            None \<Rightarrow> Some (en, [])
          | Some cc \<Rightarrow>
             (let en1 = updClient c (forget b) en in
              if ccBlocking cc = Some b \<and> ccState cc = stateBlocking then
                thenDrain env c
                  (andThen (fillInLoop c (ccBlockingSlot cc) interrupted en1)
                    (\<lambda>en. (updClient c (\<lambda>cc. cc\<lparr>ccState := stateNormal\<rparr>) en, [])))
              else Some (en1, []))))"

text \<open>The reports of the goroutines that waited for a connection.\<close>

definition blockingDialFailed :: "engineEnv \<Rightarrow> nat \<Rightarrow> bytes \<Rightarrow> engine \<Rightarrow> (engine \<times> eff list) option" where
  "blockingDialFailed env c e en =
     (case enClients en c of
        None \<Rightarrow> Some (en, [])
      | Some cc \<Rightarrow>
         thenDrain env c
           (andThen (fillInLoop c (ccBlockingSlot cc) (EncodeError (''ERR blocking backend connection failed: '' @ e)) en)
             (\<lambda>en. (updClient c (\<lambda>cc. cc\<lparr>ccState := stateNormal, ccBlocking := None\<rparr>) en, []))))"

fun onDialFailed :: "engineEnv \<Rightarrow> nat \<Rightarrow> dialFor \<Rightarrow> bytes \<Rightarrow> engine \<Rightarrow> (engine \<times> eff list) option" where
  "onDialFailed env c DialWatch e en = Some (dedicatedDialFailed c False e en)"
| "onDialFailed env c DialSub e en = Some (dedicatedDialFailed c True e en)"
| "onDialFailed env c DialBlocking e en = blockingDialFailed env c e en"
| "onDialFailed env c (DialMulti queue slotIdx) e en =
     Some (en, [fillResponseSlot c slotIdx (EncodeError (''ERR backend connection failed: '' @ e))])"

definition onMultiDialed :: "engineEnv \<Rightarrow> nat \<Rightarrow> nat \<Rightarrow> Request list \<Rightarrow> int \<Rightarrow> engine \<Rightarrow> engine \<times> eff list" where
  "onMultiDialed env c b queue slotIdx en =
     (if enClients en c = None then (en, [])
      else andThen (authDedicatedConn env c b en) (sendDed c b (RMulti queue slotIdx) [''MULTI'']))"

end
