(* ===== verification/Engine_Step.thy ===== *)
theory Engine_Step
  imports Engine_Events
begin

text \<open>
  Clients connect, send and leave, \<^verbatim>\<open>onClientOpen\<close>, \<^verbatim>\<open>onClientTraffic\<close> and \<^verbatim>\<open>onClientClose\<close> of
  \<^verbatim>\<open>src/pkg/engine/handler.go\<close>, and the step function of the event loop over all its events.
\<close>

section \<open>Clients\<close>

definition onClientOpen :: "engineEnv \<Rightarrow> nat \<Rightarrow> engine \<Rightarrow> engine \<times> eff list" where
  "onClientOpen env c en =
     (if enMaxClients en > 0 \<and> enNumClients en \<ge> enMaxClients en then
        (en, [writeTo c (EncodeError ''ERR max number of clients reached''), CloseClient c])
      else (let i = enClientSeq en + 1
            in (setQueue c newQueue
                  (en\<lparr>enClientSeq := i, enNumClients := enNumClients en + 1,
                      enClients := (enClients en)(c \<mapsto> newClientCtx env i)\<rparr>),
                [StatInc])))"

text \<open>
  When a client leaves, its dedicated connections are closed. If the event loop calls \<^verbatim>\<open>OnClose\<close> for
  them at once, the one of a blocking command still finds its client blocked.
\<close>

definition leave :: "nat \<Rightarrow> engine \<Rightarrow> engine" where
  "leave c en =
     en\<lparr>enClients := (enClients en)(c := None),
        enLoop := (enLoop en)\<lparr>lsClients := (lsClients (enLoop en))(c := None)\<rparr>\<rparr>"

definition closeBlockingOf :: "engineEnv \<Rightarrow> nat \<Rightarrow> engine \<Rightarrow> (engine \<times> eff list) option" where
  "closeBlockingOf env c en =
     (case ccBlocking (cx en c) of
        None \<Rightarrow> Some (en, [])
      | Some b \<Rightarrow>
         (case (if eeCloseNow env then onDedClose env b en else Some (en, [])) of
            None \<Rightarrow> None
          | Some (en1, es1) \<Rightarrow> Some (updClient c (\<lambda>cc. cc\<lparr>ccBlocking := None\<rparr>) en1, DedClose b # es1)))"

definition onClientClose :: "engineEnv \<Rightarrow> nat \<Rightarrow> engine \<Rightarrow> (engine \<times> eff list) option" where
  "onClientClose env c en0 =
     (let en = en0\<lparr>enNumClients := enNumClients en0 - 1\<rparr> in
      case enClients en c of
        None \<Rightarrow> Some (en, [StatDec])
      | Some cc \<Rightarrow>
         (case closeBlockingOf env c (updClient c (\<lambda>cc. cc\<lparr>ccWatch := None, ccMulti := None, ccSub := None\<rparr>) en) of
            None \<Rightarrow> None
          | Some (en1, es1) \<Rightarrow>
             Some (leave c (if ccState (cx en1 c) = stateSubscribe then en1\<lparr>enHub := removeClient c (enHub en1)\<rparr> else en1),
                   StatDec # closeOpt (ccWatch cc) @ closeOpt (ccMulti cc) @ closeOpt (ccSub cc) @ es1)))"

text \<open>
  The read loop; the result has the bytes that are left. The fuel bounds the number of requests,
  each of which takes at least a byte.
\<close>

fun clientLoop :: "engineEnv \<Rightarrow> nat \<Rightarrow> nat \<Rightarrow> bytes \<Rightarrow> engine \<Rightarrow> (engine \<times> eff list \<times> action \<times> bytes) option" where
  "clientLoop env c 0 buf en = Some (en, [], ActNone, buf)"
| "clientLoop env c (Suc k) buf en =
     (if buf = [] then Some (en, [], ActNone, buf)
      else (case ParseRequest buf of
         Inl perr.Panic \<Rightarrow> None
       | Inl _ \<Rightarrow> Some (en, [writeTo c (EncodeError (''ERR Protocol error: '' @ protocolMsg))], ActClose, buf)
       | Inr None \<Rightarrow> Some (en, [], ActNone, buf)
       | Inr (Some (req, n)) \<Rightarrow>
          (case dispatchClientRequest env c req en of
             None \<Rightarrow> None
           | Some (en1, es1, a) \<Rightarrow>
              if a \<noteq> ActNone then Some (en1, es1, a, drop n buf)
              else (case clientLoop env c k (drop n buf) en1 of
                      None \<Rightarrow> None
                    | Some (en2, es2, a', rest) \<Rightarrow> Some (en2, es1 @ es2, a', rest)))))"

definition closing :: "nat \<Rightarrow> action \<Rightarrow> eff list" where
  "closing c a = (if a = ActClose then [CloseClient c] else [])"

definition onClientTraffic :: "engineEnv \<Rightarrow> nat \<Rightarrow> bytes \<Rightarrow> engine \<Rightarrow> (engine \<times> eff list) option" where
  "onClientTraffic env c buf en =
     (if enClients en c = None then Some (en, [CloseClient c])
      else (case clientLoop env c (Suc (length buf)) buf en of
              None \<Rightarrow> None
            | Some (en1, es1, a, _) \<Rightarrow>
               (case onLoop flushBackendWrites en1 of
                  (en2, es2) \<Rightarrow>
                    Some (en2\<lparr>enCmdCount := 0\<rparr>,
                          es1 @ es2 @ (if enCmdCount en2 > 0 then [StatAdd (enCmdCount en2)] else []) @ closing c a))))"


section \<open>Events\<close>

datatype event =
    EvClientOpen nat
  | EvClientTraffic nat bytes
  | EvClientClose nat
  | EvFill nat int bytes
  | EvMuxOpen bytes
  | EvMuxTraffic bytes bytes
  | EvMuxClose bytes
  | EvMuxDialFailed bytes bytes
  | EvDedOpen nat backendCtx
  | EvDedTraffic nat bytes
  | EvDedClose nat
  | EvDialFailed nat dialFor bytes
  | EvMultiDialed nat nat "Request list" int
  | EvHubOpen nat
  | EvHubTraffic bytes
  | EvHubClose
  | EvHubDialFailed
  | EvTopology Topology

definition onMuxTraffic :: "engineEnv \<Rightarrow> bytes \<Rightarrow> bytes \<Rightarrow> engine \<Rightarrow> (engine \<times> eff list) option" where
  "onMuxTraffic env addr buf en =
     (case onTraffic (menvOf env en) addr buf (enLoop en) of
        None \<Rightarrow> None
      | Some (ls, es, _) \<Rightarrow> Some (en\<lparr>enLoop := ls\<rparr>, map MuxEff es))"

definition onHubTraffic :: "engineEnv \<Rightarrow> bytes \<Rightarrow> engine \<Rightarrow> (engine \<times> eff list) option" where
  "onHubTraffic env buf en =
     (case onSharedBackendTraffic (hubEnvOf env en) buf (enHub en) of
        None \<Rightarrow> None
      | Some (_, es, _) \<Rightarrow> Some (applyHub (enHub en, es) en))"

fun engineStep :: "engineEnv \<Rightarrow> event \<Rightarrow> engine \<Rightarrow> (engine \<times> eff list) option" where
  "engineStep env (EvClientOpen c) en = Some (onClientOpen env c en)"
| "engineStep env (EvClientTraffic c buf) en = onClientTraffic env c buf en"
| "engineStep env (EvClientClose c) en = onClientClose env c en"
| "engineStep env (EvFill c slotIdx data) en = Some (fillInLoop c slotIdx data en)"
| "engineStep env (EvMuxOpen addr) en = Some (onLoop (onOpen (menvOf env en) addr) en)"
| "engineStep env (EvMuxTraffic addr buf) en = onMuxTraffic env addr buf en"
| "engineStep env (EvMuxClose addr) en = Some (onLoop (onClose addr) en)"
| "engineStep env (EvMuxDialFailed addr msg) en = Some (onLoop (failDialing addr msg) en)"
| "engineStep env (EvDedOpen b bctx) en = Some (onDedOpen env b bctx en)"
| "engineStep env (EvDedTraffic b buf) en = onDedTraffic env b buf en"
| "engineStep env (EvDedClose b) en = onDedClose env b en"
| "engineStep env (EvDialFailed c k e) en = onDialFailed env c k e en"
| "engineStep env (EvMultiDialed c b queue slotIdx) en = Some (onMultiDialed env c b queue slotIdx en)"
| "engineStep env (EvHubOpen b) en = Some (applyHub (onSharedBackendOpen (hubEnvOf env en) b (enHub en)) en)"
| "engineStep env (EvHubTraffic buf) en = onHubTraffic env buf en"
| "engineStep env EvHubClose en = Some (applyHub (onSharedBackendClose (hubEnvOf env en) (enHub en)) en)"
| "engineStep env EvHubDialFailed en = Some (en\<lparr>enHub := sharedDialFailed (enHub en)\<rparr>, [])"
| "engineStep env (EvTopology t) en = Some (en\<lparr>enRouter := (enRouter en)\<lparr>rtTopo := t\<rparr>\<rparr>, [])"

end
