(* ===== verification/Engine_Frame.thy ===== *)
theory Engine_Frame
  imports Engine_Step
begin

text \<open>
  What the operations of the engine leave alone. Most handlers only write to clients or to nodes;
  the lemmas of this theory say which parts of the state an operation keeps, and are the
  simplification rules of the proofs about the engine.
\<close>

section \<open>Contexts of clients\<close>

lemma enClients_updClient: "enClients (updClient c f en) c' = (if c' = c then map_option f (enClients en c) else enClients en c')"
  by (simp add: updClient_def)

lemma enClients_prims [simp]:
  "enClients (setQueue c q en) = enClients en"
  "enClients (updBackend b f en) = enClients en"
  "enClients (fst (onLoop g en)) = enClients en"
  "enClients (snd (allocSlot c en)) = enClients en"
  by (simp_all add: setQueue_def updBackend_def onLoop_def allocSlot_def case_prod_unfold)

lemma fst_andThen: "fst (andThen r f) = fst (f (fst r))"
  by (simp add: andThen_def case_prod_unfold)

lemma snd_andThen: "snd (andThen r f) = snd r @ snd (f (fst r))"
  by (simp add: andThen_def case_prod_unfold)

lemma finish_simps [simp]:
  "fst (finish r) = fst r" "fst (snd (finish r)) = snd r" "snd (snd (finish r)) = ActNone"
  by (simp_all add: finish_def case_prod_unfold)

lemmas pair_simps = Let_def case_prod_unfold fst_andThen snd_andThen

lemma enClients_writes [simp]:
  "enClients (fst (writeImmediate c d en)) = enClients en"
  "enClients (fst (reply c d en)) = enClients en"
  "enClients (fst (fillInLoop c i d en)) = enClients en"
  "enClients (fst (sendDed c b k args en)) = enClients en"
  "enClients (fst (submitToRouter c j en)) = enClients en"
  "enClients (fst (sendMux env a p en)) = enClients en"
  "enClients (fst (sendOne env c a req en)) = enClients en"
  by (simp_all add: writeImmediate_def reply_def fillInLoop_def sendDed_def submitToRouter_def sendMux_def
      sendOne_def pair_simps split: option.split)

lemma enClients_dials [simp]:
  "enClients (fst (authDedicatedConn env c b en)) = enClients en"
  "enClients (fst (dialDedicatedBackend env c a sub en)) = enClients en"
  "enClients (fst (dedicatedDialFailed c sub e en)) = enClients en"
  "enClients (fst (dialMultiBackend env c a queue i en)) = enClients en"
  "enClients (fst (returnBlockingConn b en)) = enClients en"
  by (simp_all add: authDedicatedConn_def dialDedicatedBackend_def dedicatedDialFailed_def dialMultiBackend_def
      returnBlockingConn_def pair_simps split: option.split)

lemma enClients_local [simp]:
  "enClients (fst (handleViaRouter c req en)) = enClients en"
  "enClients (fst (handleViaRouterScript c req en)) = enClients en"
  "enClients (fst (handleCLUSTER env c req en)) = enClients en"
  "enClients (fst (handleProxyCmd env c args en)) = enClients en"
  by (simp_all add: handleViaRouter_def handleViaRouterScript_def handleCLUSTER_def handleClusterNodes_def
      handleClusterConnection_def handleProxyCmd_def proxyConfig_def proxyMultiplexing_def Let_def split: option.split)

lemma sendGroups_Cons:
  assumes "sendGroups env c i req name ((gi, sg) # gs) en = Some r"
  obtains args r' where "subArgs name (Args req) sg = Some args"
    and "sendGroups env c i req name gs (fst (sendMux env (sgAddr sg)
          (muxReq c i \<lparr>Args = args, Raw = [], Cmd = Cmd req\<rparr>\<lparr>pcFanIn := True, pcFanInIdx := gi\<rparr>) en)) = Some r'"
    and "fst r = fst r'"
    and "snd r = snd (sendMux env (sgAddr sg)
          (muxReq c i \<lparr>Args = args, Raw = [], Cmd = Cmd req\<rparr>\<lparr>pcFanIn := True, pcFanInIdx := gi\<rparr>) en) @ snd r'"
  using assms by (auto simp: case_prod_unfold split: option.splits)

lemma sendGroups_clients: "sendGroups env c i req name gs en = Some r \<Longrightarrow> enClients (fst r) = enClients en"
proof (induction gs arbitrary: en r)
  case (Cons g gs)
  from Cons.prems show ?case by (cases g) (auto dest: Cons.IH elim!: sendGroups_Cons simp del: sendGroups.simps)
qed simp

lemma routeMultiKeyToMux_clients: "routeMultiKeyToMux env c req name en = Some r \<Longrightarrow> enClients (fst r) = enClients en"
  by (auto simp: routeMultiKeyToMux_def pair_simps dest!: sendGroups_clients split: if_splits sum.splits)

lemma routeToBackend_clients: "routeToBackend env c req en = Some r \<Longrightarrow> enClients (fst r) = enClients en"
  by (auto simp: routeToBackend_def pair_simps dest!: routeMultiKeyToMux_clients split: if_splits option.splits sum.splits)

end
