(* ===== verification/Engine_Auth.thy ===== *)
theory Engine_Auth
  imports Engine_Frame
begin

text \<open>
  Authentication: a client that has not authenticated is in the normal state, or watches keys, and
  its requests have no effect but replies to itself.
\<close>

section \<open>Handlers that keep the authentication of their client\<close>

definition view :: "nat \<Rightarrow> (nat \<Rightarrow> clientCtx option) \<Rightarrow> (nat \<Rightarrow> clientCtx option) \<times> bool option" where
  "view c m = (m(c := None), map_option ccAuthenticated (m c))"

lemma view_upd: "(\<And>cc. ccAuthenticated (f cc) = ccAuthenticated cc) \<Longrightarrow> view c (m(c := map_option f (m c))) = view c m"
  by (cases "m c") (simp_all add: view_def)

lemma enClients_upd: "enClients (updClient c f en) = (enClients en)(c := map_option f (enClients en c))"
  by (simp add: updClient_def)

lemmas view_simps = pair_simps enClients_upd view_upd option.map_comp

lemma view_tx:
  "view c (enClients (fst (resetReply c en))) = view c (enClients en)"
  "view c (enClients (fst (startMulti c en))) = view c (enClients en)"
  "view c (enClients (fst (handleWATCH env c req en))) = view c (enClients en)"
  "view c (enClients (fst (handleUNWATCH c en))) = view c (enClients en)"
  "view c (enClients (fst (execMulti env c en))) = view c (enClients en)"
  "view c (enClients (fst (discardMulti c en))) = view c (enClients en)"
  "view c (enClients (fst (quitReply c en))) = view c (enClients en)"
  "view c (enClients (fst (txError c d en))) = view c (enClients en)"
  "view c (enClients (fst (buffered c req en))) = view c (enClients en)"
  "view c (enClients (fst (handleClientCmd env c args en))) = view c (enClients en)"
  by (simp_all add: resetReply_def resetClientState_def startMulti_def handleWATCH_def handleUNWATCH_def execMulti_def
      execMultiOnDedicatedConn_def closeTxConns_def endTx_def discardMulti_def quitReply_def txError_def buffered_def
      handleClientCmd_def view_simps split: option.split sum.split)

lemma view_handleInMulti: "view c (enClients (fst (handleInMulti env c req en))) = view c (enClients en)"
  by (simp add: handleInMulti_def view_tx view_simps split: option.split)

lemma dialBlockingBackend_cases:
  obtains "bpGet addr (enBlocking en) = (None, enBlocking en)" "dialBlockingBackend env c addr req en = dialNewBlocking env c addr req en"
  | b pool where "bpGet addr (enBlocking en) = (Some b, pool)" "usable (en\<lparr>enBlocking := pool\<rparr>) b"
      "dialBlockingBackend env c addr req en = reuseBlockingConn b c req (en\<lparr>enBlocking := pool\<rparr>)"
  | b pool where "bpGet addr (enBlocking en) = (Some b, pool)" "\<not> usable (en\<lparr>enBlocking := pool\<rparr>) b"
      "dialBlockingBackend env c addr req en = dialBlockingBackend env c addr req (en\<lparr>enBlocking := pool\<rparr>)"
proof (cases "bpGet addr (enBlocking en)")
  case (Pair x pool)
  show ?thesis
  proof (cases x)
    case None
    with Pair have "bpGet addr (enBlocking en) = (None, enBlocking en)" by (simp add: bpGet_def split: if_splits)
    with that(1) show ?thesis by (simp add: dialBlockingBackend.simps [of env c addr req en])
  next
    case (Some b)
    with Pair that(2,3) show ?thesis
      by (cases "usable (en\<lparr>enBlocking := pool\<rparr>) b") (simp_all add: dialBlockingBackend.simps [of env c addr req en])
  qed
qed

lemma view_blocking:
  "view c (enClients (fst (dialNewBlocking env c addr req en))) = view c (enClients en)"
  "view c (enClients (fst (reuseBlockingConn b c req en))) = view c (enClients en)"
  by (simp_all add: dialNewBlocking_def reuseBlockingConn_def view_simps split: option.split)

lemma dialBlockingBackend_view: "view c (enClients (fst (dialBlockingBackend env c addr req en))) = view c (enClients en)"
proof (induction env c addr req en rule: dialBlockingBackend.induct)
  case (1 env c addr req en)
  show ?case
  proof (cases rule: dialBlockingBackend_cases [of addr en env c req])
    case (3 b pool)
    from 1 [OF 3(1) [symmetric] refl refl 3(2)] 3(3) show ?thesis by simp
  qed (simp_all add: view_blocking)
qed

lemma dispatchBlockingCommand_view:
  "dispatchBlockingCommand env c req en = Some r \<Longrightarrow> view c (enClients (fst r)) = view c (enClients en)"
  by (auto simp: dispatchBlockingCommand_def dialBlockingBackend_view view_simps split: option.splits list.splits if_splits)


section \<open>States set by the hub\<close>

definition hubStates :: "(nat \<Rightarrow> clientState \<Rightarrow> bool) \<Rightarrow> hubEffect list \<Rightarrow> bool" where
  "hubStates P es \<longleftrightarrow> (\<forall>c st. HubState c st \<in> set es \<longrightarrow> P c st)"

definition applyStates :: "hubEffect list \<Rightarrow> engine \<Rightarrow> engine" where
  "applyStates = fold (\<lambda>e s. case e of HubState c st \<Rightarrow> updClient c (\<lambda>cc. cc\<lparr>ccState := st\<rparr>) s | _ \<Rightarrow> s)"

lemma fst_applyHub: "fst (applyHub r en) = applyStates (snd r) (en\<lparr>enHub := fst r\<rparr>)"
  by (simp add: applyHub_def applyStates_def case_prod_unfold)

lemma applyStates_Cons: "applyStates (e # es) en = applyStates es (case e of HubState c st \<Rightarrow> updClient c (\<lambda>cc. cc\<lparr>ccState := st\<rparr>) en | _ \<Rightarrow> en)"
  by (simp add: applyStates_def split: hubEffect.split)

lemma applyStates_view: "hubStates (\<lambda>c' st. c' = c) es \<Longrightarrow> view c (enClients (applyStates es en)) = view c (enClients en)"
proof (induction es arbitrary: en)
  case (Cons e es)
  then have "hubStates (\<lambda>c' st. c' = c) es" by (simp add: hubStates_def)
  with Cons show ?case by (cases e) (auto simp: applyStates_Cons hubStates_def view_simps)
qed (simp add: applyStates_def)

lemma subscribe_states: "hubStates (\<lambda>c' st. c' = c) (snd (subscribe env c req hub))"
  by (auto simp: hubStates_def subscribe_def dialSharedBackend_def forwardToBackend_def pair_simps split: list.splits option.splits if_splits)

lemma unsubscribe_states: "hubStates (\<lambda>c' st. c' = c) (snd (unsubscribe c req hub))"
  by (auto simp: hubStates_def unsubscribe_def forwardToBackend_def pair_simps split: option.splits if_splits)

lemma view_sub:
  "view c (enClients (fst (startSubscribe env c req en))) = view c (enClients en)"
  "view c (enClients (fst (handleInSubscribe env c req en))) = view c (enClients en)"
  by (simp_all add: startSubscribe_def handleInSubscribe_def fst_applyHub applyStates_view subscribe_states unsubscribe_states
      view_tx Let_def)


section \<open>The invariant\<close>

definition gate :: "clientCtx \<Rightarrow> bool" where
  "gate cc \<longleftrightarrow> ccAuthenticated cc \<or> ccState cc = stateNormal \<or> ccState cc = stateWatch"

definition auth_inv :: "engine \<Rightarrow> bool" where
  "auth_inv en \<longleftrightarrow> (\<forall>c cc. enClients en c = Some cc \<longrightarrow> gate cc)"

lemma auth_inv_cong: "enClients en' = enClients en \<Longrightarrow> auth_inv en' \<longleftrightarrow> auth_inv en"
  by (simp add: auth_inv_def)

lemma auth_inv_upd:
  "auth_inv en \<Longrightarrow> (\<And>cc. gate cc \<Longrightarrow> gate (f cc)) \<Longrightarrow> auth_inv (updClient c f en)"
  by (auto simp: auth_inv_def enClients_updClient)

text \<open>A handler of an authenticated client that keeps the authentication keeps the invariant.\<close>

lemma auth_inv_view:
  assumes "auth_inv en" "enClients en c = Some cc" "ccAuthenticated cc" "view c (enClients en') = view c (enClients en)"
  shows "auth_inv en' \<and> enClients en' c \<noteq> None"
proof -
  have o: "(enClients en')(c := None) = (enClients en)(c := None)"
    and a: "map_option ccAuthenticated (enClients en' c) = Some True" using assms by (simp_all add: view_def)
  have "gate cc'" if "enClients en' c' = Some cc'" for c' cc'
  proof (cases "c' = c")
    case True
    with that a show ?thesis by (simp add: gate_def)
  next
    case False
    with that fun_cong [OF o, of c'] assms(1) show ?thesis by (simp add: auth_inv_def)
  qed
  with a show ?thesis by (auto simp: auth_inv_def)
qed


section \<open>Requests of a client that is not authenticated\<close>

definition toClient :: "nat \<Rightarrow> eff \<Rightarrow> bool" where
  "toClient c e \<longleftrightarrow> (\<exists>iov. e = MuxEff (ClientWrite c iov)) \<or> (\<exists>i d. e = MuxEff (AsyncFill c i d))"

text \<open>Nothing has happened but to the client itself, whose state is the same.\<close>

definition quiet :: "nat \<Rightarrow> engine \<Rightarrow> engine \<Rightarrow> bool" where
  "quiet c en en' \<longleftrightarrow>
     enBackends en' = enBackends en \<and> enHub en' = enHub en \<and> enBlocking en' = enBlocking en \<and>
     enRouter en' = enRouter en \<and> enMaxClients en' = enMaxClients en \<and>
     lsConns (enLoop en') = lsConns (enLoop en) \<and> lsDialing (enLoop en') = lsDialing (enLoop en) \<and>
     (enClients en')(c := None) = (enClients en)(c := None) \<and>
     (lsClients (enLoop en'))(c := None) = (lsClients (enLoop en))(c := None) \<and>
     map_option ccState (enClients en' c) = map_option ccState (enClients en c)"

lemma quiet_refl [simp]: "quiet c en en"
  by (simp add: quiet_def)

lemma quiet_trans: "quiet c en en1 \<Longrightarrow> quiet c en1 en2 \<Longrightarrow> quiet c en en2"
  by (simp add: quiet_def)

lemma quiet_upd: "(\<And>cc. ccState (f cc) = ccState cc) \<Longrightarrow> quiet c en (updClient c f en)"
  by (cases "enClients en c") (simp_all add: quiet_def updClient_def)

lemma quiet_reply: "quiet c en (fst (reply c d en))" "\<forall>e \<in> set (fst (snd (reply c d en))). toClient c e"
  by (simp_all add: reply_def writeImmediate_def allocSlot_def setQueue_def quiet_def toClient_def writeTo_def
      fillResponseSlot_def pair_simps)

lemma quiet_reply_upd: "(\<And>cc. ccState (f cc) = ccState cc) \<Longrightarrow> quiet c en (fst (reply c d (updClient c f en)))"
  by (rule quiet_trans [OF quiet_upd quiet_reply(1)])

lemma quiet_handleAUTH:
  "quiet c en (fst (handleAUTH env c args en))" "\<forall>e \<in> set (fst (snd (handleAUTH env c args en))). toClient c e"
  using quiet_reply by (auto simp: handleAUTH_def Let_def quiet_reply_upd)

lemma quiet_helloOpts:
  "quiet c en (fst (helloOpts env c args en)) \<and> (\<forall>e \<in> set (fst (snd (helloOpts env c args en))). toClient c e)"
proof (induction env c args en rule: helloOpts.induct)
  case (2 env c a rest en)
  show ?case
  proof (cases "to_upper a = ''AUTH''")
    case True
    show ?thesis
    proof (cases "\<exists>user pass rest'. rest = user # pass # rest'")
      case True
      then obtain user pass rest' where r: "rest = user # pass # rest'" by blast
      obtain en1 es1 x where h: "handleAUTH env c [''AUTH'', user, pass] en = (en1, es1, x)" by (cases "handleAUTH env c [''AUTH'', user, pass] en")
      have q: "quiet c en en1" "\<forall>e \<in> set es1. toClient c e"
        using quiet_handleAUTH [where c = c and en = en and env = env and args = "[''AUTH'', user, pass]"] by (simp_all add: h)
      obtain en2 es2 go where o: "helloOpts env c rest' en1 = (en2, es2, go)" by (cases "helloOpts env c rest' en1")
      show ?thesis
      proof (cases "ccAuthenticated (cx en1 c)")
        case auth: True
        have "quiet c en1 en2 \<and> (\<forall>e \<in> set es2. toClient c e)"
          using 2(1) [OF \<open>to_upper a = ''AUTH''\<close> r refl h [symmetric] refl] auth by (simp add: o)
        with q quiet_trans show ?thesis by (auto simp: \<open>to_upper a = ''AUTH''\<close> r h o auth)
      next
        case False
        with q show ?thesis by (simp add: \<open>to_upper a = ''AUTH''\<close> r h)
      qed
    next
      case False
      then have "helloOpts env c (a # rest) en =
          (case reply c (EncodeError (''ERR Syntax error in HELLO option '' @ quoted ''auth'')) en of (en1, es1, _) \<Rightarrow> (en1, es1, False))"
        using True by (auto split: list.split)
      with quiet_reply show ?thesis by (simp add: case_prod_unfold)
    qed
  next
    case False
    show ?thesis
    proof (cases "to_upper a = ''SETNAME''")
      case True
      show ?thesis
      proof (cases rest)
        case Nil
        with True quiet_reply show ?thesis by (simp add: case_prod_unfold)
      next
        case (Cons n rest')
        have u: "quiet c en (updClient c (\<lambda>cc. cc\<lparr>ccName := n\<rparr>) en)" by (rule quiet_upd) simp
        from 2(2) [OF False True Cons] quiet_trans [OF u] show ?thesis by (auto simp: True Cons)
      qed
    next
      case other: False
      with False 2(3) [OF False other] show ?thesis by simp
    qed
  qed
qed simp

lemma quiet_handleHELLO:
  "quiet c en (fst (handleHELLO env c args en)) \<and> (\<forall>e \<in> set (fst (snd (handleHELLO env c args en))). toClient c e)"
proof -
  have *: "quiet c en (fst (reply c d (fst (helloOpts env c (drop 2 args) en)))) \<and>
      (\<forall>e \<in> set (fst (snd (helloOpts env c (drop 2 args) en)) @ fst (snd (reply c d (fst (helloOpts env c (drop 2 args) en))))). toClient c e)" for d
    using quiet_helloOpts [of c en env "drop 2 args"] quiet_trans [OF _ quiet_reply(1)] quiet_reply(2) by (auto simp: set_append)
  show ?thesis
    using quiet_reply * quiet_helloOpts [of c en env "drop 2 args"] by (simp add: handleHELLO_def case_prod_unfold)
qed

end
