(* ===== verification/Engine_Gate.thy ===== *)
theory Engine_Gate
  imports Engine_Auth
begin

text \<open>
  The invariant of authentication over all events of the loop, and the claim: the requests of a
  client that has not authenticated reach no node.
\<close>

section \<open>Dispatch\<close>

lemma buffered_quiet: "quiet c en (fst (buffered c req en))" "fst (snd (buffered c req en)) = []"
  by (auto simp: buffered_def intro: quiet_upd)

lemma quitReply_quiet: "quiet c en (fst (quitReply c en))" "\<forall>e \<in> set (fst (snd (quitReply c en))). toClient c e"
  by (simp_all add: quitReply_def toClient_def writeTo_def)

lemma open_cmds:
  "Cmd req = ''PING'' \<Longrightarrow> simpleCmd c req en =
     Some (reply c (if length (Args req) = 1 then EncodeSimpleString ''PONG'' else EncodeBulkString (Args req ! 1)) en)"
  "Cmd req = ''QUIT'' \<Longrightarrow> simpleCmd c req en = None \<and> namedCmd env c req en = Some (quitReply c en)"
  "Cmd req = ''AUTH'' \<Longrightarrow> simpleCmd c req en = None \<and> namedCmd env c req en = Some (handleAUTH env c (Args req) en)"
  "Cmd req = ''HELLO'' \<Longrightarrow> simpleCmd c req en = None \<and> namedCmd env c req en = Some (handleHELLO env c (Args req) en)"
  by (simp_all add: simpleCmd_def namedCmd_def)

lemma handleNormal_open:
  assumes "ccAuthenticated (cx en c) \<or> Cmd req \<in> {''AUTH'', ''QUIT'', ''HELLO'', ''PING''}"
    and "\<not> (ccPendingWatchReq (cx en c) \<noteq> None \<and> Cmd req \<noteq> ''QUIT'' \<and> Cmd req \<noteq> ''RESET'')"
  shows "handleNormal env c req en =
    (case simpleCmd c req en of
       Some r \<Rightarrow> Some r
     | None \<Rightarrow>
        (case namedCmd env c req en of
           Some r \<Rightarrow> Some r
         | None \<Rightarrow> if isBlockingReq req then dispatchBlockingCommand env c req en else routeToBackend env c req en))"
  unfolding handleNormal_def Let_def if_not_P [OF assms(2)] using assms(1) by (simp only: de_Morgan_conj not_not if_not_P simp_thms split: if_split)

lemma handleNormal_unauth:
  assumes "\<not> ccAuthenticated (cx en c)" "handleNormal env c req en = Some r"
  shows "quiet c en (fst r) \<and> (\<forall>e \<in> set (fst (snd r)). toClient c e)"
proof (cases "Cmd req \<in> {''AUTH'', ''QUIT'', ''HELLO'', ''PING''}")
  case False
  with assms have "r = reply c noAuth en" by (simp add: handleNormal_def Let_def split: if_splits)
  then show ?thesis using quiet_reply by simp
next
  case True
  show ?thesis
  proof (cases "ccPendingWatchReq (cx en c) \<noteq> None \<and> Cmd req \<noteq> ''QUIT'' \<and> Cmd req \<noteq> ''RESET''")
    case pw: True
    with True assms have "r = buffered c req en" by (auto simp: handleNormal_def Let_def)
    then show ?thesis using buffered_quiet by simp
  next
    case False
    have *: "handleNormal env c req en = Some r'" if "simpleCmd c req en = Some r' \<or> simpleCmd c req en = None \<and> namedCmd env c req en = Some r'" for r'
      unfolding handleNormal_open [OF disjI2 [OF True] False] using that by auto
    from True consider "Cmd req = ''AUTH''" | "Cmd req = ''QUIT''" | "Cmd req = ''HELLO''" | "Cmd req = ''PING''" by blast
    then show ?thesis
    proof cases
      case 1
      with * [of "handleAUTH env c (Args req) en"] assms(2) open_cmds(3) [OF 1] have "r = handleAUTH env c (Args req) en" by simp
      then show ?thesis using quiet_handleAUTH by simp
    next
      case 2
      with * [of "quitReply c en"] assms(2) open_cmds(2) [OF 2] have "r = quitReply c en" by simp
      then show ?thesis using quitReply_quiet by simp
    next
      case 3
      with * [of "handleHELLO env c (Args req) en"] assms(2) open_cmds(4) [OF 3] have "r = handleHELLO env c (Args req) en" by simp
      then show ?thesis using quiet_handleHELLO by simp
    next
      case 4
      let ?d = "if length (Args req) = 1 then EncodeSimpleString ''PONG'' else EncodeBulkString (Args req ! 1)"
      from 4 * [of "reply c ?d en"] assms(2) open_cmds(1) [OF 4] have "r = reply c ?d en" by simp
      then show ?thesis using quiet_reply by simp
    qed
  qed
qed

lemma quiet_cmdCount: "quiet c (en\<lparr>enCmdCount := n\<rparr>) en' \<longleftrightarrow> quiet c en en'"
  by (simp add: quiet_def)

lemma cx_cmdCount [simp]: "cx (en\<lparr>enCmdCount := n\<rparr>) c = cx en c"
  by (simp add: cx_def)

text \<open>The cases of \<^verbatim>\<open>dispatchClientRequest\<close>.\<close>

lemma dispatch_cases:
  assumes "dispatchClientRequest env c req en0 = Some r"
  obtains "Args req = []" "r = (en0, [writeTo c (EncodeError ''ERR empty command'')], ActNone)"
  | en where "Args req \<noteq> []" "en = en0\<lparr>enCmdCount := enCmdCount en0 + 1\<rparr>"
      "ccState (cx en c) \<in> {stateMulti, stateWatchMulti}" "r = handleInMulti env c req en"
  | en where "Args req \<noteq> []" "en = en0\<lparr>enCmdCount := enCmdCount en0 + 1\<rparr>"
      "ccState (cx en c) = stateSubscribe" "r = handleInSubscribe env c req en"
  | en where "Args req \<noteq> []" "en = en0\<lparr>enCmdCount := enCmdCount en0 + 1\<rparr>" "ccState (cx en c) = stateBlocking"
      "Cmd req \<notin> {''QUIT'', ''RESET''}" "r = buffered c req en"
  | en where "Args req \<noteq> []" "en = en0\<lparr>enCmdCount := enCmdCount en0 + 1\<rparr>"
      "ccState (cx en c) \<in> {stateNormal, stateWatch} \<or> Cmd req \<in> {''QUIT'', ''RESET''}" "handleNormal env c req en = Some r"
proof (cases "Args req = []")
  case True
  with assms that(1) show ?thesis by (simp add: dispatchClientRequest_def)
next
  case False
  let ?en = "en0\<lparr>enCmdCount := enCmdCount en0 + 1\<rparr>"
  note d = assms [unfolded dispatchClientRequest_def Let_def if_not_P [OF False]]
  show ?thesis
  proof (cases "ccState (cx ?en c)")
    case stateBlocking
    show ?thesis
    proof (cases "Cmd req = ''QUIT'' \<or> Cmd req = ''RESET''")
      case True
      have "handleNormal env c req ?en = Some r" using d unfolding stateBlocking clientState.case if_P [OF True] .
      with True that(5) [OF False refl] show ?thesis by blast
    next
      case other: False
      have "r = buffered c req ?en" using d unfolding stateBlocking clientState.case if_not_P [OF other] by simp
      with other that(4) [OF False refl stateBlocking] show ?thesis by blast
    qed
  qed (use d that(2,3,5) [OF False refl] in \<open>simp_all only: clientState.case option.inject insert_iff simp_thms\<close>)
qed

lemma dispatch_unauth:
  assumes "dispatchClientRequest env c req en = Some r" "enClients en c = Some cc" "\<not> ccAuthenticated cc" "gate cc"
  shows "quiet c en (fst r) \<and> (\<forall>e \<in> set (fst (snd r)). toClient c e)"
proof -
  have cc: "cx en c = cc" using assms(2) by (simp add: cx_def)
  have st: "ccState cc = stateNormal \<or> ccState cc = stateWatch" using assms(3,4) by (simp add: gate_def)
  from assms(1) show ?thesis
  proof (cases rule: dispatch_cases)
    case 1
    show ?thesis unfolding 1(2) by (simp add: toClient_def writeTo_def)
  next
    case (2 en')
    from 2(3) st show ?thesis unfolding 2(2) cx_cmdCount cc by auto
  next
    case (3 en')
    from 3(3) st show ?thesis unfolding 3(2) cx_cmdCount cc by auto
  next
    case (4 en')
    from 4(3) st show ?thesis unfolding 4(2) cx_cmdCount cc by auto
  next
    case (5 en')
    have "\<not> ccAuthenticated (cx en' c)" unfolding 5(2) cx_cmdCount cc by (rule assms(3))
    from handleNormal_unauth [OF this 5(4)] show ?thesis unfolding 5(2) quiet_cmdCount .
  qed
qed

lemma normal_split:
  assumes "(if A then Some a else if B then Some b
            else (case s of Some r \<Rightarrow> Some r | None \<Rightarrow> (case n of Some r \<Rightarrow> Some r | None \<Rightarrow> if C then x else y))) = Some r"
  shows "r = a \<or> r = b \<or> s = Some r \<or> n = Some r \<or> x = Some r \<or> y = Some r"
  using assms by (cases A; cases B; cases s; cases n; cases C; simp)

lemma if_SomeE: "(if A then Some a else x) = Some r \<Longrightarrow> (r = a \<Longrightarrow> P) \<Longrightarrow> (\<not> A \<Longrightarrow> x = Some r \<Longrightarrow> P) \<Longrightarrow> P"
  by (cases A) auto

lemma simpleCmd_reply: "simpleCmd c req en = Some r \<Longrightarrow> \<exists>d. r = reply c d en"
  unfolding simpleCmd_def Let_def by (elim if_SomeE) blast+

lemma namedCmd_view:
  assumes "namedCmd env c req en = Some r" "Cmd req \<notin> {''AUTH'', ''HELLO''}"
  shows "view c (enClients (fst r)) = view c (enClients en)"
proof -
  have ah: "Cmd req \<noteq> ''AUTH''" "Cmd req \<noteq> ''HELLO''" using assms(2) by blast+
  note e = assms(1) [unfolded namedCmd_def Let_def if_not_P [OF ah(1)] if_not_P [OF ah(2)]]
  from e show ?thesis by (elim if_SomeE) (simp_all only: view_tx view_sub enClients_writes enClients_local option.distinct)
qed

lemma handleNormal_view:
  assumes "handleNormal env c req en = Some r" "Cmd req \<notin> {''AUTH'', ''HELLO''}"
  shows "view c (enClients (fst r)) = view c (enClients en)"
proof -
  from assms(1) consider "r = reply c noAuth en" | "r = buffered c req en" | "simpleCmd c req en = Some r"
    | "namedCmd env c req en = Some r" | "dispatchBlockingCommand env c req en = Some r" | "routeToBackend env c req en = Some r"
    unfolding handleNormal_def Let_def by (blast dest: normal_split)
  then show ?thesis
  proof cases
    case 3
    from simpleCmd_reply [OF this] show ?thesis by (auto simp only: enClients_writes)
  next
    case 4
    from namedCmd_view [OF this] assms(2) show ?thesis by blast
  qed (simp_all only: view_tx enClients_writes dispatchBlockingCommand_view routeToBackend_clients)
qed

lemma quiet_inv:
  assumes "quiet c en en'" "auth_inv en" "enClients en c = Some cc" "ccState cc \<in> {stateNormal, stateWatch}"
  shows "auth_inv en' \<and> enClients en' c \<noteq> None"
proof -
  have o: "(enClients en')(c := None) = (enClients en)(c := None)"
    and a: "map_option ccState (enClients en' c) = Some (ccState cc)" using assms by (simp_all add: quiet_def)
  have "gate cc'" if "enClients en' c' = Some cc'" for c' cc'
  proof (cases "c' = c")
    case True
    with that a assms(4) show ?thesis by (auto simp: gate_def)
  next
    case False
    with that fun_cong [OF o, of c'] assms(2) show ?thesis by (simp add: auth_inv_def)
  qed
  with a show ?thesis by (auto simp: auth_inv_def)
qed

lemma auth_cmds_quiet:
  assumes "handleNormal env c req en = Some r" "Cmd req \<in> {''AUTH'', ''HELLO''}"
  shows "quiet c en (fst r)"
proof -
  from assms consider "r = buffered c req en" | "r = handleAUTH env c (Args req) en" | "r = handleHELLO env c (Args req) en"
    by (auto simp: handleNormal_def simpleCmd_def namedCmd_def Let_def split: if_splits)
  then show ?thesis using buffered_quiet quiet_handleAUTH quiet_handleHELLO by cases auto
qed

lemma auth_inv_cmdCount [simp]: "auth_inv (en\<lparr>enCmdCount := n\<rparr>) = auth_inv en"
  by (simp add: auth_inv_def)

lemma dispatch_inv:
  assumes "auth_inv en" "enClients en c = Some cc" "dispatchClientRequest env c req en = Some r"
  shows "auth_inv (fst r) \<and> enClients (fst r) c \<noteq> None"
proof (cases "ccAuthenticated cc")
  case False
  have g: "gate cc" using assms by (simp add: auth_inv_def)
  from dispatch_unauth [OF assms(3,2) False g] have "quiet c en (fst r)" by blast
  from quiet_inv [OF this assms(1,2)] g False show ?thesis by (simp add: gate_def)
next
  case True
  have keep: "auth_inv (fst r) \<and> enClients (fst r) c \<noteq> None" if "view c (enClients (fst r)) = view c (enClients en)"
    by (rule auth_inv_view [OF assms(1,2) True that])
  from assms(3) show ?thesis
  proof (cases rule: dispatch_cases)
    case (5 en')
    show ?thesis
    proof (cases "Cmd req \<in> {''AUTH'', ''HELLO''}")
      case False
      from handleNormal_view [OF 5(4) this] show ?thesis by (intro keep) (simp add: 5(2))
    next
      case auth: True
      with 5(3) assms(2) have "ccState cc \<in> {stateNormal, stateWatch}" by (auto simp: 5(2) cx_def)
      with auth_cmds_quiet [OF 5(4) auth] assms(1,2) show ?thesis
        by (intro quiet_inv [of c en']) (simp_all add: 5(2))
    qed
  qed (use assms keep in \<open>simp_all add: view_handleInMulti view_sub view_tx\<close>)
qed


section \<open>Events\<close>

definition okFor :: "nat \<Rightarrow> engine \<Rightarrow> bool" where
  "okFor c en \<longleftrightarrow> auth_inv en \<and> enClients en c \<noteq> None"

lemma okFor_cong: "enClients en' = enClients en \<Longrightarrow> okFor c en' \<longleftrightarrow> okFor c en"
  by (simp add: okFor_def auth_inv_def)

lemma okFor_upd: "okFor c en \<Longrightarrow> (\<And>cc. gate cc \<Longrightarrow> gate (f cc)) \<Longrightarrow> okFor c (updClient c' f en)"
  by (auto simp: okFor_def enClients_updClient intro: auth_inv_upd)

lemma okFor_writes [simp]:
  "okFor c (fst (fillInLoop c' i d en)) = okFor c en"
  "okFor c (fst (sendDed c' b k args en)) = okFor c en"
  "okFor c (fst (onLoop f en)) = okFor c en"
  "okFor c (updBackend b g en) = okFor c en"
  "okFor c (fst (returnBlockingConn b en)) = okFor c en"
  "okFor c (fst (dialDedicatedBackend env c' a sub en)) = okFor c en"
  by (rule okFor_cong, simp)+

lemma gate_keep:
  "gate cc \<Longrightarrow> gate (cc\<lparr>ccPendingCmds := x\<rparr>)"
  "gate (cc\<lparr>ccState := stateNormal\<rparr>)" "gate (cc\<lparr>ccState := stateNormal, ccBlocking := bl\<rparr>)" "gate (cc\<lparr>ccState := stateWatch\<rparr>)"
  "gate cc \<Longrightarrow> gate (forget b cc)"
  "gate cc \<Longrightarrow> gate (cc\<lparr>ccBlocking := bl\<rparr>)"
  "gate cc \<Longrightarrow> gate (cc\<lparr>ccWatch := None, ccMulti := None, ccSub := None\<rparr>)"
  "gate cc \<Longrightarrow> gate (cc\<lparr>ccMulti := w\<rparr>)"
  "gate cc \<Longrightarrow> gate (cc\<lparr>ccWatch := w\<rparr>)"
  "gate cc \<Longrightarrow> gate (cc\<lparr>ccPendingWatchReq := p\<rparr>)"
  "gate cc \<Longrightarrow> gate (cc\<lparr>ccSub := w, ccPendingSubReq := p\<rparr>)"
  "gate cc \<Longrightarrow> gate (cc\<lparr>ccWatchAddr := a, ccWatch := w, ccPendingWatchReq := p, ccPendingWatchSlot := i\<rparr>)"
  by (simp_all add: gate_def forget_def)

lemma drainLoop_ok: "okFor c en \<Longrightarrow> drainLoop env c reqs en = Some r \<Longrightarrow> okFor c (fst r)"
proof (induction reqs arbitrary: en r)
  case (Cons req reqs)
  from Cons.prems(2) obtain en1 es1 a where d: "dispatchClientRequest env c req en = Some (en1, es1, a)"
    by (auto split: option.splits)
  from Cons.prems(1) obtain cc where "auth_inv en" "enClients en c = Some cc" by (auto simp: okFor_def)
  from dispatch_inv [OF this d] have "okFor c en1" by (simp add: okFor_def)
  with Cons.IH [OF this] Cons.prems(2) d show ?case by (auto split: if_splits option.splits)
qed auto

lemma drainPendingCmds_ok: "okFor c en \<Longrightarrow> drainPendingCmds env c en = Some r \<Longrightarrow> okFor c (fst r)"
  by (auto simp: drainPendingCmds_def Let_def fst_andThen gate_keep split: if_splits option.splits
      dest!: drainLoop_ok [rotated] intro!: okFor_upd)

lemma thenDrain_ok: "okFor c (fst x) \<Longrightarrow> thenDrain env c x = Some r \<Longrightarrow> okFor c (fst r)"
  by (auto simp: thenDrain_def case_prod_unfold split: option.splits dest: drainPendingCmds_ok)

lemma dialBlockingBackend_ok:
  assumes "okFor c en" shows "okFor c (fst (dialBlockingBackend env c addr req en))"
  using assms
proof (induction env c addr req en rule: dialBlockingBackend.induct)
  case (1 env c addr req en)
  show ?case
  proof (cases rule: dialBlockingBackend_cases [of addr en env c req])
    case fresh: 1
    show ?thesis unfolding fresh(2) dialNewBlocking_def case_prod_unfold
      using 1(2) by (auto split: option.split intro!: okFor_upd gate_keep)
  next
    case (2 b pool)
    have "okFor c (en\<lparr>enBlocking := pool\<rparr>)" using 1(2) okFor_cong [of "en\<lparr>enBlocking := pool\<rparr>" en c] by simp
    then show ?thesis unfolding 2(3) reuseBlockingConn_def by (auto intro!: okFor_upd gate_keep)
  next
    case (3 b pool)
    have "okFor c (en\<lparr>enBlocking := pool\<rparr>)" using 1(2) okFor_cong [of "en\<lparr>enBlocking := pool\<rparr>" en c] by simp
    from 1(1) [OF 3(1) [symmetric] refl refl 3(2) this] show ?thesis unfolding 3(3) .
  qed
qed

lemma handleBlockingResponse_ok:
  assumes "okFor c en" "handleBlockingResponse env c b v req en = Some r" shows "okFor c (fst r)"
proof (cases "if IsMovedError v then ParseRedirection v else None")
  case None
  have "thenDrain env c (andThen (andThen (fillInLoop c (ccBlockingSlot (cx en c)) (EncodeValue (Some v)) en)
      (\<lambda>en. (updClient c (\<lambda>cc. cc\<lparr>ccState := stateNormal, ccBlocking := None\<rparr>) en, []))) (returnBlockingConn b)) = Some r"
    using assms(2) unfolding handleBlockingResponse_def None by simp
  then show ?thesis by (rule thenDrain_ok [rotated]) (simp add: fst_andThen okFor_upd gate_keep assms(1))
next
  case (Some x)
  have "r = andThen (updClient c (\<lambda>cc. cc\<lparr>ccBlocking := None\<rparr>) en, [TriggerTopo, DedClose b]) (dialBlockingBackend env c (snd x) req)"
    using assms(2) unfolding handleBlockingResponse_def Some by (simp add: case_prod_unfold)
  then show ?thesis by (simp add: fst_andThen dialBlockingBackend_ok okFor_upd gate_keep assms(1))
qed

lemma watchFirstReply_ok:
  assumes "okFor c en" "watchFirstReply env c req i v en = Some r" shows "okFor c (fst r)"
proof (cases "IsMovedError v")
  case True
  with assms show ?thesis by (auto simp: watchFirstReply_def Let_def okFor_upd gate_keep)
next
  case False
  then have "thenDrain env c (fillInLoop c i (EncodeValue (Some v)) (if IsError v then en else updClient c (\<lambda>cc. cc\<lparr>ccState := stateWatch\<rparr>) en)) = Some r"
    using assms(2) by (simp add: watchFirstReply_def)
  then show ?thesis by (rule thenDrain_ok [rotated]) (simp add: okFor_upd gate_keep assms(1))
qed


lemma auth_inv_writes [simp]:
  "auth_inv (fst (fillInLoop c' i d en)) = auth_inv en"
  "auth_inv (fst (sendDed c' b k args en)) = auth_inv en"
  "auth_inv (fst (onLoop f en)) = auth_inv en"
  "auth_inv (updBackend b g en) = auth_inv en"
  "auth_inv (setQueue c' q en) = auth_inv en"
  "auth_inv (fst (dedicatedDialFailed c' sub e en)) = auth_inv en"
  "auth_inv (fst (authDedicatedConn env c' b en)) = auth_inv en"
  "auth_inv (fst (onMultiDialed env c' b queue i en)) = auth_inv en"
  "auth_inv (fst (authReply c' b v en)) = auth_inv en"
  by (rule auth_inv_cong, simp add: onMultiDialed_def authReply_def pair_simps split: option.split)+

lemma okFor_inv: "okFor c en \<Longrightarrow> auth_inv en"
  by (simp add: okFor_def)

lemma okForI: "auth_inv en \<Longrightarrow> enClients en c \<noteq> None \<Longrightarrow> okFor c en"
  by (simp add: okFor_def)

lemma sendQueue_clients [simp]: "enClients (fst (sendQueue c b reqs en)) = enClients en"
  by (induction reqs arbitrary: en) (simp_all add: fst_andThen)

lemma multi_clients [simp]:
  "enClients (fst (multiReply c b queue i v en)) = enClients en"
  "enClients (fst (execReply c b i v en)) = enClients en"
  by (simp_all add: multiReply_def execReply_def fst_andThen)

lemma respondTo_inv: "auth_inv en \<Longrightarrow> respondTo env b k v en = Some r \<Longrightarrow> auth_inv (fst r)"
proof (induction env b k v en rule: respondTo.induct)
  case (3 env b c req v en)
  then show ?case by (auto simp: fst_andThen split: option.split)
next
  case (4 env b c req i v en)
  show ?case
  proof (cases "enClients en c = None")
    case False
    with 4(2) have "watchFirstReply env c req i v en = Some r" by simp
    from okFor_inv [OF watchFirstReply_ok [OF okForI [OF 4(1) False] this]] show ?thesis .
  qed (use 4 in auto)
next
  case (5 env b c i v en)
  then show ?case by (auto simp: watchAgainReply_def auth_inv_upd gate_keep split: if_splits)
next
  case (6 env b c queue i v en)
  then show ?case using auth_inv_cong [OF multi_clients(1)] by auto
next
  case (7 env b c i v en)
  then show ?case using auth_inv_cong [OF multi_clients(2)] by auto
next
  case (8 env b c req v en)
  show ?case
  proof (cases "enClients en c = None")
    case False
    with 8(2) have "handleBlockingResponse env c b v req en = Some r" by simp
    from okFor_inv [OF handleBlockingResponse_ok [OF okForI [OF 8(1) False] this]] show ?thesis .
  qed (use 8 in auto)
qed auto

lemma dedValue_inv: "auth_inv en \<Longrightarrow> dedValue env b v en = Some r \<Longrightarrow> auth_inv (fst r)"
  by (auto simp: dedValue_def dest!: respondTo_inv [rotated] split: option.splits list.splits)

lemma dedTraffic_inv: "auth_inv en \<Longrightarrow> dedTraffic env b k buf en = Some r \<Longrightarrow> auth_inv (fst r)"
proof (induction k arbitrary: buf en r)
  case (Suc k)
  show ?case
  proof (cases "ParseValue buf")
    case (Inl e)
    with Suc.prems show ?thesis by (cases e) auto
  next
    case (Inr x)
    show ?thesis
    proof (cases x)
      case None
      with Inr Suc.prems show ?thesis by auto
    next
      case (Some vn)
      with Inr Suc.prems(2) obtain en1 es1 where d: "dedValue env b (fst vn) en = Some (en1, es1)"
        by (auto simp: case_prod_unfold split: option.splits)
      from dedValue_inv [OF Suc.prems(1) d] have "auth_inv en1" by simp
      from Suc.IH [OF this] Suc.prems(2) Inr Some d show ?thesis by (auto simp: case_prod_unfold split: option.splits)
    qed
  qed
qed auto

lemma onDedOpen_inv: assumes "auth_inv en" shows "auth_inv (fst (onDedOpen env b bctx en))"
proof -
  have i: "auth_inv (en\<lparr>enBackends := m\<rparr>)" for m using assms auth_inv_cong [of "en\<lparr>enBackends := m\<rparr>" en] by simp
  have w: "auth_inv (fst (openWatch env c b en'))" if "auth_inv en'" for c en'
    using that unfolding openWatch_def Let_def fst_andThen
    by (auto split: option.split intro!: auth_inv_upd gate_keep)
  have o: "auth_inv (fst (openBlocking env c b bctx en'))" if "auth_inv en'" for c en'
    using that unfolding openBlocking_def Let_def by (auto split: option.split intro!: auth_inv_upd gate_keep)
  show ?thesis unfolding onDedOpen_def Let_def openSub_def
    by (auto intro!: i w o auth_inv_upd gate_keep)
qed

lemma onDedClose_inv: assumes "auth_inv en" "onDedClose env b en = Some r" shows "auth_inv (fst r)"
proof (cases "enBackends en b")
  case None
  with assms show ?thesis by (auto simp: onDedClose_def)
next
  case (Some bc)
  let ?en = "updBackend b (\<lambda>bc. bc\<lparr>bcIsClosed := True\<rparr>) en" and ?c = "bcClient bc"
  show ?thesis
  proof (cases "enClients ?en ?c")
    case None
    with Some assms show ?thesis by (auto simp: onDedClose_def Let_def)
  next
    case cc: (Some cc)
    have k: "okFor ?c (updClient ?c (forget b) ?en)"
      by (intro okFor_upd okForI gate_keep) (use assms(1) cc in simp_all)
    show ?thesis
    proof (cases "ccBlocking cc = Some b \<and> ccState cc = stateBlocking")
      case True
      then have "thenDrain env ?c (andThen (fillInLoop ?c (ccBlockingSlot cc) interrupted (updClient ?c (forget b) ?en))
          (\<lambda>en. (updClient ?c (\<lambda>cc. cc\<lparr>ccState := stateNormal\<rparr>) en, []))) = Some r"
        using assms(2) Some cc by (simp add: onDedClose_def Let_def)
      then show ?thesis by (intro okFor_inv, rule thenDrain_ok [rotated]) (simp add: fst_andThen okFor_upd gate_keep k)
    next
      case False
      with assms(2) Some cc have "r = (updClient ?c (forget b) ?en, [])" by (auto simp: onDedClose_def Let_def)
      with okFor_inv [OF k] show ?thesis by simp
    qed
  qed
qed

lemma onDialFailed_inv: "auth_inv en \<Longrightarrow> onDialFailed env c k e en = Some r \<Longrightarrow> auth_inv (fst r)"
proof (cases k)
  case DialBlocking
  assume i: "auth_inv en" and d: "onDialFailed env c k e en = Some r"
  show ?thesis
  proof (cases "enClients en c")
    case None
    with i d DialBlocking show ?thesis by (auto simp: blockingDialFailed_def)
  next
    case (Some cc)
    let ?x = "andThen (fillInLoop c (ccBlockingSlot cc) (EncodeError (''ERR blocking backend connection failed: '' @ e)) en)
             (\<lambda>en. (updClient c (\<lambda>cc. cc\<lparr>ccState := stateNormal, ccBlocking := None\<rparr>) en, []))"
    have "thenDrain env c ?x = Some r" using d unfolding DialBlocking onDialFailed.simps blockingDialFailed_def Some by simp
    moreover have "okFor c (fst ?x)" using i Some by (simp add: fst_andThen okFor_upd gate_keep okForI)
    ultimately show ?thesis by (intro okFor_inv [OF thenDrain_ok])
  qed
qed auto

lemma applyStates_normal: "hubStates (\<lambda>c st. st = stateNormal) es \<Longrightarrow> auth_inv en \<Longrightarrow> auth_inv (applyStates es en)"
proof (induction es arbitrary: en)
  case (Cons e es)
  then have "hubStates (\<lambda>c st. st = stateNormal) es" by (simp add: hubStates_def)
  with Cons show ?case by (cases e) (auto simp: applyStates_Cons hubStates_def intro!: auth_inv_upd gate_keep)
qed (simp add: applyStates_def)

lemma applyHub_inv: "hubStates (\<lambda>c st. st = stateNormal) (snd x) \<Longrightarrow> auth_inv en \<Longrightarrow> auth_inv (fst (applyHub x en))"
  unfolding fst_applyHub by (rule applyStates_normal) (auto simp: auth_inv_def)

lemma hub_event_states:
  "hubStates (\<lambda>c st. st = stateNormal) (snd (onSharedBackendClose henv hub))"
  "hubStates (\<lambda>c st. st = stateNormal) (snd (onSharedBackendOpen henv b hub))"
  by (auto simp: hubStates_def onSharedBackendClose_def onSharedBackendOpen_def hubAuth_def forwardToBackend_def Let_def split: option.splits if_splits)

lemma dispatchMessage_states: "dispatchMessage henv hub v = Some es \<Longrightarrow> hubStates P es"
  by (auto simp: hubStates_def dispatchMessage_def toExact_def toPatterns_def Let_def split: if_splits option.splits)

lemma sharedTraffic_states: "sharedTraffic henv k buf hub = Some (rest, es, a) \<Longrightarrow> hubStates P es"
proof (induction k arbitrary: buf rest es a)
  case (Suc k)
  show ?case
  proof (cases "ParseValue buf")
    case (Inl e)
    with Suc.prems show ?thesis by (cases e) (auto simp: hubStates_def)
  next
    case (Inr x)
    show ?thesis
    proof (cases x)
      case None
      with Inr Suc.prems show ?thesis by (auto simp: hubStates_def)
    next
      case (Some vn)
      obtain v n where vn: "vn = (v, n)" by (cases vn)
      from Suc.prems Inr Some vn obtain es1 es2 where d: "dispatchMessage henv hub v = Some es1"
        and t: "sharedTraffic henv k (drop n buf) hub = Some (rest, es2, a)" and es: "es = es1 @ es2"
        by (auto split: option.splits)
      from dispatchMessage_states [OF d, of P] Suc.IH [OF t] show ?thesis by (auto simp: es hubStates_def)
    qed
  qed
qed (auto simp: hubStates_def)

lemma clientLoop_ok: "okFor c en \<Longrightarrow> clientLoop env c k buf en = Some (en', es, a, rest) \<Longrightarrow> okFor c en'"
proof (induction k arbitrary: buf en es)
  case (Suc k)
  show ?case
  proof (cases "buf = []")
    case False
    note l = Suc.prems(2) [unfolded clientLoop.simps if_not_P [OF False]]
    show ?thesis
    proof (cases "ParseRequest buf")
      case (Inl e)
      with l Suc.prems(1) show ?thesis by (cases e) auto
    next
      case (Inr x)
      show ?thesis
      proof (cases x)
        case None
        with Inr l Suc.prems(1) show ?thesis by auto
      next
        case (Some rn)
        obtain req n where rn: "rn = (req, n)" by (cases rn)
        from l Inr Some rn obtain en1 es1 a1 where d: "dispatchClientRequest env c req en = Some (en1, es1, a1)"
          by (auto split: option.splits)
        from Suc.prems(1) obtain cc where "auth_inv en" "enClients en c = Some cc" by (auto simp: okFor_def)
        from dispatch_inv [OF this d] have "okFor c en1" by (simp add: okFor_def)
        from this Suc.IH [OF this] l Inr Some rn d show ?thesis by (auto split: if_splits option.splits)
      qed
    qed
  qed (use Suc.prems in auto)
qed auto

lemma onClientTraffic_inv: assumes "auth_inv en" "onClientTraffic env c buf en = Some r" shows "auth_inv (fst r)"
proof (cases "enClients en c = None")
  case False
  with assms(2) obtain en1 es1 a rest where l: "clientLoop env c (Suc (length buf)) buf en = Some (en1, es1, a, rest)"
    and r: "fst r = (fst (onLoop flushBackendWrites en1))\<lparr>enCmdCount := 0\<rparr>"
    by (auto simp: onClientTraffic_def case_prod_unfold split: option.splits simp del: clientLoop.simps)
  from okFor_inv [OF clientLoop_ok [OF okForI [OF assms(1) False] l]] show ?thesis by (simp add: r)
qed (use assms in \<open>auto simp: onClientTraffic_def\<close>)

lemma onClientOpen_inv: "auth_inv en \<Longrightarrow> auth_inv (fst (onClientOpen env c en))"
  by (auto simp: onClientOpen_def Let_def auth_inv_def newClientCtx_def gate_def)

lemma leave_inv: "auth_inv en \<Longrightarrow> auth_inv (leave c en)"
  by (auto simp: leave_def auth_inv_def)

lemma closeBlockingOf_inv: assumes "auth_inv en" "closeBlockingOf env c en = Some r" shows "auth_inv (fst r)"
proof (cases "ccBlocking (cx en c)")
  case (Some b)
  with assms(2) obtain en1 es1 where o: "(if eeCloseNow env then onDedClose env b en else Some (en, [])) = Some (en1, es1)"
    and r: "fst r = updClient c (\<lambda>cc. cc\<lparr>ccBlocking := None\<rparr>) en1"
    by (auto simp: closeBlockingOf_def split: option.splits)
  have "auth_inv en1" using o onDedClose_inv [OF assms(1)] assms(1) by (auto split: if_splits)
  then show ?thesis unfolding r by (intro auth_inv_upd gate_keep)
qed (use assms in \<open>auto simp: closeBlockingOf_def\<close>)

lemma onClientClose_inv: assumes "auth_inv en" "onClientClose env c en = Some r" shows "auth_inv (fst r)"
proof -
  have n: "auth_inv (en\<lparr>enNumClients := n\<rparr>)" for n using assms(1) by (simp add: auth_inv_def)
  show ?thesis
  proof (cases "enClients en c")
    case None
    with assms n show ?thesis by (auto simp: onClientClose_def Let_def)
  next
    case (Some cc)
    let ?en = "updClient c (\<lambda>cc. cc\<lparr>ccWatch := None, ccMulti := None, ccSub := None\<rparr>) (en\<lparr>enNumClients := enNumClients en - 1\<rparr>)"
    have i: "auth_inv ?en" by (intro auth_inv_upd n gate_keep)
    from assms(2) Some obtain en1 es1 where cb: "closeBlockingOf env c ?en = Some (en1, es1)"
      and r: "fst r = leave c (if ccState (cx en1 c) = stateSubscribe then en1\<lparr>enHub := removeClient c (enHub en1)\<rparr> else en1)"
      by (auto simp: onClientClose_def Let_def split: option.splits)
    from closeBlockingOf_inv [OF i cb] have "auth_inv en1" by simp
    then show ?thesis unfolding r by (intro leave_inv) (simp add: auth_inv_def)
  qed
qed


lemma engineStep_inv: "auth_inv en \<Longrightarrow> engineStep env ev en = Some (en', es) \<Longrightarrow> auth_inv en'"
proof (cases ev)
  case (EvMuxTraffic addr buf)
  assume "auth_inv en" "engineStep env ev en = Some (en', es)"
  with EvMuxTraffic show ?thesis by (auto simp: onMuxTraffic_def auth_inv_def split: option.splits)
next
  case (EvHubTraffic buf)
  assume i: "auth_inv en" and st: "engineStep env ev en = Some (en', es)"
  from st EvHubTraffic obtain rest hes a where t: "onSharedBackendTraffic (hubEnvOf env en) buf (enHub en) = Some (rest, hes, a)"
    and en': "en' = fst (applyHub (enHub en, hes) en)" by (auto simp: onHubTraffic_def split: option.splits)
  have "hubStates (\<lambda>c st. st = stateNormal) hes"
    by (rule sharedTraffic_states [OF t [unfolded onSharedBackendTraffic_def]])
  with i show ?thesis unfolding en' by (intro applyHub_inv) simp_all
next
  case (EvDedTraffic b buf)
  assume i: "auth_inv en" and st: "engineStep env ev en = Some (en', es)"
  with EvDedTraffic dedTraffic_inv [OF i, of env b "Suc (length buf)" buf] show ?thesis
    by (auto simp: onDedTraffic_def split: if_splits simp del: dedTraffic.simps)
next
  case (EvDedOpen b bctx)
  assume i: "auth_inv en" and st: "engineStep env ev en = Some (en', es)"
  with EvDedOpen onDedOpen_inv [OF i, of env b bctx] show ?thesis by simp
next
  case (EvClientOpen c)
  assume i: "auth_inv en" and st: "engineStep env ev en = Some (en', es)"
  with EvClientOpen onClientOpen_inv [OF i, of env c] show ?thesis by simp
next
  case (EvFill c i d)
  assume "auth_inv en" and st: "engineStep env ev en = Some (en', es)"
  with EvFill auth_inv_writes(1) [of c i d en] show ?thesis by (metis engineStep.simps(4) fst_conv option.inject)
next
  case (EvMultiDialed c b queue i)
  assume "auth_inv en" and st: "engineStep env ev en = Some (en', es)"
  with EvMultiDialed auth_inv_writes(8) [of env c b queue i en] show ?thesis by (metis engineStep.simps(13) fst_conv option.inject)
next
  case (EvMuxOpen a)
  assume "auth_inv en" and st: "engineStep env ev en = Some (en', es)"
  with EvMuxOpen auth_inv_writes(3) [of "onOpen (menvOf env en) a" en] show ?thesis by (metis engineStep.simps(5) fst_conv option.inject)
next
  case (EvMuxClose a)
  assume "auth_inv en" and st: "engineStep env ev en = Some (en', es)"
  with EvMuxClose auth_inv_writes(3) [of "onClose a" en] show ?thesis by (metis engineStep.simps(7) fst_conv option.inject)
next
  case (EvMuxDialFailed a m)
  assume "auth_inv en" and st: "engineStep env ev en = Some (en', es)"
  with EvMuxDialFailed auth_inv_writes(3) [of "failDialing a m" en] show ?thesis by (metis engineStep.simps(8) fst_conv option.inject)
next
  case (EvHubOpen b)
  assume "auth_inv en" and st: "engineStep env ev en = Some (en', es)"
  with EvHubOpen applyHub_inv [OF hub_event_states(2)] show ?thesis by (metis engineStep.simps(14) fst_conv option.inject)
next
  case EvHubClose
  assume "auth_inv en" and st: "engineStep env ev en = Some (en', es)"
  with EvHubClose applyHub_inv [OF hub_event_states(1)] show ?thesis by (metis engineStep.simps(16) fst_conv option.inject)
next
  case EvHubDialFailed
  assume "auth_inv en" and st: "engineStep env ev en = Some (en', es)"
  with EvHubDialFailed show ?thesis by (auto simp: auth_inv_def)
next
  case (EvTopology t)
  assume "auth_inv en" and st: "engineStep env ev en = Some (en', es)"
  with EvTopology show ?thesis by (auto simp: auth_inv_def)
qed (auto dest!: onClientTraffic_inv [rotated] onClientClose_inv [rotated] onDedClose_inv [rotated] onDialFailed_inv [rotated])

interpretation eng: step_invariant "engineStep env" auth_inv for env
  by unfold_locales (rule engineStep_inv)

lemma newEngine_inv: "auth_inv (newEngine env r)"
  by (simp add: auth_inv_def newEngine_def)


section \<open>The claim\<close>



definition lockedEnv :: engineEnv where
  "lockedEnv =
     \<lparr>eeCfg = Default\<lparr>cfgClientPassword := ''pw''\<rparr>, eeListenAddr = [], eeResolveErr = (\<lambda>_. None), eeRegisterErr = (\<lambda>_. None),
      eeOrder = (\<lambda>x. x), eeRemoteAddr = (\<lambda>_. []), eePoolCount = (\<lambda>_. 0), eePipeCount = (\<lambda>_. 0), eeStatsText = [],
      eeCloseNow = True\<rparr>"

definition getFoo :: Request where
  "getFoo = \<lparr>Args = [''GET'', ''foo''], Raw = [], Cmd = ''GET''\<rparr>"

lemma onClientOpen_unlimited:
  "enMaxClients en = 0 \<Longrightarrow> onClientOpen env c en =
     (setQueue c newQueue (en\<lparr>enClientSeq := enClientSeq en + 1, enNumClients := enNumClients en + 1,
        enClients := (enClients en)(c \<mapsto> newClientCtx env (enClientSeq en + 1))\<rparr>), [StatInc])"
  by (simp add: onClientOpen_def Let_def)


end
