(* ===== verification/Engine_Replies.thy ===== *)
theory Engine_Replies
  imports Engine_Gate
begin

text \<open>
  Every request leads to one reply: handling a request adds exactly one to the replies written,
  owed in a slot of the queue, or owed for a command that waits.
\<close>

section \<open>The balance of a client\<close>

definition present :: "nat \<Rightarrow> engine \<Rightarrow> bool" where
  "present c en \<longleftrightarrow> enClients en c \<noteq> None \<and> lsClients (enLoop en) c \<noteq> None"

definition owed :: "nat \<Rightarrow> engine \<Rightarrow> nat" where
  "owed c en = length (respQueue (queueOf en c)) + length (ccPendingCmds (cx en c))"

fun writtenBy :: "nat \<Rightarrow> eff \<Rightarrow> nat" where
  "writtenBy c (MuxEff (ClientWrite c' iov)) = (if c' = c then length iov else 0)"
| "writtenBy c _ = 0"

definition written :: "nat \<Rightarrow> eff list \<Rightarrow> nat" where
  "written c es = sum_list (map (writtenBy c) es)"

lemma written_simps [simp]:
  "written c [] = 0" "written c (e # es) = writtenBy c e + written c es" "written c (es @ es') = written c es + written c es'"
  by (simp_all add: written_def)

definition bal :: "nat \<Rightarrow> nat \<Rightarrow> engine \<Rightarrow> engine \<times> eff list \<Rightarrow> bool" where
  "bal c k en r \<longleftrightarrow> present c (fst r) \<and> written c (snd r) + owed c (fst r) = owed c en + k"

lemma bal_present: "bal c k en r \<Longrightarrow> present c (fst r)"
  by (simp add: bal_def)

lemma bal_andThen:
  assumes "bal c k en x" "present c (fst x) \<Longrightarrow> bal c l (fst x) (f (fst x))"
  shows "bal c (k + l) en (andThen x f)"
  using assms by (auto simp: bal_def fst_andThen snd_andThen)

lemma bal_andThen_0: "bal c k en x \<Longrightarrow> (present c (fst x) \<Longrightarrow> bal c 0 (fst x) (f (fst x))) \<Longrightarrow> bal c k en (andThen x f)"
  using bal_andThen [of c k en x 0 f] by simp

lemma bal_0_andThen: "bal c 0 en x \<Longrightarrow> (present c (fst x) \<Longrightarrow> bal c k (fst x) (f (fst x))) \<Longrightarrow> bal c k en (andThen x f)"
  using bal_andThen [of c 0 en x k f] by simp

definition same :: "nat \<Rightarrow> engine \<Rightarrow> engine \<Rightarrow> bool" where
  "same c en en' \<longleftrightarrow> (present c en \<longrightarrow> present c en') \<and> owed c en' = owed c en"

lemma same_bal: "same c en en' \<Longrightarrow> present c en' \<Longrightarrow> bal c k en' r \<Longrightarrow> bal c k en r"
  by (simp add: bal_def same_def)

lemma same_0: "same c en en' \<Longrightarrow> present c en \<Longrightarrow> written c es = 0 \<Longrightarrow> bal c 0 en (en', es)"
  by (simp add: bal_def same_def)

lemma same_cong: "enClients en' = enClients en \<Longrightarrow> lsClients (enLoop en') = lsClients (enLoop en) \<Longrightarrow> same c en en'"
  by (simp add: same_def present_def owed_def queueOf_def cx_def)

lemma same_upd:
  assumes "present c en" "\<And>cc. ccPendingCmds (f cc) = ccPendingCmds cc"
  shows "same c en (updClient c' f en)"
  using assms by (cases "enClients en c") (auto simp: same_def present_def owed_def queueOf_def cx_def updClient_def)

lemma same_backend [simp]: "same c en (updBackend b f en)"
  by (rule same_cong) (simp_all add: updBackend_def)

lemma same_trans: "same c en en1 \<Longrightarrow> same c en1 en2 \<Longrightarrow> same c en en2"
  by (simp add: same_def)

lemma same_present: "same c en en' \<Longrightarrow> present c en \<Longrightarrow> present c en'"
  by (simp add: same_def)


section \<open>Operations\<close>

lemma present_setQueue: "present c en \<Longrightarrow> present c (setQueue c q en)"
  by (simp add: present_def setQueue_def)

lemma setQueue_simps [simp]: "queueOf (setQueue c q en) c = q" "cx (setQueue c q en) c' = cx en c'"
  by (simp_all add: setQueue_def queueOf_def cx_def)

lemma owed_setQueue: "owed c (setQueue c q en) = length (respQueue q) + length (ccPendingCmds (cx en c))"
  by (simp add: owed_def setQueue_def queueOf_def cx_def)

lemma bal_alloc: "present c en \<Longrightarrow> bal c 1 en (snd (allocSlot c en), [])"
  by (simp add: bal_def allocSlot_def case_prod_unfold present_setQueue owed_setQueue allocResponseSlot_def owed_def)

lemma bal_write: "present c en \<Longrightarrow> bal c 1 en (en, [writeTo c d])"
  by (simp add: bal_def writeTo_def)

lemma bal_writeImmediate: "present c en \<Longrightarrow> bal c 1 en (writeImmediate c d en)"
  using bal_alloc [of c en] bal_write [of c en d]
  by (auto simp: writeImmediate_def case_prod_unfold bal_def fillResponseSlot_def)

lemma fillResponseSlotInLoop_length:
  "length (snd (fillResponseSlotInLoop i d q)) + length (respQueue (fst (fillResponseSlotInLoop i d q))) = length (respQueue q)"
proof -
  have "readyHead (respQueue q') \<le> length (respQueue q')" for q' by (simp add: readyHead_def length_takeWhile_le)
  then show ?thesis by (auto simp: fillResponseSlotInLoop_def popHead_def setReady_def Let_def min_def)
qed

lemma bal_fill: "present c en \<Longrightarrow> bal c 0 en (fillInLoop c i d en)"
  using fillResponseSlotInLoop_length [of i d "queueOf en c"]
  by (auto simp: bal_def fillInLoop_def present_def setQueue_def owed_def queueOf_def cx_def case_prod_unfold)

lemma bal_sendDed: "present c en \<Longrightarrow> bal c 0 en (sendDed c' b k args en)"
  unfolding sendDed_def by (rule same_0) simp_all

lemma send_clients [simp]: "lsClients (fst (send menv a p ls)) = lsClients ls"
  by (simp add: send_def dialBackend_def failDialing_def Let_def split: option.split)

lemma send_written: "written c (map MuxEff (snd (send menv a p ls))) = 0"
proof -
  have "written c (map MuxEff (fillErrors ls' msg qs)) = 0" for ls' msg qs
    by (induction qs) (auto simp: fillErrors_def split: option.split)
  then show ?thesis by (simp add: send_def dialBackend_def failDialing_def Let_def split: option.split)
qed

lemma bal_sendMux: "present c en \<Longrightarrow> bal c 0 en (sendMux env a p en)"
  unfolding sendMux_def onLoop_def case_prod_unfold
  by (rule same_0) (auto simp: send_written intro: same_cong)

text \<open>The result of a handler without its action.\<close>

definition res :: "handled \<Rightarrow> engine \<times> eff list" where
  "res r = (fst r, fst (snd r))"

lemma res_finish [simp]: "res (finish x) = x"
  by (simp add: res_def)

lemma bal_reply: "present c en \<Longrightarrow> bal c 1 en (res (reply c d en))"
  using bal_writeImmediate [of c en d] by (simp add: res_def reply_def case_prod_unfold)

lemma bal_reply_upd: "present c en \<Longrightarrow> (\<And>cc. ccPendingCmds (f cc) = ccPendingCmds cc) \<Longrightarrow> bal c 1 en (res (reply c d (updClient c' f en)))"
proof -
  assume p: "present c en" and f: "\<And>cc. ccPendingCmds (f cc) = ccPendingCmds cc"
  have s: "same c en (updClient c' f en)" by (rule same_upd [OF p f])
  from same_present [OF s p] show ?thesis by (rule same_bal [OF s _ bal_reply]) (rule same_present [OF s p])
qed

lemma bal_after_alloc:
  assumes "present c en" "present c (snd (allocSlot c en)) \<Longrightarrow> bal c 0 (snd (allocSlot c en)) r"
  shows "bal c 1 en r"
  using bal_alloc [OF assms(1)] assms(2) by (auto simp: bal_def)

lemma bal_submit: "present c en \<Longrightarrow> bal c 1 en (res (submitToRouter c j en))"
  by (rule bal_after_alloc) (simp_all add: submitToRouter_def case_prod_unfold res_def bal_def)

lemma bal_sendOne: "present c en \<Longrightarrow> bal c 1 en (res (sendOne env c a req en))"
  by (rule bal_after_alloc) (simp_all add: sendOne_def case_prod_unfold bal_sendMux)

lemma bal_sendGroups: "present c en \<Longrightarrow> sendGroups env c i req name gs en = Some r \<Longrightarrow> bal c 0 en r"
proof (induction gs arbitrary: en r)
  case (Cons g gs)
  obtain gi sg where g: "g = (gi, sg)" by (cases g)
  from Cons.prems(2) [unfolded g] obtain args r' where s:
    "sendGroups env c i req name gs (fst (sendMux env (sgAddr sg)
        (muxReq c i \<lparr>Args = args, Raw = [], Cmd = Cmd req\<rparr>\<lparr>pcFanIn := True, pcFanInIdx := gi\<rparr>) en)) = Some r'"
    "fst r = fst r'" "snd r = snd (sendMux env (sgAddr sg)
        (muxReq c i \<lparr>Args = args, Raw = [], Cmd = Cmd req\<rparr>\<lparr>pcFanIn := True, pcFanInIdx := gi\<rparr>) en) @ snd r'"
    by (rule sendGroups_Cons)
  let ?x = "sendMux env (sgAddr sg) (muxReq c i \<lparr>Args = args, Raw = [], Cmd = Cmd req\<rparr>\<lparr>pcFanIn := True, pcFanInIdx := gi\<rparr>) en"
  have x: "bal c 0 en ?x" by (rule bal_sendMux [OF Cons.prems(1)])
  from Cons.IH [OF bal_present [OF x] s(1)] x show ?case by (simp add: bal_def s(2,3))
qed (auto simp: bal_def)

lemma same_startFanIn: "present c en \<Longrightarrow> same c en (setQueue c (startFanIn i fi (queueOf en c)) en)"
  by (simp add: same_def present_setQueue owed_setQueue) (simp add: owed_def startFanIn_def setFanIn_def)


lemma if_bal: "(A \<Longrightarrow> bal c k en (res x)) \<Longrightarrow> (\<not> A \<Longrightarrow> bal c k en (res y)) \<Longrightarrow> bal c k en (res (if A then x else y))"
  by simp

lemma option_bal: "(bal c k en (res x)) \<Longrightarrow> (\<And>a. bal c k en (res (y a))) \<Longrightarrow> bal c k en (res (case v of None \<Rightarrow> x | Some a \<Rightarrow> y a))"
  by (cases v) simp_all


section \<open>Handlers\<close>

declare One_nat_def [simp del]

lemma bal_same: "present c en \<Longrightarrow> same c en en' \<Longrightarrow> (present c en' \<Longrightarrow> bal c k en' r) \<Longrightarrow> bal c k en r"
  using same_bal same_present by blast

lemma bal_routeMultiKeyToMux:
  assumes "present c en" "routeMultiKeyToMux env c req name en = Some r" shows "bal c 1 en (res r)"
proof (cases "multiKeys name (Args req) = []")
  case True
  with assms(2) show ?thesis by (auto simp: routeMultiKeyToMux_def intro: bal_reply [OF assms(1)])
next
  case False
  let ?keys = "multiKeys name (Args req)"
  note d = assms(2) [unfolded routeMultiKeyToMux_def Let_def if_not_P [OF False]]
  show ?thesis
  proof (cases "groupKeys (rtTopo (enRouter en)) (zip [0..<length ?keys] ?keys) []")
    case (Inl slot)
    with d show ?thesis by (auto intro: bal_reply [OF assms(1)])
  next
    case (Inr gs)
    show ?thesis
    proof (cases "length gs = 1")
      case True
      have "r = sendOne env c (sgAddr (snd (hd gs))) req en"
        using d unfolding Inr sum.case if_P [OF True] by simp
      then show ?thesis by (simp add: bal_sendOne [OF assms(1)])
    next
      case n: False
      let ?i = "fst (allocSlot c en)" and ?a = "snd (allocSlot c en)"
      let ?q = "setQueue c (startFanIn ?i (fanInOf name (length ?keys) (map snd gs)) (queueOf ?a c)) ?a"
      from d obtain x where x: "sendGroups env c ?i req name (zip [0..<length (map snd gs)] (map snd gs)) ?q = Some x"
        and r: "r = finish x" unfolding Inr sum.case if_not_P [OF n] case_prod_unfold by auto
      show ?thesis unfolding r res_finish
        by (rule bal_after_alloc [OF assms(1)], rule bal_same, assumption, erule same_startFanIn)
           (rule bal_sendGroups [OF _ x])
    qed
  qed
qed

lemma bal_router: "present c en \<Longrightarrow> present c (en\<lparr>enRouter := ro\<rparr>)" "same c en (en\<lparr>enRouter := ro\<rparr>)"
  by (auto simp: present_def intro: same_cong)

lemma bal_routeToBackend:
  assumes "present c en" "routeToBackend env c req en = Some r" shows "bal c 1 en (res r)"
proof -
  have ro: "bal c 1 en (res (reply c d (en\<lparr>enRouter := ro\<rparr>)))" "bal c 1 en (res (sendOne env c a req (en\<lparr>enRouter := ro\<rparr>)))" for d a ro
    by (rule bal_same [OF assms(1) bal_router(2)], erule bal_reply bal_sendOne)+
  show ?thesis
    using assms(2) bal_reply [OF assms(1)] bal_submit [OF assms(1)] bal_routeMultiKeyToMux [OF assms(1)] ro
    by (auto simp: routeToBackend_def Let_def split: if_splits option.splits prod.splits sum.splits)
qed

lemma bal_dialNewBlocking: assumes "present c en" shows "bal c 0 en (dialNewBlocking env c addr req en)"
proof (cases "tryRegister env addr")
  case None
  then show ?thesis using assms by (simp add: dialNewBlocking_def bal_def)
next
  case (Some msg)
  let ?x = "fillInLoop c (ccBlockingSlot (cx en c)) (EncodeError msg) en"
  have x: "bal c 0 en ?x" by (rule bal_fill [OF assms])
  have "same c (fst ?x) (updClient c (\<lambda>cc. cc\<lparr>ccState := stateNormal\<rparr>) (fst ?x))"
    by (rule same_upd [OF bal_present [OF x]]) simp
  with x Some show ?thesis by (simp add: dialNewBlocking_def case_prod_unfold bal_def same_def)
qed

lemma bal_reuse: assumes "present c en" shows "bal c 0 en (reuseBlockingConn b c req en)"
proof -
  let ?e1 = "updBackend b (\<lambda>bc. bc\<lparr>bcClient := c, bcPending := []\<rparr>) en"
  have "present c ?e1" by (rule same_present [OF same_backend assms])
  then have "same c ?e1 (updClient c (\<lambda>cc. cc\<lparr>ccBlocking := Some b\<rparr>) ?e1)" by (rule same_upd) simp
  from same_trans [OF same_backend this] show ?thesis
    unfolding reuseBlockingConn_def by (rule bal_same [OF assms]) (rule bal_sendDed)
qed

lemma bal_dialBlockingBackend: "present c en \<Longrightarrow> bal c 0 en (dialBlockingBackend env c addr req en)"
proof (induction env c addr req en rule: dialBlockingBackend.induct)
  case (1 env c addr req en)
  have s: "same c en (en\<lparr>enBlocking := pool\<rparr>)" for pool by (rule same_cong) simp_all
  show ?case
  proof (cases rule: dialBlockingBackend_cases [of addr en env c req])
    case fresh: 1
    show ?thesis unfolding fresh(2) by (rule bal_dialNewBlocking [OF 1(2)])
  next
    case (2 b pool)
    show ?thesis unfolding 2(3) by (rule bal_same [OF 1(2) s]) (rule bal_reuse)
  next
    case (3 b pool)
    show ?thesis unfolding 3(3) by (rule bal_same [OF 1(2) s]) (rule 1(1) [OF 3(1) [symmetric] refl refl 3(2)])
  qed
qed

lemma bal_dispatchBlocking:
  assumes "present c en" "dispatchBlockingCommand env c req en = Some r" shows "bal c 1 en (res r)"
proof -
  have b: "bal c 1 en (dialBlockingBackend env c a req
      (updClient c (\<lambda>cc. cc\<lparr>ccState := stateBlocking, ccBlockingSlot := i\<rparr>) (snd (allocSlot c en))))" for a i
  proof (rule bal_after_alloc [OF assms(1)])
    assume p: "present c (snd (allocSlot c en))"
    have "same c (snd (allocSlot c en)) (updClient c (\<lambda>cc. cc\<lparr>ccState := stateBlocking, ccBlockingSlot := i\<rparr>) (snd (allocSlot c en)))"
      by (rule same_upd [OF p]) simp
    from bal_same [OF p this bal_dialBlockingBackend]
    show "bal c 0 (snd (allocSlot c en)) (dialBlockingBackend env c a req
      (updClient c (\<lambda>cc. cc\<lparr>ccState := stateBlocking, ccBlockingSlot := i\<rparr>) (snd (allocSlot c en))))" .
  qed
  show ?thesis using assms(2) bal_reply [OF assms(1)] b
    by (auto simp: dispatchBlockingCommand_def Let_def case_prod_unfold split: option.splits list.splits if_splits)
qed


lemma bal_upd:
  assumes "present c en" "\<And>cc. ccPendingCmds (f cc) = ccPendingCmds cc" "present c (updClient c' f en) \<Longrightarrow> bal c k (updClient c' f en) r"
  shows "bal c k en r"
  using assms(3) by (rule bal_same [OF assms(1) same_upd [OF assms(1,2)]])

lemma bal_upd_0:
  "present c en \<Longrightarrow> (\<And>cc. ccPendingCmds (f cc) = ccPendingCmds cc) \<Longrightarrow> written c es = 0 \<Longrightarrow> bal c 0 en (updClient c' f en, es)"
  by (rule same_0 [OF same_upd])

lemma written_close [simp]: "written c (closeOpt b) = 0"
  by (simp add: closeOpt_def split: option.split)

lemma bal_dialDedicated: "present c en \<Longrightarrow> bal c 0 en (dialDedicatedBackend env c a False en)"
  using bal_fill by (auto simp: dialDedicatedBackend_def bal_def split: option.split)

lemma bal_handleWATCH: assumes "present c en" shows "bal c 1 en (res (handleWATCH env c req en))"
proof -
  let ?a = "snd (allocSlot c en)"
  have again: "bal c 1 en (sendDed c b k args ?a)" for b k args
    by (rule bal_after_alloc [OF assms]) (rule bal_sendDed)
  have first: "bal c 1 en (andThen (updClient c (\<lambda>cc. cc\<lparr>ccWatch := None, ccWatchAddr := w, ccPendingWatchReq := p, ccPendingWatchSlot := i\<rparr>) ?a,
      closeOpt o') (dialDedicatedBackend env c w False))" for w p i o'
    by (rule bal_after_alloc [OF assms], rule bal_0_andThen, erule bal_upd_0) (simp_all add: bal_dialDedicated)
  show ?thesis
    using again first bal_reply [OF assms] by (simp add: handleWATCH_def Let_def case_prod_unfold split: option.split)
qed

lemma bal_handleUNWATCH: assumes "present c en" shows "bal c 1 en (res (handleUNWATCH c en))"
proof -
  have w: "bal c 1 en' (writeImmediate c d (updClient c (\<lambda>cc. cc\<lparr>ccState := stateNormal\<rparr>) en'))" if "present c en'" for en' d
    by (rule bal_upd [OF that, where f = "\<lambda>cc. cc\<lparr>ccState := stateNormal\<rparr>" and c' = c]) (simp_all add: bal_writeImmediate)
  have u: "bal c 0 en (andThen (sendDed c b RIgnore args en)
      (\<lambda>en. (updClient c (\<lambda>cc. cc\<lparr>ccWatch := None, ccWatchAddr := []\<rparr>) en, [DedClose b])))" for b args
    by (rule bal_0_andThen [OF bal_sendDed [OF assms]]) (simp add: bal_upd_0)
  have z: "bal c 0 en (en, [])" using assms by (simp add: bal_def)
  show ?thesis unfolding handleUNWATCH_def res_finish
    by (rule bal_0_andThen, cases "ccWatch (cx en c)") (simp_all add: u z w)
qed

lemma pendingCmds_endTx [simp]: "ccPendingCmds (endTx cc) = ccPendingCmds cc"
  by (simp add: endTx_def)

lemma bal_execOn: assumes "present c en" shows "bal c 1 en (res (execMultiOnDedicatedConn c b closeAfter en))"
proof -
  let ?f = "\<lambda>cc. if closeAfter then (endTx cc)\<lparr>ccWatch := None, ccWatchAddr := []\<rparr> else (endTx cc)\<lparr>ccMulti := None\<rparr>"
  show ?thesis
  proof (rule bal_upd [OF assms, where f = ?f and c' = c])
    assume "present c (updClient c ?f en)"
    then show "bal c 1 (updClient c ?f en) (res (execMultiOnDedicatedConn c b closeAfter en))"
      by (intro bal_after_alloc) (simp_all add: execMultiOnDedicatedConn_def Let_def case_prod_unfold bal_sendDed)
  qed simp
qed

lemma bal_closeTx: "present c en \<Longrightarrow> bal c 0 en (closeTxConns c en)"
  unfolding closeTxConns_def Let_def by (rule bal_upd_0) simp_all

lemma bal_execMulti: assumes "present c en" shows "bal c 1 en (res (execMulti env c en))"
proof -
  have abort: "bal c 1 en (andThen (closeTxConns c (updClient c endTx en)) (writeImmediate c d))" for d
    by (rule bal_upd [OF assms, where f = endTx and c' = c], simp, rule bal_0_andThen) (simp_all add: bal_closeTx bal_writeImmediate)
  have empty: "bal c 1 en (updClient c endTx en, [writeTo c d])" for d
    by (rule bal_upd [OF assms, where f = endTx and c' = c]) (simp_all add: bal_write)
  have err: "bal c 1 en (res (reply c d (updClient c endTx en)))" for d by (rule bal_reply_upd [OF assms]) simp
  let ?u = "updClient c (\<lambda>cc. (endTx cc)\<lparr>ccMulti := None\<rparr>) en"
  have dial: "bal c 1 en (andThen (snd (allocSlot c ?u), closeOpt o') (dialMultiBackend env c a queue i))" for o' a queue i
  proof (rule bal_upd [OF assms, where f = "\<lambda>cc. (endTx cc)\<lparr>ccMulti := None\<rparr>" and c' = c])
    assume p: "present c ?u"
    have "bal c 1 ?u (snd (allocSlot c ?u), closeOpt o')" using bal_alloc [OF p] by (simp add: bal_def)
    then show "bal c 1 ?u (andThen (snd (allocSlot c ?u), closeOpt o') (dialMultiBackend env c a queue i))"
      by (rule bal_andThen_0) (auto simp: dialMultiBackend_def bal_def fillResponseSlot_def split: option.split)
  qed simp
  show ?thesis
    using abort bal_execOn [OF assms] empty err dial
    by (simp add: execMulti_def Let_def case_prod_unfold res_def split: option.split sum.split)
qed

lemma bal_discard: assumes "present c en" shows "bal c 1 en (res (discardMulti c en))"
  unfolding discardMulti_def res_finish
proof (rule bal_0_andThen [OF bal_closeTx [OF assms]])
  assume p: "present c (fst (closeTxConns c en))"
  show "bal c 1 (fst (closeTxConns c en)) (writeImmediate c (EncodeSimpleString ''OK'') (updClient c endTx (fst (closeTxConns c en))))"
    by (rule bal_upd [OF p, where f = endTx and c' = c]) (simp_all add: bal_writeImmediate)
qed

lemma bal_quit: "present c en \<Longrightarrow> bal c 1 en (res (quitReply c en))"
  by (simp add: quitReply_def res_def bal_write)

lemma bal_buffered: "present c en \<Longrightarrow> bal c 1 en (res (buffered c req en))"
  by (auto simp: buffered_def res_def bal_def present_def owed_def queueOf_def cx_def updClient_def One_nat_def)

lemma bal_handleInMulti:
  assumes "present c en" "Cmd req \<noteq> ''RESET''" shows "bal c 1 en (res (handleInMulti env c req en))"
proof -
  have u: "bal c 1 en (res (reply c d (updClient c (\<lambda>cc. cc\<lparr>ccState := st, ccTxQueue := [], ccTxErr := False\<rparr>) en)))"
    "bal c 1 en (res (reply c d (updClient c (\<lambda>cc. cc\<lparr>ccTxQueue := ccTxQueue cc @ [req]\<rparr>) en)))"
    "bal c 1 en (res (txError c d en))" for d st
    unfolding txError_def by (rule bal_reply_upd [OF assms(1)], simp)+
  show ?thesis
    unfolding handleInMulti_def Let_def if_not_P [OF assms(2)]
    by (intro if_bal bal_execMulti bal_discard bal_quit bal_reply u assms(1) option_bal)
qed


lemma bal_local:
  assumes "present c en"
  shows "bal c 1 en (res (handleAUTH env c args en))"
    and "bal c 1 en (res (handleClientCmd env c args en))"
    and "bal c 1 en (res (handleCLUSTER env c req en))"
    and "bal c 1 en (res (handleProxyCmd env c args en))"
    and "bal c 1 en (res (startMulti c en))"
proof -
  have m: "bal c 1 en (res (reply c d (en\<lparr>enMaxClients := n\<rparr>)))" for d n
  proof -
    have "same c en (en\<lparr>enMaxClients := n\<rparr>)" by (rule same_cong) simp_all
    from bal_same [OF assms this bal_reply] show ?thesis .
  qed
  note r = bal_reply [OF assms] and u = bal_reply_upd [OF assms] and s = bal_submit [OF assms]
  show "bal c 1 en (res (handleAUTH env c args en))"
    unfolding handleAUTH_def Let_def by (intro if_bal r u) simp_all
  show "bal c 1 en (res (handleClientCmd env c args en))"
    unfolding handleClientCmd_def Let_def by (intro if_bal r u) simp_all
  show "bal c 1 en (res (handleCLUSTER env c req en))"
    unfolding handleCLUSTER_def handleClusterNodes_def handleClusterConnection_def handleViaRouter_def Let_def by (intro if_bal r s)
  show "bal c 1 en (res (handleProxyCmd env c args en))"
    unfolding handleProxyCmd_def proxyConfig_def proxyMultiplexing_def Let_def by (intro if_bal option_bal r m)
  show "bal c 1 en (res (startMulti c en))" unfolding startMulti_def by (rule u) simp
qed

lemma bal_namedCmd:
  assumes "present c en" "namedCmd env c req en = Some r" "Cmd req \<notin> {''RESET'', ''HELLO'', ''SUBSCRIBE'', ''PSUBSCRIBE''}"
  shows "bal c 1 en (res r)"
proof -
  have n: "Cmd req \<noteq> ''RESET''" "Cmd req \<noteq> ''HELLO''" "\<not> (Cmd req = ''SUBSCRIBE'' \<or> Cmd req = ''PSUBSCRIBE'')"
    using assms(3) by blast+
  note e = assms(2) [unfolded namedCmd_def Let_def if_not_P [OF n(1)] if_not_P [OF n(2)] if_not_P [OF n(3)]
      handleViaRouter_def handleViaRouterScript_def]
  from e show ?thesis
    by (elim if_SomeE)
       (simp_all only: bal_quit bal_local bal_submit bal_handleWATCH bal_handleUNWATCH assms(1) option.distinct)
qed

lemma bal_handleNormal:
  assumes "present c en" "handleNormal env c req en = Some r" "Cmd req \<notin> {''RESET'', ''HELLO'', ''SUBSCRIBE'', ''PSUBSCRIBE''}"
  shows "bal c 1 en (res r)"
proof -
  from assms(2) consider "r = reply c noAuth en" | "r = buffered c req en" | "simpleCmd c req en = Some r"
    | "namedCmd env c req en = Some r" | "dispatchBlockingCommand env c req en = Some r" | "routeToBackend env c req en = Some r"
    unfolding handleNormal_def Let_def by (blast dest: normal_split)
  then show ?thesis
  proof cases
    case 3
    from simpleCmd_reply [OF this] show ?thesis using bal_reply [OF assms(1)] by blast
  next
    case 4
    then show ?thesis by (rule bal_namedCmd [OF assms(1) _ assms(3)])
  qed (simp_all only: bal_reply bal_buffered bal_dispatchBlocking bal_routeToBackend assms(1))
qed

lemma cmdCount_same: "same c en (en\<lparr>enCmdCount := n\<rparr>)"
  by (rule same_cong) simp_all


section \<open>The claim\<close>

text \<open>
  C5. Every request leads to exactly one reply: when a request is handled for a client that is not in
  a subscription, the replies written to the client meanwhile, the slots of its queue that wait
  for a reply and the commands kept for later are together one more than before. So a request
  that is answered at once is answered once, and one that goes to a node, to the router or waits
  has exactly one slot or place of its own, on every path including the errors. The exceptions
  are \<^verbatim>\<open>HELLO\<close>, which may answer its \<^verbatim>\<open>AUTH\<close> option separately, \<^verbatim>\<open>RESET\<close>, which drops the commands kept,
  and subscriptions, whose confirmations come from the node.
\<close>

theorem one_reply_per_request:
  assumes "enClients en c \<noteq> None" "lsClients (enLoop en) c \<noteq> None"
    and "dispatchClientRequest env c req en = Some (en', es, a)"
    and "ccState (cx en c) \<noteq> stateSubscribe" "Cmd req \<notin> {''RESET'', ''HELLO'', ''SUBSCRIBE'', ''PSUBSCRIBE''}"
  shows "written c es + owed c en' = owed c en + 1"
proof -
  have p: "present c en" using assms(1,2) by (simp add: present_def)
  have n: "Cmd req \<noteq> ''RESET''" using assms(5) by blast
  let ?n = "en\<lparr>enCmdCount := enCmdCount en + 1\<rparr>"
  have q: "present c ?n" by (rule same_present [OF cmdCount_same p])
  have lift: "bal c 1 en (res r)" if "bal c 1 ?n (res r)" for r
    by (rule same_bal [OF cmdCount_same q that])
  have "bal c 1 en (res (en', es, a))"
    using assms(3)
  proof (cases rule: dispatch_cases)
    case 1
    then show ?thesis using bal_write [OF p] by (simp add: res_def)
  next
    case (2 x)
    show ?thesis unfolding 2(4) 2(2) by (rule lift, rule bal_handleInMulti [OF q n])
  next
    case (3 x)
    from 3(3) assms(4) show ?thesis unfolding 3(2) cx_cmdCount by simp
  next
    case (4 x)
    show ?thesis unfolding 4(5) 4(2) by (rule lift, rule bal_buffered [OF q])
  next
    case (5 x)
    show ?thesis by (rule lift, rule bal_handleNormal [OF q 5(4) [unfolded 5(2)] assms(5)])
  qed
  then show ?thesis by (simp add: bal_def res_def)
qed


definition openEnv :: engineEnv where
  "openEnv = lockedEnv\<lparr>eeCfg := Default\<rparr>"

definition openEngine :: engine where
  "openEngine = fst (onClientOpen openEnv 7 (newEngine openEnv (NewRouter twoNodes ())))"

lemma openEngine_simps:
  "enClients openEngine = [7 \<mapsto> newClientCtx openEnv 1]" "lsClients (enLoop openEngine) = [7 \<mapsto> newQueue]"
  "cx openEngine 7 = newClientCtx openEnv 1" "queueOf openEngine 7 = newQueue" "rtTopo (enRouter openEngine) = twoNodes"
proof -
  have "enMaxClients (newEngine openEnv r) = 0" "enClientSeq (newEngine openEnv r) = 0" for r
    by (simp_all add: newEngine_def openEnv_def Default_def)
  note o = onClientOpen_unlimited [OF this(1), of openEnv 7, unfolded this(2)]
  show "enClients openEngine = [7 \<mapsto> newClientCtx openEnv 1]" "lsClients (enLoop openEngine) = [7 \<mapsto> newQueue]"
    "cx openEngine 7 = newClientCtx openEnv 1" "queueOf openEngine 7 = newQueue" "rtTopo (enRouter openEngine) = twoNodes"
    unfolding openEngine_def o by (simp_all add: setQueue_def newEngine_def newBackendMux_def NewRouter_def cx_def queueOf_def)
qed

lemma openClient_simps:
  "ccState (newClientCtx openEnv i) = stateNormal" "ccAuthenticated (newClientCtx openEnv i)"
  "ccPendingWatchReq (newClientCtx openEnv i) = None" "ccPendingCmds (newClientCtx openEnv i) = []"
  "ccMulti (newClientCtx openEnv i) = None" "ccTxQueue (newClientCtx openEnv i) = []"
  by (simp_all add: newClientCtx_def openEnv_def Default_def)

definition infoReq :: Request where
  "infoReq = \<lparr>Args = [''INFO''], Raw = [], Cmd = ''INFO''\<rparr>"

lemma infoReq_simps: "Args infoReq = [''INFO'']" "Cmd infoReq = ''INFO''"
  by (simp_all add: infoReq_def)

theorem one_reply_per_request_witness:
  "\<exists>en' es a. dispatchClientRequest openEnv 7 infoReq openEngine = Some (en', es, a) \<and>
     written 7 es = 0 \<and> owed 7 openEngine = 0 \<and> owed 7 en' = 1"
proof -
  let ?n = "openEngine\<lparr>enCmdCount := enCmdCount openEngine + 1\<rparr>"
  have st: "ccState (cx openEngine 7) = stateNormal" by (simp add: openEngine_simps openClient_simps)
  have "simpleCmd 7 infoReq ?n = None" "namedCmd openEnv 7 infoReq ?n = Some (submitToRouter 7 (JobExecute infoReq) ?n)"
    by (simp_all add: simpleCmd_def namedCmd_def handleViaRouter_def infoReq_simps Let_def)
  then have d: "dispatchClientRequest openEnv 7 infoReq openEngine = Some (submitToRouter 7 (JobExecute infoReq) ?n)"
    using st by (simp add: dispatchClientRequest_def handleNormal_def infoReq_simps openEngine_simps openClient_simps Let_def)
  obtain en' es a where r: "submitToRouter 7 (JobExecute infoReq) ?n = (en', es, a)" by (cases "submitToRouter 7 (JobExecute infoReq) ?n")
  then have w: "written 7 es = 0" by (auto simp: submitToRouter_def case_prod_unfold)
  have o: "owed 7 openEngine = 0" by (simp add: owed_def openEngine_simps openClient_simps newQueue_def)
  have "written 7 es + owed 7 en' = owed 7 openEngine + 1"
    by (rule one_reply_per_request [OF _ _ d [unfolded r]]) (simp_all add: openEngine_simps openClient_simps infoReq_simps)
  with d r w o show ?thesis by simp
qed

end
