(* ===== verification/Engine_Tx.thy ===== *)
theory Engine_Tx
  imports Engine_Replies
begin

text \<open>
  Transactions: the commands of a transaction stay in the proxy until \<^verbatim>\<open>EXEC\<close>, then a connection to
  the node that serves the slot of their first keys is dialled, and on it exactly \<^verbatim>\<open>MULTI\<close>, the commands in order and
  \<^verbatim>\<open>EXEC\<close> are written; the reply to \<^verbatim>\<open>EXEC\<close> answers the client.
\<close>

section \<open>Queueing\<close>

definition queueable :: "Request \<Rightarrow> bool" where
  "queueable req \<longleftrightarrow> Args req \<noteq> [] \<and>
     Cmd req \<notin> {''EXEC'', ''DISCARD'', ''MULTI'', ''WATCH'', ''UNWATCH'', ''RESET'', ''QUIT''} \<and>
     (case GetCmdInfo (Cmd req) of None \<Rightarrow> False | Some info \<Rightarrow> \<not> IsNotAllowed (Some info))"

lemma handleInMulti_queue:
  assumes "queueable req"
  shows "handleInMulti env c req en =
    reply c (EncodeSimpleString ''QUEUED'') (updClient c (\<lambda>cc. cc\<lparr>ccTxQueue := ccTxQueue cc @ [req]\<rparr>) en)"
proof -
  from assms have n: "Cmd req \<noteq> ''EXEC''" "Cmd req \<noteq> ''DISCARD''" "Cmd req \<noteq> ''MULTI''" "Cmd req \<noteq> ''WATCH''"
    "Cmd req \<noteq> ''UNWATCH''" "Cmd req \<noteq> ''RESET''" "Cmd req \<noteq> ''QUIT''" unfolding queueable_def by blast+
  from assms obtain info where "GetCmdInfo (Cmd req) = Some info" "\<not> IsNotAllowed (Some info)"
    by (auto simp: queueable_def split: option.splits)
  with n show ?thesis by (simp add: handleInMulti_def Let_def)
qed

lemma dispatch_queue:
  assumes "queueable req" "enClients en c = Some cc" "ccState cc = stateMulti"
  obtains en1 es1 where "dispatchClientRequest env c req en = Some (en1, es1, ActNone)" "list_all (toClient c) es1"
    "quiet c en en1" "enClients en1 c = Some (cc\<lparr>ccTxQueue := ccTxQueue cc @ [req]\<rparr>)"
proof -
  let ?n = "en\<lparr>enCmdCount := enCmdCount en + 1\<rparr>" and ?f = "\<lambda>cc. cc\<lparr>ccTxQueue := ccTxQueue cc @ [req]\<rparr>"
  let ?r = "reply c (EncodeSimpleString ''QUEUED'') (updClient c ?f ?n)"
  have "dispatchClientRequest env c req en = Some ?r"
    using assms handleInMulti_queue [OF assms(1), of env c ?n] by (simp add: dispatchClientRequest_def queueable_def cx_def Let_def)
  then have d: "dispatchClientRequest env c req en = Some (fst ?r, fst (snd ?r), ActNone)" by (simp add: reply_def case_prod_unfold)
  have q: "quiet c en (fst ?r)" using quiet_reply_upd [of ?f c ?n] by (simp add: quiet_cmdCount)
  have t: "list_all (toClient c) (fst (snd ?r))" using quiet_reply(2) by (simp add: list_all_iff)
  have "enClients (fst ?r) c = Some (?f cc)" using assms(2) by (simp add: enClients_updClient)
  from that [OF d t q this] show ?thesis .
qed

lemma drain_queue:
  assumes "list_all queueable qs" "enClients en c = Some cc" "ccState cc = stateMulti"
  shows "\<exists>en1 es1. (\<forall>rest. drainLoop env c (qs @ rest) en = map_option (\<lambda>(e, es). (e, es1 @ es)) (drainLoop env c rest en1)) \<and>
    list_all (toClient c) es1 \<and> quiet c en en1 \<and> enClients en1 c = Some (cc\<lparr>ccTxQueue := ccTxQueue cc @ qs\<rparr>)"
  using assms
proof (induction qs arbitrary: en cc)
  case Nil
  show ?case
  proof (intro exI [of _ en] exI [of _ "[]"] conjI allI)
    show "drainLoop env c ([] @ rest) en = map_option (\<lambda>(e, es). (e, [] @ es)) (drainLoop env c rest en)" for rest
      by (cases "drainLoop env c rest en") auto
  qed (use Nil in simp_all)
next
  case (Cons req qs)
  from Cons.prems have q: "queueable req" "list_all queueable qs" by simp_all
  obtain en1 es1 where d: "dispatchClientRequest env c req en = Some (en1, es1, ActNone)" and e1: "list_all (toClient c) es1"
    and q1: "quiet c en en1" and c1: "enClients en1 c = Some (cc\<lparr>ccTxQueue := ccTxQueue cc @ [req]\<rparr>)"
    by (rule dispatch_queue [OF q(1) Cons.prems(2,3)])
  have "ccState (cc\<lparr>ccTxQueue := ccTxQueue cc @ [req]\<rparr>) = stateMulti" using Cons.prems(3) by simp
  from Cons.IH [OF q(2) c1 this] obtain en2 es2 where
    l: "\<And>rest. drainLoop env c (qs @ rest) en1 = map_option (\<lambda>(e, es). (e, es2 @ es)) (drainLoop env c rest en2)"
    and e2: "list_all (toClient c) es2" and q2: "quiet c en1 en2"
    and c2: "enClients en2 c = Some (cc\<lparr>ccTxQueue := ccTxQueue cc @ req # qs\<rparr>)" by auto
  show ?case
  proof (intro exI conjI allI)
    show "drainLoop env c ((req # qs) @ rest) en = map_option (\<lambda>(e, es). (e, (es1 @ es2) @ es)) (drainLoop env c rest en2)" for rest
      by (simp add: d l split: option.split)
    show "list_all (toClient c) (es1 @ es2)" using e1 e2 by simp
    show "quiet c en en2" by (rule quiet_trans [OF q1 q2])
    show "enClients en2 c = Some (cc\<lparr>ccTxQueue := ccTxQueue cc @ req # qs\<rparr>)" by (rule c2)
  qed
qed

text \<open>The slot of the transaction is the slot of the first key of every command that has one.\<close>

lemma targetSlot_keep: "targetSlot qs t = Some s \<Longrightarrow> 0 \<le> t \<Longrightarrow> s = t"
  by (induction qs t rule: targetSlot.induct) (auto simp: Let_def split: option.splits if_splits)

lemma targetSlot_keys:
  "targetSlot qs t = Some s \<Longrightarrow> q \<in> set qs \<Longrightarrow> GetFirstKeyFromRequest q = Some k \<Longrightarrow> int (HashSlot k) = s"
proof (induction qs t rule: targetSlot.induct)
  case (2 req reqs t)
  from 2 show ?case by (auto simp: Let_def split: option.splits if_splits dest: targetSlot_keep)
qed simp

lemma resolveMultiSlot_owner:
  assumes "resolveMultiSlot qs en = Inr addr" "q \<in> set qs" "GetFirstKeyFromRequest q = Some k"
  shows "map_option nAddr (nodeFor en (HashSlot k)) = Some addr"
proof -
  from assms(1) obtain t where t: "targetSlot qs (- 1) = Some t" by (auto simp: resolveMultiSlot_def Let_def split: option.splits)
  from targetSlot_keys [OF t assms(2,3)] have "t = int (HashSlot k)" by simp
  with assms(1) t show ?thesis by (auto simp: resolveMultiSlot_def nodeFor_def Let_def split: option.splits if_splits)
qed

text \<open>
  The other keys of a command do not count: a command whose keys lie in several slots is sent to
  the node of its first key. When the keys of a command share a slot, the node serves them all.
\<close>

lemma targetSlot_first_keys:
  "map GetFirstKeyFromRequest qs = map GetFirstKeyFromRequest rs \<Longrightarrow> targetSlot qs t = targetSlot rs t"
proof (induction qs arbitrary: rs t)
  case (Cons q qs)
  then obtain r rs' where "rs = r # rs'" "GetFirstKeyFromRequest q = GetFirstKeyFromRequest r"
    "map GetFirstKeyFromRequest qs = map GetFirstKeyFromRequest rs'" by (cases rs) auto
  with Cons.IH [of rs'] show ?case by (simp add: Let_def split: option.split)
qed simp

lemma resolveMultiSlot_first_keys:
  "map GetFirstKeyFromRequest qs = map GetFirstKeyFromRequest rs \<Longrightarrow> resolveMultiSlot qs en = resolveMultiSlot rs en"
  by (simp add: resolveMultiSlot_def targetSlot_first_keys [of qs rs])

definition one_slot :: "Request \<Rightarrow> bool" where
  "one_slot q \<longleftrightarrow> (\<forall>k \<in> set (GetKeys q). HashSlot k = HashSlot (hd (GetKeys q)))"

lemma resolveMultiSlot_keys:
  assumes "resolveMultiSlot qs en = Inr addr" "q \<in> set qs" "one_slot q" "k \<in> set (GetKeys q)"
  shows "map_option nAddr (nodeFor en (HashSlot k)) = Some addr"
proof -
  have "GetFirstKeyFromRequest q = Some (hd (GetKeys q))" using GetKeys_args [OF assms(4)] by simp
  from resolveMultiSlot_owner [OF assms(1,2) this] assms(3,4) show ?thesis by (simp add: one_slot_def)
qed


section \<open>Executing\<close>

definition multiReq :: Request where
  "multiReq = \<lparr>Args = [''MULTI''], Raw = [], Cmd = ''MULTI''\<rparr>"

definition execReq :: Request where
  "execReq = \<lparr>Args = [''EXEC''], Raw = [], Cmd = ''EXEC''\<rparr>"

lemma txReq_simps:
  "Args multiReq = [''MULTI'']" "Cmd multiReq = ''MULTI''" "Args execReq = [''EXEC'']" "Cmd execReq = ''EXEC''"
  by (simp_all add: multiReq_def execReq_def)

lemma dispatch_multi:
  assumes "enClients en c = Some cc" "ccState cc = stateNormal" "ccAuthenticated cc" "ccPendingWatchReq cc = None"
  obtains en1 es1 where "dispatchClientRequest env c multiReq en = Some (en1, es1, ActNone)" "list_all (toClient c) es1"
    "enRouter en1 = enRouter en" "enBackends en1 = enBackends en"
    "enClients en1 c = Some (cc\<lparr>ccState := stateMulti, ccTxQueue := [], ccTxErr := False\<rparr>)"
proof -
  let ?n = "en\<lparr>enCmdCount := enCmdCount en + 1\<rparr>"
  let ?r = "startMulti c ?n"
  have "simpleCmd c multiReq ?n = None" "namedCmd env c multiReq ?n = Some ?r" by (simp_all add: simpleCmd_def namedCmd_def txReq_simps Let_def)
  then have "dispatchClientRequest env c multiReq en = Some ?r"
    using assms by (simp add: dispatchClientRequest_def handleNormal_def txReq_simps cx_def Let_def)
  then have d: "dispatchClientRequest env c multiReq en = Some (fst ?r, fst (snd ?r), ActNone)"
    by (simp add: startMulti_def reply_def case_prod_unfold)
  have t: "list_all (toClient c) (fst (snd ?r))" using quiet_reply(2) by (simp add: startMulti_def list_all_iff)
  have b: "enRouter (fst ?r) = enRouter en" "enBackends (fst ?r) = enBackends en"
    using quiet_reply(1) [where c = c] unfolding startMulti_def by (simp_all add: quiet_def updClient_def)
  have "enClients (fst ?r) c = Some (cc\<lparr>ccState := stateMulti, ccTxQueue := [], ccTxErr := False\<rparr>)"
    using assms by (simp add: startMulti_def enClients_updClient)
  from that [OF d t b this] show ?thesis .
qed

lemma dispatch_exec:
  assumes "enClients en c = Some cc" "ccState cc = stateMulti" "\<not> ccTxErr cc" "ccTxQueue cc = qs" "qs \<noteq> []" "ccMulti cc = None"
    and "resolveMultiSlot qs en = Inr addr" "tryRegister env addr = None"
  obtains en1 slotIdx where "dispatchClientRequest env c execReq en =
      Some (en1, [DedRegister c (dedCtx c addr \<lparr>bcIsMulti := True\<rparr>) (DialMulti qs slotIdx)], ActNone)"
    "slotIdx = fst (allocResponseSlot (queueOf en c))" "enBackends en1 = enBackends en"
proof -
  let ?n = "en\<lparr>enCmdCount := enCmdCount en + 1\<rparr>"
  have x: "cx ?n c = cc" using assms(1) by (simp add: cx_def)
  have r: "resolveMultiSlot qs ?n = Inr addr" using assms(7) by (simp add: resolveMultiSlot_def)
  have "dispatchClientRequest env c execReq en = Some (execMulti env c ?n)"
    using assms(2) x by (simp add: dispatchClientRequest_def txReq_simps handleInMulti_def Let_def)
  moreover have "reusableMulti ?n c addr = None" using x assms(6) by (simp add: reusableMulti_def)
  ultimately have "dispatchClientRequest env c execReq en =
      Some (finish (andThen (snd (allocSlot c (updClient c (\<lambda>cc. (endTx cc)\<lparr>ccMulti := None\<rparr>) ?n)), [])
        (dialMultiBackend env c addr qs (fst (allocSlot c (updClient c (\<lambda>cc. (endTx cc)\<lparr>ccMulti := None\<rparr>) ?n))))))"
    using assms(2-6) x r by (simp add: execMulti_def Let_def case_prod_unfold closeOpt_def)
  then have d: "dispatchClientRequest env c execReq en =
      Some (snd (allocSlot c (updClient c (\<lambda>cc. (endTx cc)\<lparr>ccMulti := None\<rparr>) ?n)),
        [DedRegister c (dedCtx c addr \<lparr>bcIsMulti := True\<rparr>)
          (DialMulti qs (fst (allocSlot c (updClient c (\<lambda>cc. (endTx cc)\<lparr>ccMulti := None\<rparr>) ?n))))], ActNone)"
    by (simp add: andThen_def dialMultiBackend_def finish_def assms(8))
  show ?thesis
    by (rule that [OF d]) (simp_all add: allocSlot_def case_prod_unfold setQueue_def updClient_def queueOf_def)
qed


text \<open>
  C6. A transaction is queued and then sent to one node: from the normal state, when an authenticated
  client without connections of an earlier transaction sends \<^verbatim>\<open>MULTI\<close>, commands that may be queued
  and \<^verbatim>\<open>EXEC\<close>, then everything up to \<^verbatim>\<open>EXEC\<close> only leads to replies to the client, and \<^verbatim>\<open>EXEC\<close> has exactly
  one effect: a connection is dialled, for the commands in their order, to one node. The node
  serves the slot of the first key of every command, and the slots of all the keys of every command
  whose keys share a slot; the proxy does not look at the other keys of a command, which is a finding.
\<close>

theorem transaction_queued:
  assumes "enClients en c = Some cc" "ccState cc = stateNormal" "ccAuthenticated cc" "ccPendingWatchReq cc = None" "ccMulti cc = None"
    and "qs \<noteq> []" "list_all queueable qs"
    and "resolveMultiSlot qs en = Inr addr" "tryRegister env addr = None"
  shows "\<exists>en' es slotIdx. drainLoop env c (multiReq # qs @ [execReq]) en =
       Some (en', es @ [DedRegister c (dedCtx c addr \<lparr>bcIsMulti := True\<rparr>) (DialMulti qs slotIdx)]) \<and>
     list_all (toClient c) es \<and>
     (\<forall>q k. q \<in> set qs \<longrightarrow> GetFirstKeyFromRequest q = Some k \<or> one_slot q \<and> k \<in> set (GetKeys q) \<longrightarrow>
        map_option nAddr (nodeFor en (HashSlot k)) = Some addr)"
proof -
  obtain en1 es1 where d1: "dispatchClientRequest env c multiReq en = Some (en1, es1, ActNone)" and t1: "list_all (toClient c) es1"
    and r1: "enRouter en1 = enRouter en" and c1: "enClients en1 c = Some (cc\<lparr>ccState := stateMulti, ccTxQueue := [], ccTxErr := False\<rparr>)"
    by (rule dispatch_multi [OF assms(1-4)])
  let ?cc = "cc\<lparr>ccState := stateMulti, ccTxQueue := [], ccTxErr := False\<rparr>"
  from drain_queue [OF assms(7) c1, of env] obtain en2 es2 where
    l: "drainLoop env c (qs @ [execReq]) en1 = map_option (\<lambda>(e, es). (e, es2 @ es)) (drainLoop env c [execReq] en2)"
    and t2: "list_all (toClient c) es2" and q2: "quiet c en1 en2" and c2: "enClients en2 c = Some (?cc\<lparr>ccTxQueue := qs\<rparr>)" by auto
  have r2: "resolveMultiSlot qs en2 = Inr addr" using assms(8) r1 q2 by (simp add: resolveMultiSlot_def quiet_def)
  obtain en3 slotIdx where d3: "dispatchClientRequest env c execReq en2 =
      Some (en3, [DedRegister c (dedCtx c addr \<lparr>bcIsMulti := True\<rparr>) (DialMulti qs slotIdx)], ActNone)"
    by (rule dispatch_exec [OF c2 _ _ _ assms(6) _ r2 assms(9)]) (use assms(5) in simp_all)
  have "drainLoop env c (multiReq # qs @ [execReq]) en =
      Some (en3, (es1 @ es2) @ [DedRegister c (dedCtx c addr \<lparr>bcIsMulti := True\<rparr>) (DialMulti qs slotIdx)])"
    by (simp add: d1 l d3)
  moreover have "list_all (toClient c) (es1 @ es2)" using t1 t2 by simp
  moreover have "\<forall>q k. q \<in> set qs \<longrightarrow> GetFirstKeyFromRequest q = Some k \<or> one_slot q \<and> k \<in> set (GetKeys q) \<longrightarrow>
      map_option nAddr (nodeFor en (HashSlot k)) = Some addr"
    using resolveMultiSlot_owner [OF assms(8)] resolveMultiSlot_keys [OF assms(8)] by blast
  ultimately show ?thesis by blast
qed

lemma getFoo_simps:
  "Args getFoo = [''GET'', ''foo'']" "Cmd getFoo = ''GET''" "queueable getFoo" "GetFirstKeyFromRequest getFoo = Some ''foo''"
  "HashSlot ''foo'' = 14042"
proof -
  show "Args getFoo = [''GET'', ''foo'']" "Cmd getFoo = ''GET''" by (simp_all add: getFoo_def)
  show "GetFirstKeyFromRequest getFoo = Some ''foo''" "queueable getFoo" unfolding queueable_def by code_simp+
  show "HashSlot ''foo'' = 14042" by (rule HashSlot_foo(1))
qed

theorem transaction_queued_witness:
  "\<exists>en' es slotIdx. drainLoop openEnv 7 [multiReq, getFoo, execReq] openEngine =
       Some (en', es @ [DedRegister 7 (dedCtx 7 ''b:2'' \<lparr>bcIsMulti := True\<rparr>) (DialMulti [getFoo] slotIdx)]) \<and>
     list_all (toClient 7) es \<and> map_option nAddr (nodeFor openEngine 14042) = Some ''b:2''"
proof -
  have r: "resolveMultiSlot [getFoo] openEngine = Inr ''b:2''"
    by (simp add: resolveMultiSlot_def openEngine_simps getFoo_simps GetNodeForSlot_def GetNodeByAddr_def twoNodes_def ClusterSlots_def Let_def)
  have t: "tryRegister openEnv ''b:2'' = None" by (simp add: tryRegister_def openEnv_def lockedEnv_def)
  have c: "enClients openEngine 7 = Some (newClientCtx openEnv 1)" by (simp add: openEngine_simps)
  have q: "list_all queueable [getFoo]" by (simp add: getFoo_simps)
  from transaction_queued [OF c openClient_simps(1-3,5) _ q r t] obtain en' es slotIdx where
    "drainLoop openEnv 7 (multiReq # [getFoo] @ [execReq]) openEngine =
       Some (en', es @ [DedRegister 7 (dedCtx 7 ''b:2'' \<lparr>bcIsMulti := True\<rparr>) (DialMulti [getFoo] slotIdx)])"
    "list_all (toClient 7) es" "map_option nAddr (nodeFor openEngine (HashSlot ''foo'')) = Some ''b:2''"
    using getFoo_simps(4) by auto
  then show ?thesis unfolding getFoo_simps(5) append.simps by blast
qed


section \<open>The exchange with the node\<close>

lemma sendDed_simps:
  assumes "enBackends en b = Some bc"
  shows "enBackends (fst (sendDed c b k args en)) b = Some (bc\<lparr>bcPending := bcPending bc @ [(c, k)]\<rparr>)"
    and "enLoop (fst (sendDed c b k args en)) = enLoop en"
    and "snd (sendDed c b k args en) = [DedWrite b (EncodeCommandBytes args)]"
  using assms by (simp_all add: sendDed_def updBackend_def)

lemma sendQueue_simps:
  assumes "enBackends en b = Some bc"
  shows "enBackends (fst (sendQueue c b qs en)) b = Some (bc\<lparr>bcPending := bcPending bc @ replicate (length qs) (c, RIgnore)\<rparr>) \<and>
    enLoop (fst (sendQueue c b qs en)) = enLoop en \<and>
    snd (sendQueue c b qs en) = map (\<lambda>r. DedWrite b (EncodeCommandBytes (Args r))) qs"
  using assms
proof (induction qs arbitrary: en bc)
  case (Cons q qs)
  note s = sendDed_simps [OF Cons.prems, of c RIgnore "Args q"]
  from Cons.IH [OF s(1)] show ?case by (simp add: fst_andThen snd_andThen s)
qed simp

lemma fillInLoop_backends: "enBackends (fst (fillInLoop c i d en)) = enBackends en"
  by (simp add: fillInLoop_def setQueue_def case_prod_unfold split: option.split)

lemma fillInLoop_loop:
  assumes "enLoop en' = enLoop en"
  shows "enLoop (fst (fillInLoop c i d en')) = enLoop (fst (fillInLoop c i d en))" "snd (fillInLoop c i d en') = snd (fillInLoop c i d en)"
  by (simp_all add: fillInLoop_def setQueue_def assms case_prod_unfold split: option.split)

lemma dedValue_pop:
  assumes "enBackends en b = Some bc" "bcPending bc = k # ks"
  shows "dedValue env b v en = respondTo env b k v (updBackend b (\<lambda>bc. bc\<lparr>bcPending := ks\<rparr>) en)"
  using assms by (simp add: dedValue_def)

lemma ignored_replies:
  assumes "enBackends en b = Some bc" "bcPending bc = replicate (length rs) (c, RIgnore) @ ks"
  shows "\<exists>en'. runs (dedValue env b) rs en = Some (en', []) \<and> enBackends en' b = Some (bc\<lparr>bcPending := ks\<rparr>) \<and> enLoop en' = enLoop en"
  using assms
proof (induction rs arbitrary: en bc)
  case Nil
  then show ?case by (intro exI [of _ en]) auto
next
  case (Cons r rs)
  let ?ks = "replicate (length rs) (c, RIgnore) @ ks" and ?en = "updBackend b (\<lambda>bc. bc\<lparr>bcPending := replicate (length rs) (c, RIgnore) @ ks\<rparr>) en"
  have d: "dedValue env b r en = Some (?en, [])" using dedValue_pop [OF Cons.prems(1), of "(c, RIgnore)" ?ks env r] Cons.prems(2) by simp
  have e: "enBackends ?en b = Some (bc\<lparr>bcPending := ?ks\<rparr>)" using Cons.prems(1) by (simp add: updBackend_def)
  have p: "bcPending (bc\<lparr>bcPending := ?ks\<rparr>) = ?ks" by simp
  from Cons.IH [OF e p] obtain en' where "runs (dedValue env b) rs ?en = Some (en', [])"
    "enBackends en' b = Some (bc\<lparr>bcPending := ?ks\<rparr>\<lparr>bcPending := ks\<rparr>)" "enLoop en' = enLoop ?en" by blast
  with d show ?case by (intro exI [of _ en']) (simp add: updBackend_def)
qed

lemma multi_exchange:
  assumes "enBackends en b = Some bc" "bcPending bc = [(c, RMulti qs slotIdx)]" "\<not> IsError ok" "length rs = length qs"
  shows "\<exists>en'. runs (dedValue env b) (ok # rs @ [v]) en =
      Some (en', map (\<lambda>r. DedWrite b (EncodeCommandBytes (Args r))) qs @
                 [DedWrite b (EncodeCommandBytes [''EXEC'']), DedClose b] @ snd (fillInLoop c slotIdx (EncodeValue (Some v)) en)) \<and>
    map_option bcPending (enBackends en' b) = Some [] \<and>
    enLoop en' = enLoop (fst (fillInLoop c slotIdx (EncodeValue (Some v)) en))"
proof -
  let ?e0 = "updBackend b (\<lambda>bc. bc\<lparr>bcPending := []\<rparr>) en"
  have b0: "enBackends ?e0 b = Some (bc\<lparr>bcPending := []\<rparr>)" using assms(1) by (simp add: updBackend_def)
  note q = sendQueue_simps [OF b0, of c qs]
  let ?e1 = "fst (sendQueue c b qs ?e0)"
  note x = sendDed_simps [OF conjunct1 [OF q], of c "RExec slotIdx" "[''EXEC'']"]
  let ?e2 = "fst (sendDed c b (RExec slotIdx) [''EXEC''] ?e1)"
  have d: "dedValue env b ok en = Some (?e2, map (\<lambda>r. DedWrite b (EncodeCommandBytes (Args r))) qs @ [DedWrite b (EncodeCommandBytes [''EXEC''])])"
    using q x(3) assms(3) by (simp add: dedValue_pop [OF assms(1,2)] multiReply_def andThen_def case_prod_unfold)
  have p: "bcPending (bc\<lparr>bcPending := replicate (length qs) (c, RIgnore) @ [(c, RExec slotIdx)]\<rparr>) = replicate (length rs) (c, RIgnore) @ [(c, RExec slotIdx)]"
    using assms(4) by simp
  from ignored_replies [OF _ p, of ?e2 b env] x(1) obtain e3 where r: "runs (dedValue env b) rs ?e2 = Some (e3, [])"
    and b3: "enBackends e3 b = Some (bc\<lparr>bcPending := [(c, RExec slotIdx)]\<rparr>)" and l3: "enLoop e3 = enLoop ?e2" by auto
  let ?e4 = "updBackend b (\<lambda>bc. bc\<lparr>bcPending := []\<rparr>) e3"
  have l4: "enLoop ?e4 = enLoop en" using l3 x(2) q by (simp add: updBackend_def)
  have f: "dedValue env b v e3 = Some (fst (fillInLoop c slotIdx (EncodeValue (Some v)) ?e4), DedClose b # snd (fillInLoop c slotIdx (EncodeValue (Some v)) ?e4))"
    using dedValue_pop [OF b3, of "(c, RExec slotIdx)" "[]" env v] by (simp add: execReply_def andThen_def case_prod_unfold)
  have "runs (dedValue env b) (rs @ [v]) ?e2 = Some (fst (fillInLoop c slotIdx (EncodeValue (Some v)) ?e4), DedClose b # snd (fillInLoop c slotIdx (EncodeValue (Some v)) ?e4))"
    using r by (simp add: runs_append f)
  then show ?thesis
    using fillInLoop_loop [OF l4] b3
    by (intro exI [of _ "fst (fillInLoop c slotIdx (EncodeValue (Some v)) ?e4)"]) (simp add: d fillInLoop_backends updBackend_def)
qed


text \<open>The replies as the node sends them, in any grouping.\<close>

definition encs :: "Value list \<Rightarrow> bytes" where
  "encs vs = concat (map (\<lambda>v. EncodeValue (Some v)) vs)"

lemma ParseValue_encoded:
  assumes "wf_value v" "go_slice (EncodeValue (Some v) @ rest)"
  shows "ParseValue (EncodeValue (Some v) @ rest) = Inr (Some (v, length (EncodeValue (Some v))))"
  using resp.dec_enc [OF assms] by (simp add: decodeValue_Some ParseValue_Some)

lemma dedTraffic_encs:
  assumes "list_all wf_value vs" "go_slice (encs vs)" "length (encs vs) < k"
  shows "dedTraffic env b k (encs vs) en = runs (dedValue env b) vs en"
  using assms
proof (induction vs arbitrary: k en)
  case Nil
  have "ParseValue [] = Inr None" by code_simp
  with Nil show ?case by (cases k) (simp_all add: encs_def)
next
  case (Cons v vs)
  from Cons.prems(3) obtain k' where k: "k = Suc k'" by (cases k) auto
  have e: "encs (v # vs) = EncodeValue (Some v) @ encs vs" by (simp add: encs_def)
  have w: "wf_value v" "list_all wf_value vs" using Cons.prems(1) by simp_all
  note g = Cons.prems(2) [unfolded e]
  have "0 < length (EncodeValue (Some v))" using resp.dec_bound [OF g resp.dec_enc [OF w(1) g]] by simp
  moreover have "length (encs (v # vs)) = length (EncodeValue (Some v)) + length (encs vs)" by (simp only: e length_append)
  ultimately have "length (encs vs) < k'" using Cons.prems(3) unfolding k by linarith
  with Cons.IH [OF w(2) go_slice_append(2) [OF g]] show ?case
    by (simp add: k e ParseValue_encoded [OF w(1) g] split: option.split)
qed

definition tx_conn :: "nat \<Rightarrow> engine \<Rightarrow> bool" where
  "tx_conn b en =
     (case enBackends en b of
        None \<Rightarrow> False
      | Some bc \<Rightarrow> list_all (\<lambda>(c, k). case k of RIgnore \<Rightarrow> True | RMulti _ _ \<Rightarrow> True | RExec _ \<Rightarrow> True | _ \<Rightarrow> False) (bcPending bc))"

lemma tx_conn_multiReply: "tx_conn b en \<Longrightarrow> tx_conn b (fst (multiReply c b qs i v en))"
proof -
  assume t: "tx_conn b en"
  then obtain bc where b: "enBackends en b = Some bc" by (auto simp: tx_conn_def split: option.splits)
  note q = sendQueue_simps [OF b, of c qs]
  note x = sendDed_simps(1) [OF conjunct1 [OF q], of c "RExec i" "[''EXEC'']"]
  from t show ?thesis
    by (auto simp: list_all_iff multiReply_def fst_andThen fillInLoop_backends tx_conn_def x b)
qed

lemma tx_conn_dedValue:
  assumes "tx_conn b en" "dedValue env b v en = Some (en', es)"
  shows "tx_conn b en'"
proof -
  from assms(1) obtain bc where b: "enBackends en b = Some bc" by (auto simp: tx_conn_def split: option.splits)
  show ?thesis
  proof (cases "bcPending bc")
    case Nil
    with assms b show ?thesis by (simp add: dedValue_def)
  next
    case (Cons k ks)
    obtain c r where k: "k = (c, r)" by (cases k)
    let ?en = "updBackend b (\<lambda>bc. bc\<lparr>bcPending := ks\<rparr>) en"
    have t: "tx_conn b ?en" using assms(1) b Cons by (simp add: tx_conn_def updBackend_def)
    from assms(2) have d: "respondTo env b (c, r) v ?en = Some (en', es)" using dedValue_pop [OF b Cons, of env v] k by simp
    from assms(1) b Cons k consider "r = RIgnore" | qs i where "r = RMulti qs i" | i where "r = RExec i"
      by (cases r) (simp_all add: tx_conn_def)
    then show ?thesis
    proof cases
      case 1 with t d show ?thesis by simp
    next
      case 2
      with d have "en' = fst (multiReply c b qs i v ?en)" by simp
      with tx_conn_multiReply [OF t] show ?thesis by simp
    next
      case 3
      with d have "enBackends en' = enBackends ?en"
        using fillInLoop_backends [of c i "EncodeValue (Some v)" ?en] by (auto simp: execReply_def andThen_def case_prod_unfold)
      with t show ?thesis by (simp add: tx_conn_def)
    qed
  qed
qed

lemma tx_conn_runs: "runs (dedValue env b) vs en = Some (en', es) \<Longrightarrow> tx_conn b en \<Longrightarrow> tx_conn b en'"
  by (induction vs arbitrary: en es) (auto elim!: runs_ConsE dest: tx_conn_dedValue simp del: runs.simps(2))

lemma tx_traffic:
  assumes "tx_conn b en" "\<forall>vs \<in> set vss. list_all wf_value vs \<and> go_slice (encs vs)"
  shows "runs (engineStep env) (map (\<lambda>vs. EvDedTraffic b (encs vs)) vss) en = runs (dedValue env b) (concat vss) en"
  using assms
proof (induction vss arbitrary: en)
  case (Cons vs vss)
  have "enBackends en b \<noteq> None" using Cons.prems(1) by (auto simp: tx_conn_def split: option.splits)
  then have s: "engineStep env (EvDedTraffic b (encs vs)) en = runs (dedValue env b) vs en"
    using dedTraffic_encs [of vs "Suc (length (encs vs))" env b en] Cons.prems(2) by (auto simp: onDedTraffic_def simp del: dedTraffic.simps)
  show ?case
  proof (cases "runs (dedValue env b) vs en")
    case None
    then show ?thesis by (simp add: runs_append s del: engineStep.simps)
  next
    case (Some r)
    obtain en1 es1 where r: "r = (en1, es1)" by (cases r)
    with Cons.IH [OF tx_conn_runs [OF Some [unfolded r] Cons.prems(1)]] Cons.prems(2) Some
    show ?thesis by (simp add: runs_append s del: engineStep.simps)
  qed
qed simp

text \<open>
  C7. The transaction is executed as a whole: once its connection is there, the proxy writes \<^verbatim>\<open>MULTI\<close> on
  it, after the reply the queued commands in their order and \<^verbatim>\<open>EXEC\<close>, and nothing else, then closes
  the connection. The client gets exactly the node's reply to \<^verbatim>\<open>EXEC\<close>, in the slot of the client's
  \<^verbatim>\<open>EXEC\<close>: the replies that say \<^verbatim>\<open>QUEUED\<close> do not reach it, however the node's replies are grouped in
  reads.
\<close>

theorem transaction_exchange:
  assumes "enClients en c \<noteq> None" "enBackends en b = Some bc" "bcPending bc = []" "cfgPassword (eeCfg env) = []"
    and "\<not> IsError ok" "length rs = length qs" "concat vss = ok # rs @ [v]"
    and "\<forall>vs \<in> set vss. list_all wf_value vs \<and> go_slice (encs vs)"
  shows "\<exists>en'. runs (engineStep env) (EvMultiDialed c b qs i # map (\<lambda>vs. EvDedTraffic b (encs vs)) vss) en =
      Some (en', [DedWrite b (EncodeCommandBytes [''MULTI''])] @
                 map (\<lambda>r. DedWrite b (EncodeCommandBytes (Args r))) qs @
                 [DedWrite b (EncodeCommandBytes [''EXEC'']), DedClose b] @
                 snd (fillInLoop c i (EncodeValue (Some v)) en)) \<and>
    enLoop en' = enLoop (fst (fillInLoop c i (EncodeValue (Some v)) en))"
proof -
  note s = sendDed_simps [OF assms(2), of c "RMulti qs i" "[''MULTI'']"]
  let ?en = "fst (sendDed c b (RMulti qs i) [''MULTI''] en)"
  have m: "engineStep env (EvMultiDialed c b qs i) en = Some (?en, [DedWrite b (EncodeCommandBytes [''MULTI''])])"
    using assms(1,4) s(3) by (simp add: onMultiDialed_def authDedicatedConn_def andThen_def case_prod_unfold)
  have p: "bcPending (bc\<lparr>bcPending := bcPending bc @ [(c, RMulti qs i)]\<rparr>) = [(c, RMulti qs i)]" using assms(3) by simp
  have t: "tx_conn b ?en" using s(1) p by (simp add: tx_conn_def)
  from multi_exchange [OF s(1) p assms(5,6), of env v] fillInLoop_loop [OF s(2), of c i "EncodeValue (Some v)"]
  show ?thesis using tx_traffic [OF t assms(8), of env] assms(7) m by (auto simp del: engineStep.simps)
qed

theorem transaction_exchange_witness:
  "\<exists>en'. runs (engineStep openEnv)
       [EvMultiDialed 7 9 [getFoo] 0, EvDedTraffic 9 (encs [SimpleV ''OK'']), EvDedTraffic 9 (encs [SimpleV ''QUEUED'', ArrayV [Some (BulkV ''v'')]])]
       (openEngine\<lparr>enBackends := [9 \<mapsto> (dedCtx 7 ''b:2'')\<lparr>bcIsMulti := True\<rparr>]\<rparr>) =
     Some (en', [DedWrite 9 (EncodeCommandBytes [''MULTI'']), DedWrite 9 (EncodeCommandBytes [''GET'', ''foo'']),
                 DedWrite 9 (EncodeCommandBytes [''EXEC'']), DedClose 9] @
                snd (fillInLoop 7 0 (EncodeValue (Some (ArrayV [Some (BulkV ''v'')])))
                  (openEngine\<lparr>enBackends := [9 \<mapsto> (dedCtx 7 ''b:2'')\<lparr>bcIsMulti := True\<rparr>]\<rparr>)))"
proof -
  let ?en = "openEngine\<lparr>enBackends := [9 \<mapsto> (dedCtx 7 ''b:2'')\<lparr>bcIsMulti := True\<rparr>]\<rparr>"
  let ?vss = "[[SimpleV ''OK''], [SimpleV ''QUEUED'', ArrayV [Some (BulkV ''v'')]]]"
  have i: "enClients ?en 7 \<noteq> None" "cfgPassword (eeCfg openEnv) = []" "\<not> IsError (SimpleV ''OK'')"
    by (simp_all add: openEngine_simps openEnv_def Default_def IsError_def value_defs)
  have "wf_value (SimpleV ''OK'')" "wf_value (SimpleV ''QUEUED'')" "wf_value (ArrayV (map Some [BulkV ''v'']))"
    by (rule wf_simple wf_array; simp add: wf_bulk maxAlloc_def)+
  moreover have "length (encs vs) \<le> 40" if "vs \<in> set ?vss" for vs
    using that by (auto simp: encs_def enc_simps EncodeSimpleString_def fmt_int_def fmt_nat.simps)
  ultimately have "\<forall>vs \<in> set ?vss. list_all wf_value vs \<and> go_slice (encs vs)"
    by (fastforce simp: go_slice_def maxAlloc_def)
  with i show ?thesis
    using transaction_exchange [of ?en 7 9 "(dedCtx 7 ''b:2'')\<lparr>bcIsMulti := True\<rparr>" openEnv "SimpleV ''OK''" "[SimpleV ''QUEUED'']" "[getFoo]" ?vss
        "ArrayV [Some (BulkV ''v'')]" 0]
    by (auto simp: getFoo_simps dedCtx_def simp del: runs.simps)
qed

end
