(* ===== verification/Engine_Roundtrip.thy ===== *)
theory Engine_Roundtrip
  imports Engine_Tx
begin

text \<open>
  The way of a pipeline through the proxy: from the bytes of a client through the request parser,
  the dispatch, the multiplexed connection to the node and, with the node's replies, through the
  scanner and the reply queue back to the client.
\<close>

section \<open>The read loops\<close>

text \<open>The fuel of the read loops is enough: any more of it gives the same result.\<close>

lemma clientLoop_fuel:
  "go_slice buf \<Longrightarrow> length buf < k \<Longrightarrow> length buf < k' \<Longrightarrow> clientLoop env c k buf en = clientLoop env c k' buf en"
proof (induction k arbitrary: buf en k')
  case (Suc k)
  from Suc.prems(3) obtain k1 where k': "k' = Suc k1" by (cases k') auto
  have "clientLoop env c k (drop n buf) en1 = clientLoop env c k1 (drop n buf) en1" if "ParseRequest buf = Inr (Some (r, n))" for r n en1
  proof -
    from that have "decodeRequest buf = Some (r, n)" by (simp only: decodeRequest_Some)
    from req.dec_bound [OF Suc.prems(1) this] have "0 < n" "n \<le> length buf" by simp_all
    with Suc.prems show ?thesis by (intro Suc.IH req.ok_drop) (simp_all add: k')
  qed
  then show ?case by (simp add: k' split: sum.split perr.split option.split prod.split)
qed simp

lemma dedTraffic_fuel:
  "go_slice buf \<Longrightarrow> length buf < k \<Longrightarrow> length buf < k' \<Longrightarrow> dedTraffic env b k buf en = dedTraffic env b k' buf en"
proof (induction k arbitrary: buf en k')
  case (Suc k)
  from Suc.prems(3) obtain k1 where k': "k' = Suc k1" by (cases k') auto
  have "dedTraffic env b k (drop n buf) en1 = dedTraffic env b k1 (drop n buf) en1" if "ParseValue buf = Inr (Some (v, n))" for v n en1
  proof -
    from that have "decodeValue buf = Some (v, n)" by (simp add: decodeValue_Some ParseValue_Some)
    from resp.dec_bound [OF Suc.prems(1) this] have "0 < n" "n \<le> length buf" by simp_all
    with Suc.prems show ?thesis by (intro Suc.IH resp.ok_drop) (simp_all add: k')
  qed
  then show ?case by (simp add: k' split: sum.split perr.split option.split prod.split)
qed simp


section \<open>Requests with a key\<close>

definition localNames :: "bytes set" where
  "localNames =
     {''PING'', ''ECHO'', ''SELECT'', ''READONLY'', ''READWRITE'', ''DISCARD'', ''EXEC'', ''QUIT'', ''RESET'', ''HELLO'', ''AUTH'',
      ''CLIENT'', ''INFO'', ''CLUSTER'', ''MULTI'', ''WATCH'', ''UNWATCH'', ''SUBSCRIBE'', ''PSUBSCRIBE'', ''EVAL'', ''EVALSHA'',
      ''EVAL_RO'', ''EVALSHA_RO'', ''PROXY'', ''BROADCAST''}"

text \<open>A well-formed request for one key that the node at \<open>addr\<close> serves.\<close>

definition keyed :: "Topology \<Rightarrow> bytes \<Rightarrow> Request \<Rightarrow> bool" where
  "keyed t addr req \<longleftrightarrow> wf_request req \<and> Cmd req \<notin> localNames \<and> \<not> isBlockingReq req \<and>
     (case GetFirstKeyAndInfo req of
        (Some key, Some info) \<Rightarrow>
          \<not> IsNotAllowed (Some info) \<and> \<not> IsAllNodes (Some info) \<and> \<not> IsMultiKey (Some info) \<and>
          map_option nAddr (GetNodeForSlot t (int (HashSlot key))) = Some addr
      | _ \<Rightarrow> False)"

definition serving :: "clientCtx \<Rightarrow> bool" where
  "serving cc \<longleftrightarrow> ccState cc = stateNormal \<and> ccAuthenticated cc \<and> ccPendingWatchReq cc = None"

lemma not_local:
  assumes "Cmd req \<notin> localNames"
  shows "simpleCmd c req en = None" "namedCmd env c req en = None"
proof -
  from assms have n: "Cmd req \<noteq> ''PING''" "Cmd req \<noteq> ''ECHO''" "Cmd req \<noteq> ''SELECT''" "Cmd req \<noteq> ''READONLY''" "Cmd req \<noteq> ''READWRITE''"
    "Cmd req \<noteq> ''DISCARD''" "Cmd req \<noteq> ''EXEC''" "Cmd req \<noteq> ''QUIT''" "Cmd req \<noteq> ''RESET''" "Cmd req \<noteq> ''HELLO''" "Cmd req \<noteq> ''AUTH''"
    "Cmd req \<noteq> ''CLIENT''" "Cmd req \<noteq> ''INFO''" "Cmd req \<noteq> ''CLUSTER''" "Cmd req \<noteq> ''MULTI''" "Cmd req \<noteq> ''WATCH''" "Cmd req \<noteq> ''UNWATCH''"
    "\<not> (Cmd req = ''SUBSCRIBE'' \<or> Cmd req = ''PSUBSCRIBE'')" "Cmd req \<notin> {''EVAL'', ''EVALSHA'', ''EVAL_RO'', ''EVALSHA_RO''}"
    "Cmd req \<noteq> ''PROXY''" "Cmd req \<noteq> ''BROADCAST''" unfolding localNames_def by blast+
  show "simpleCmd c req en = None" unfolding simpleCmd_def Let_def by (simp only: n if_False)
  show "namedCmd env c req en = None" unfolding namedCmd_def Let_def by (simp only: n if_False)
qed

lemma route_keyed:
  assumes "keyed (rtTopo (enRouter en)) addr req" "rtReadMode (enRouter en) = ReadModeMasterOnly"
  shows "routeToBackend env c req en = Some (sendOne env c addr req en)"
proof -
  from assms(1) obtain key info n where k: "GetFirstKeyAndInfo req = (Some key, Some info)" "\<not> IsNotAllowed (Some info)"
    "\<not> IsAllNodes (Some info)" "\<not> IsMultiKey (Some info)" "GetNodeForSlot (rtTopo (enRouter en)) (int (HashSlot key)) = Some n" "nAddr n = addr"
    by (auto simp: keyed_def split: prod.splits option.splits)
  then have "nodeAddrForSlot (enRouter en) (int (HashSlot key)) b = (Inr addr, enRouter en)" for b
    using assms(2) by (simp add: nodeAddrForSlot_def Let_def)
  with k show ?thesis by (simp add: routeToBackend_def Let_def)
qed

lemma dispatch_keyed:
  assumes "keyed (rtTopo (enRouter en)) addr req" "rtReadMode (enRouter en) = ReadModeMasterOnly" "enClients en c = Some cc" "serving cc"
  shows "dispatchClientRequest env c req en = Some (sendOne env c addr req (en\<lparr>enCmdCount := enCmdCount en + 1\<rparr>))"
proof -
  let ?n = "en\<lparr>enCmdCount := enCmdCount en + 1\<rparr>"
  have k: "Args req \<noteq> []" "Cmd req \<notin> localNames" "\<not> isBlockingReq req" using assms(1) by (auto simp: keyed_def wf_request_def)
  have s: "ccState cc = stateNormal" "ccAuthenticated cc" "ccPendingWatchReq cc = None" using assms(4) by (simp_all add: serving_def)
  have r: "routeToBackend env c req ?n = Some (sendOne env c addr req ?n)" using assms(1,2) by (intro route_keyed) simp_all
  have "handleNormal env c req ?n = routeToBackend env c req ?n"
    using s k(3) assms(3) not_local [OF k(2)] by (simp add: handleNormal_def cx_def)
  with r show ?thesis using s(1) k(1) assms(3) by (simp add: dispatchClientRequest_def cx_def)
qed


section \<open>Sending a pipeline\<close>

fun pendings :: "nat \<Rightarrow> int \<Rightarrow> Request list \<Rightarrow> pendingClientReq list" where
  "pendings c i [] = []"
| "pendings c i (r # rs) = muxReq c i r # pendings c (i + 1) rs"

lemma pendings_append: "pendings c i (rs @ [r]) = pendings c i rs @ [muxReq c (i + int (length rs)) r]"
  by (induction rs arbitrary: i) (simp_all add: ac_simps)

definition openSlots :: "nat \<Rightarrow> int \<Rightarrow> rqueue" where
  "openSlots n i = \<lparr>respQueue = replicate n \<lparr>rsReady = False, rsData = [], rsFanIn = None\<rparr>, respBase = i\<rparr>"

text \<open>
  The loop in which the requests \<open>rs\<close> of client \<open>c\<close> wait on the connection to \<open>addr\<close>, with the bytes
  \<open>buf\<close> not yet written and the replies \<open>acc\<close> collected.
\<close>

definition waiting :: "nat \<Rightarrow> bytes \<Rightarrow> int \<Rightarrow> Request list \<Rightarrow> bytes \<Rightarrow> bytes list \<Rightarrow> (bytes \<times> backendMuxConn) list \<Rightarrow> (bytes \<times> backendMuxConn) list \<Rightarrow> loopState \<Rightarrow> loopState" where
  "waiting c addr i rs buf acc xs ys ls =
     ls\<lparr>lsClients := (lsClients ls)(c \<mapsto> openSlots (length rs) i),
        lsConns := xs @ (addr, \<lparr>mcPending = pendings c i rs, mcWriteBuf = buf\<rparr>) # ys,
        lsAccum := (if acc = [] then [] else [(c, acc)])\<rparr>"

lemma update_mid: "addr \<notin> fst ` set xs \<Longrightarrow> AList.update addr v (xs @ (addr, w) # ys) = xs @ (addr, v) # ys"
  by (induction xs) auto

lemma map_of_mid: "addr \<notin> fst ` set xs \<Longrightarrow> map_of (xs @ (addr, w) # ys) addr = Some w"
  by (induction xs) auto

lemma send_mid:
  assumes "addr \<notin> fst ` set xs" "lsConns ls = xs @ (addr, bc) # ys"
  shows "send env addr p ls =
    (ls\<lparr>lsConns := xs @ (addr, bc\<lparr>mcPending := mcPending bc @ [p], mcWriteBuf := mcWriteBuf bc @ reqBytes p\<rparr>) # ys\<rparr>, [])"
  unfolding send_def assms(2) map_of_mid [OF assms(1)] option.case update_mid [OF assms(1)] ..

lemma send_waiting:
  assumes "addr \<notin> fst ` set xs" "wf_request r" "enLoop en = waiting c addr i rs buf [] xs ys ls"
  shows "sendOne env c addr r en = (en\<lparr>enLoop := waiting c addr i (rs @ [r]) (buf @ Raw r) [] xs ys ls\<rparr>, [], ActNone)"
proof -
  have "EncodeCommandBytes (Args r) \<noteq> []" by (simp add: enc_simps)
  then have "reqBytes (muxReq c j r) = Raw r" for j using assms(2) by (simp add: reqBytes_def rawBytes_def muxReq_def wf_request_def)
  moreover have "replicate n x @ [x] = x # replicate n x" for n and x :: responseSlot by (induction n) simp_all
  moreover have "lsConns (waiting c addr i rs buf [] xs ys ls\<lparr>lsClients := q\<rparr>) = xs @ (addr, \<lparr>mcPending = pendings c i rs, mcWriteBuf = buf\<rparr>) # ys" for q
    by (simp add: waiting_def)
  note send_mid [OF assms(1) this]
  ultimately show ?thesis
    using assms(3) 
    by (simp add: sendOne_def allocSlot_def queueOf_def setQueue_def allocResponseSlot_def sendMux_def onLoop_def finish_def)
      (simp add: waiting_def openSlots_def pendings_append)
qed

lemma clientLoop_keyed:
  assumes "\<forall>r \<in> set rs. keyed (rtTopo (enRouter en)) addr r" "rtReadMode (enRouter en) = ReadModeMasterOnly"
    and "enClients en c = Some cc" "serving cc" "addr \<notin> fst ` set xs" "enLoop en = waiting c addr i pre buf [] xs ys ls"
    and "go_slice (concat (map Raw rs))" "length (concat (map Raw rs)) < k"
  shows "clientLoop env c k (concat (map Raw rs)) en =
    Some (en\<lparr>enCmdCount := enCmdCount en + int (length rs),
             enLoop := waiting c addr i (pre @ rs) (buf @ concat (map Raw rs)) [] xs ys ls\<rparr>, [], ActNone, [])"
  using assms
proof (induction rs arbitrary: en pre buf k)
  case Nil
  then show ?case by (cases k) simp_all
next
  case (Cons r rs)
  from Cons.prems(8) obtain k' where k: "k = Suc k'" by (cases k) auto
  let ?rest = "concat (map Raw rs)"
  let ?en = "en\<lparr>enCmdCount := enCmdCount en + 1, enLoop := waiting c addr i (pre @ [r]) (buf @ Raw r) [] xs ys ls\<rparr>"
  have kd: "keyed (rtTopo (enRouter en)) addr r" and w: "wf_request r" using Cons.prems(1) by (auto simp: keyed_def)
  have g: "go_slice (Raw r @ ?rest)" using Cons.prems(7) by simp
  have p: "ParseRequest (Raw r @ ?rest) = Inr (Some (r, length (Raw r)))" using req.dec_enc [OF w g] by (simp only: decodeRequest_Some)
  have "0 < length (Raw r)" using req.dec_bound [OF g req.dec_enc [OF w g]] by simp
  moreover have "length (Raw r) + length ?rest < Suc k'" using Cons.prems(8) by (simp add: k)
  ultimately have l: "length ?rest < k'" and ne: "Raw r \<noteq> []" by (linarith, auto)
  have d: "dispatchClientRequest env c r en = Some (?en, [], ActNone)"
    using dispatch_keyed [OF kd Cons.prems(2-4), of env] send_waiting [OF Cons.prems(5) w, of "en\<lparr>enCmdCount := enCmdCount en + 1\<rparr>" c i pre buf ys ls env]
      Cons.prems(6) by simp
  have "clientLoop env c k' ?rest ?en = Some (?en\<lparr>enCmdCount := enCmdCount ?en + int (length rs),
      enLoop := waiting c addr i ((pre @ [r]) @ rs) ((buf @ Raw r) @ ?rest) [] xs ys ls\<rparr>, [], ActNone, [])"
    using Cons.prems by (intro Cons.IH) (simp_all add: go_slice_append(2) [OF g] l)
  then show ?case using ne by (simp add: k p d)
qed


section \<open>The replies\<close>

lemma ScanValue_encoded:
  assumes "wf_value v" "go_slice (EncodeValue (Some v) @ rest)"
  shows "ScanValue (EncodeValue (Some v) @ rest) = Inr (int (length (EncodeValue (Some v))), value_kind v, Error v)"
proof -
  let ?buf = "EncodeValue (Some v) @ rest"
  have p: "parseValueAt (Suc (length ?buf)) ?buf 0 = Inr (v, length (EncodeValue (Some v)))"
    using resp.dec_enc [OF assms] by (simp only: decodeValue_Some)
  have "0 < length (EncodeValue (Some v))" using resp.dec_bound [OF assms(2) resp.dec_enc [OF assms]] by simp
  then have "?buf \<noteq> []" by auto
  then have "scan_agrees (parseValueAt (Suc (length ?buf)) ?buf 0) (ScanValue ?buf)"
    using parseValueAt_scan [OF assms(2), of "Suc (length ?buf)" 0] by (simp add: ScanValue_def del: scanValueAt.simps)
  then show ?thesis unfolding p by (simp add: scan_agrees_def)
qed

text \<open>The reply to the oldest open slot is passed on at once.\<close>

lemma accumulate_first:
  "accumulateResponseSlot i d (openSlots (Suc n) i) = (openSlots n (i + 1), [d])"
proof -
  have "takeWhile rsReady (replicate n \<lparr>rsReady = False, rsData = [], rsFanIn = None\<rparr>) = []" for n by (cases n) simp_all
  then show ?thesis
    by (simp add: accumulateResponseSlot_def accumulateAt_def inQueue_def openSlots_def setReady_def readyHead_def popHead_def Let_def)
qed

lemma reply_waiting:
  assumes "addr \<notin> fst ` set xs" "kind \<noteq> ErrorKindMoved" "kind \<noteq> ErrorKindAsk"
  shows "handleReply env addr raw kind msg (waiting c addr i (r # rs) buf acc xs ys ls) =
    Some (waiting c addr (i + 1) rs buf (acc @ [raw]) xs ys ls, [Reply c i raw])"
proof -
  let ?ls = "waiting c addr i (r # rs) buf acc xs ys ls"
  let ?bc = "\<lparr>mcPending = muxReq c i r # pendings c (i + 1) rs, mcWriteBuf = buf\<rparr>"
  let ?ls' = "?ls\<lparr>lsConns := xs @ (addr, ?bc\<lparr>mcPending := pendings c (i + 1) rs\<rparr>) # ys\<rparr>"
  have c: "lsConns ?ls = xs @ (addr, ?bc) # ys" by (simp add: waiting_def)
  have "handleReply env addr raw kind msg ?ls = deliver (muxReq c i r) raw ?ls'"
    unfolding handleReply_def c map_of_mid [OF assms(1)]
    using assms(2,3) by (simp add: muxReq_def Let_def update_mid [OF assms(1)] split: option.split)
  also have "\<dots> = Some (waiting c addr (i + 1) rs buf (acc @ [raw]) xs ys ls, [Reply c i raw])"
    by (simp add: deliver_def muxReq_def waiting_def accumulate_first addAccum_def)
  finally show ?thesis .
qed

text \<open>The notes in the run that a reply was handed to the queue.\<close>

fun handed :: "nat \<Rightarrow> int \<Rightarrow> Value list \<Rightarrow> effect list" where
  "handed c i [] = []"
| "handed c i (v # vs) = Reply c i (EncodeValue (Some v)) # handed c (i + 1) vs"

definition direct :: "Value \<Rightarrow> bool" where
  "direct v \<longleftrightarrow> wf_value v \<and> value_kind v \<noteq> ErrorKindMoved \<and> value_kind v \<noteq> ErrorKindAsk"

lemma trafficLoop_waiting:
  assumes "addr \<notin> fst ` set xs" "list_all direct vs" "length vs = length rs" "buf = pre @ encs vs" "go_slice buf" "length (encs vs) < k"
  shows "trafficLoop env addr k buf (length pre) (waiting c addr i rs wb acc xs ys ls) =
    Some (waiting c addr (i + int (length vs)) [] wb (acc @ map (\<lambda>v. EncodeValue (Some v)) vs) xs ys ls, handed c i vs, length buf)"
  using assms(2-6)
proof (induction vs arbitrary: rs pre acc i k)
  case Nil
  then show ?case by (cases k) (simp_all add: encs_def)
next
  case (Cons v vs)
  from Cons.prems(5) obtain k' where k: "k = Suc k'" by (cases k) auto
  from Cons.prems(2) obtain r rs' where rs: "rs = r # rs'" "length vs = length rs'" by (cases rs) auto
  let ?e = "EncodeValue (Some v)"
  have e: "encs (v # vs) = ?e @ encs vs" by (simp add: encs_def)
  have w: "wf_value v" "value_kind v \<noteq> ErrorKindMoved" "value_kind v \<noteq> ErrorKindAsk" using Cons.prems(1) by (simp_all add: direct_def)
  have d: "drop (length pre) buf = ?e @ encs vs" using Cons.prems(3) by (simp add: e)
  have g: "go_slice (?e @ encs vs)" using Cons.prems(4) go_slice_append(2) [of pre] by (simp add: Cons.prems(3) e)
  have pos: "0 < length ?e" using resp.dec_bound [OF g resp.dec_enc [OF w(1) g]] by simp
  moreover have "length ?e + length (encs vs) < Suc k'" using Cons.prems(5) by (simp add: k e)
  ultimately have l: "length (encs vs) < k'" by linarith
  have b: "buf = (pre @ ?e) @ encs vs" using Cons.prems(3) by (simp add: e)
  have "trafficLoop env addr k' buf (length (pre @ ?e)) (waiting c addr (i + 1) rs' wb (acc @ [?e]) xs ys ls) =
    Some (waiting c addr (i + 1 + int (length vs)) [] wb ((acc @ [?e]) @ map (\<lambda>v. EncodeValue (Some v)) vs) xs ys ls, handed c (i + 1) vs, length buf)"
    using Cons.prems(1) by (intro Cons.IH [OF _ rs(2) b Cons.prems(4) l]) simp
  then show ?case
    using pos by (simp add: k d rs ScanValue_encoded [OF w(1) g] reply_waiting [OF assms(1) w(2,3)] ac_simps)
qed

section \<open>There and back\<close>

lemma vmap_id: "\<forall>p \<in> set al. mcWriteBuf (snd p) = [] \<Longrightarrow> vmap (\<lambda>bc. bc\<lparr>mcWriteBuf := []\<rparr>) al = al"
  by (induction al) (auto simp: vmap_def)

lemma no_writes:
  "\<forall>p \<in> set al. mcWriteBuf (snd p) = [] \<Longrightarrow>
   concat (map (\<lambda>(a, bc). if mcWriteBuf bc = [] then [] else [BackendWrite a (mcWriteBuf bc)]) al) = []"
  by (induction al) auto

lemma flush_waiting:
  assumes "\<forall>p \<in> set (xs @ ys). mcWriteBuf (snd p) = []"
  shows "flushBackendWrites (waiting c addr i rs buf acc xs ys ls) =
    (waiting c addr i rs [] acc xs ys ls, if buf = [] then [] else [BackendWrite addr buf])"
proof -
  have x: "\<forall>p \<in> set xs. mcWriteBuf (snd p) = []" "\<forall>p \<in> set ys. mcWriteBuf (snd p) = []" using assms by auto
  have v: "vmap f (xs @ p # ys) = vmap f xs @ (fst p, f (snd p)) # vmap f ys" for f :: "backendMuxConn \<Rightarrow> backendMuxConn" and p
    by (simp add: vmap_def case_prod_unfold)
  show ?thesis
    by (simp add: flushBackendWrites_def waiting_def v vmap_id [OF x(1)] vmap_id [OF x(2)] no_writes [OF x(1)] no_writes [OF x(2)] del: concat_eq_Nil_conv)
qed

lemma client_sends:
  assumes "enClients en c = Some cc" "serving cc" "rtReadMode (enRouter en) = ReadModeMasterOnly" "enCmdCount en = 0"
    and "addr \<notin> fst ` set xs" "\<forall>p \<in> set (xs @ ys). mcWriteBuf (snd p) = []" "enLoop en = waiting c addr i [] [] [] xs ys ls"
    and "rs \<noteq> []" "\<forall>r \<in> set rs. keyed (rtTopo (enRouter en)) addr r" "go_slice (concat (map Raw rs))"
  shows "onClientTraffic env c (concat (map Raw rs)) en =
    Some (en\<lparr>enLoop := waiting c addr i rs [] [] xs ys ls\<rparr>,
          [MuxEff (BackendWrite addr (concat (map Raw rs))), StatAdd (int (length rs))])"
proof -
  let ?b = "concat (map Raw rs)"
  note l = clientLoop_keyed [OF assms(9,3,1,2,5,7,10), of "Suc (length ?b)" env]
  obtain r where r: "r \<in> set rs" "wf_request r" using assms(8,9) by (cases rs) (auto simp: keyed_def)
  then have "Raw r \<noteq> []" by (simp add: wf_request_def enc_simps)
  with r(1) have "?b \<noteq> []" by auto
  moreover have "en\<lparr>enCmdCount := 0\<rparr> = en" using assms(4) by simp
  moreover have "0 < length rs" using assms(8) by simp
  ultimately show ?thesis
    using assms(1,4) by (simp add: onClientTraffic_def l onLoop_def flush_waiting [OF assms(6)] closing_def del: clientLoop.simps)
qed

lemma node_replies:
  assumes "addr \<notin> fst ` set xs" "\<forall>p \<in> set (xs @ ys). mcWriteBuf (snd p) = []" "enLoop en = waiting c addr i rs [] [] xs ys ls"
    and "vs \<noteq> []" "length vs = length rs" "list_all direct vs" "go_slice (encs vs)"
  shows "onMuxTraffic env addr (encs vs) en =
    Some (en\<lparr>enLoop := waiting c addr (i + int (length vs)) [] [] [] xs ys ls\<rparr>,
          map MuxEff (handed c i vs @ [ClientWrite c (map (\<lambda>v. EncodeValue (Some v)) vs)]))"
proof -
  let ?vs = "map (\<lambda>v. EncodeValue (Some v)) vs"
  have t: "trafficLoop (menvOf env en) addr (Suc (length (encs vs))) (encs vs) 0 (waiting c addr i rs [] [] xs ys ls) =
      Some (waiting c addr (i + int (length vs)) [] [] ?vs xs ys ls, handed c i vs, length (encs vs))"
    using trafficLoop_waiting [OF assms(1,6,5), of "encs vs" "[]" "Suc (length (encs vs))" "menvOf env en" c i "[]" "[]" ys ls] assms(7) by simp
  obtain v us where v: "vs = v # us" using assms(4) by (cases vs) auto
  have g: "go_slice (EncodeValue (Some v) @ encs us)" using assms(7) by (simp add: v encs_def)
  have "wf_value v" using assms(6) by (simp add: v direct_def)
  from resp.dec_bound [OF g resp.dec_enc [OF this g]] have "EncodeValue (Some v) \<noteq> []" by auto
  then have ne: "encs vs \<noteq> []" by (simp add: v encs_def)
  have c: "map_of (lsConns (waiting c addr i rs [] [] xs ys ls)) addr \<noteq> None"
    by (simp add: waiting_def map_of_mid [OF assms(1)] del: map_of_append)
  have f: "flushWriteAccum (waiting c addr j [] [] ?vs xs ys ls) = (waiting c addr j [] [] [] xs ys ls, [ClientWrite c ?vs])" for j
    using assms(4) by (simp add: flushWriteAccum_def waiting_def)
  show ?thesis
    using ne c by (simp add: onMuxTraffic_def onTraffic_def assms(3) t f flush_waiting [OF assms(2)] del: trafficLoop.simps)
qed

text \<open>
  C3. A pipeline goes through the proxy and back: when an authenticated client sends requests for keys
  that one node serves, in one read, and the connection to the node is open and idle, the requests
  are written to the node in one piece, as they are and in their order; when the node has replied,
  the client gets the replies as they are, in the order of its requests, in one write. Then the
  connection and the client's queue are as before, ready for the next pipeline.
\<close>

theorem pipeline_roundtrip:
  assumes "enClients en c = Some cc" "serving cc" "rtReadMode (enRouter en) = ReadModeMasterOnly" "enCmdCount en = 0"
    and "lsConns (enLoop en) = xs @ (addr, \<lparr>mcPending = [], mcWriteBuf = []\<rparr>) # ys" "addr \<notin> fst ` set xs"
    and "\<forall>p \<in> set (xs @ ys). mcWriteBuf (snd p) = []" "lsAccum (enLoop en) = []"
    and "lsClients (enLoop en) c = Some \<lparr>respQueue = [], respBase = i\<rparr>"
    and "rs \<noteq> []" "\<forall>r \<in> set rs. keyed (rtTopo (enRouter en)) addr r" "go_slice (concat (map Raw rs))"
    and "length vs = length rs" "list_all direct vs" "go_slice (encs vs)"
  shows "runs (engineStep env) [EvClientTraffic c (concat (map Raw rs)), EvMuxTraffic addr (encs vs)] en =
    Some (setQueue c \<lparr>respQueue = [], respBase = i + int (length rs)\<rparr> en,
          [MuxEff (BackendWrite addr (concat (map Raw rs))), StatAdd (int (length rs))] @
          map MuxEff (handed c i vs) @ [MuxEff (ClientWrite c (map (\<lambda>v. EncodeValue (Some v)) vs))])"
proof -
  have w: "waiting c addr j [] [] [] xs ys (enLoop en) = (enLoop en)\<lparr>lsClients := (lsClients (enLoop en))(c \<mapsto> \<lparr>respQueue = [], respBase = j\<rparr>)\<rparr>" for j
    using assms(5,8) by (simp add: waiting_def openSlots_def)
  have l: "enLoop en = waiting c addr i [] [] [] xs ys (enLoop en)" using assms(9) by (simp add: w fun_upd_idem)
  have v: "vs \<noteq> []" using assms(10,13) by auto
  note s = client_sends [OF assms(1-4,6,7) l assms(10-12), of env]
  let ?en = "en\<lparr>enLoop := waiting c addr i rs [] [] xs ys (enLoop en)\<rparr>"
  have "onMuxTraffic env addr (encs vs) ?en = Some (?en\<lparr>enLoop := waiting c addr (i + int (length vs)) [] [] [] xs ys (enLoop en)\<rparr>,
          map MuxEff (handed c i vs @ [ClientWrite c (map (\<lambda>v. EncodeValue (Some v)) vs)]))"
    by (rule node_replies [OF assms(6,7) _ v assms(13-15)]) simp
  then show ?thesis by (simp add: s w setQueue_def assms(13))
qed

definition connected :: engine where
  "connected = openEngine\<lparr>enLoop := (enLoop openEngine)\<lparr>lsConns := [(''b:2'', \<lparr>mcPending = [], mcWriteBuf = []\<rparr>)]\<rparr>\<rparr>"

lemma connected_simps:
  "enClients connected 7 = Some (newClientCtx openEnv 1)" "rtReadMode (enRouter connected) = ReadModeMasterOnly" "enCmdCount connected = 0"
  "lsConns (enLoop connected) = [(''b:2'', \<lparr>mcPending = [], mcWriteBuf = []\<rparr>)]" "lsAccum (enLoop connected) = []"
  "lsClients (enLoop connected) 7 = Some \<lparr>respQueue = [], respBase = 0\<rparr>" "rtTopo (enRouter connected) = twoNodes"
proof -
  have "enMaxClients (newEngine openEnv r) = 0" for r by (simp add: newEngine_def openEnv_def Default_def)
  note o = onClientOpen_unlimited [OF this, of openEnv 7]
  show "enClients connected 7 = Some (newClientCtx openEnv 1)" "lsConns (enLoop connected) = [(''b:2'', \<lparr>mcPending = [], mcWriteBuf = []\<rparr>)]"
    "lsClients (enLoop connected) 7 = Some \<lparr>respQueue = [], respBase = 0\<rparr>" "rtTopo (enRouter connected) = twoNodes"
    by (simp_all add: connected_def openEngine_simps newQueue_def)
  show "rtReadMode (enRouter connected) = ReadModeMasterOnly" "enCmdCount connected = 0" "lsAccum (enLoop connected) = []"
    unfolding connected_def openEngine_def o by (simp_all add: setQueue_def newEngine_def newBackendMux_def NewRouter_def)
qed

lemma sample_requests:
  "keyed twoNodes ''b:2'' (request_of [''GET'', ''foo''])" "keyed twoNodes ''b:2'' (request_of [''SET'', ''foo'', ''v''])"
proof -
  have u: "to_upper ''GET'' = ''GET''" "to_upper ''SET'' = ''SET''" by code_simp+
  have n: "map_option nAddr (GetNodeForSlot twoNodes (int (HashSlot ''foo''))) = Some ''b:2''"
    by (simp add: HashSlot_foo GetNodeForSlot_def GetNodeByAddr_def twoNodes_def ClusterSlots_def Let_def)
  have i: "IsNotAllowed (GetCmdInfo c) = False" "IsAllNodes (GetCmdInfo c) = False" "IsMultiKey (GetCmdInfo c) = False"
    "map_option (FirstKey \<circ> ciKeySpec) (GetCmdInfo c) = Some 1" "IsBlocking (GetCmdInfo c) = False" "c \<noteq> ''XREAD''" if "c \<in> {''GET'', ''SET''}" for c
    using that by (elim insertE emptyE; hypsubst; code_simp)+
  show "keyed twoNodes ''b:2'' (request_of [''GET'', ''foo''])"
    using u n i [of "''GET''"]
    by (auto simp: keyed_def request_of_def wf_request_def maxAlloc_def localNames_def isBlockingReq_def IsBlockingXREAD_def GetFirstKeyAndInfo_def Let_def)
  show "keyed twoNodes ''b:2'' (request_of [''SET'', ''foo'', ''v''])"
    using u n i [of "''SET''"]
    by (auto simp: keyed_def request_of_def wf_request_def maxAlloc_def localNames_def isBlockingReq_def IsBlockingXREAD_def GetFirstKeyAndInfo_def Let_def)
qed

theorem pipeline_roundtrip_witness:
  "runs (engineStep openEnv)
     [EvClientTraffic 7 (EncodeCommandBytes [''SET'', ''foo'', ''v''] @ EncodeCommandBytes [''GET'', ''foo'']), EvMuxTraffic ''b:2'' (encs [SimpleV ''OK'', BulkV ''v''])]
     connected =
   Some (setQueue 7 \<lparr>respQueue = [], respBase = 2\<rparr> connected,
     [MuxEff (BackendWrite ''b:2'' (EncodeCommandBytes [''SET'', ''foo'', ''v''] @ EncodeCommandBytes [''GET'', ''foo''])), StatAdd 2,
      MuxEff (Reply 7 0 (EncodeValue (Some (SimpleV ''OK'')))), MuxEff (Reply 7 1 (EncodeValue (Some (BulkV ''v'')))),
      MuxEff (ClientWrite 7 [EncodeValue (Some (SimpleV ''OK'')), EncodeValue (Some (BulkV ''v''))])])"
proof -
  let ?rs = "[request_of [''SET'', ''foo'', ''v''], request_of [''GET'', ''foo'']]" and ?vs = "[SimpleV ''OK'', BulkV ''v'']"
  have "to_upper ''GET'' = ''GET''" "to_upper ''SET'' = ''SET''" by code_simp+
  then have raw: "Raw (request_of [''SET'', ''foo'', ''v'']) = EncodeCommandBytes [''SET'', ''foo'', ''v'']" "Raw (request_of [''GET'', ''foo'']) = EncodeCommandBytes [''GET'', ''foo'']"
    by (simp_all add: request_of_def Let_def)
  have "length (concat (map Raw ?rs)) \<le> 100" "length (encs ?vs) \<le> 100"
    by (simp_all add: raw encs_def enc_simps EncodeSimpleString_def fmt_int_def fmt_nat.simps)
  then have g: "go_slice (concat (map Raw ?rs))" "go_slice (encs ?vs)" by (simp_all add: go_slice_def maxAlloc_def)
  have d: "list_all direct ?vs" using wf_simple [of "''OK''"] wf_bulk by (simp add: direct_def)
  have s: "serving (newClientCtx openEnv 1)" by (simp add: serving_def openClient_simps)
  have k: "\<forall>r \<in> set ?rs. keyed (rtTopo (enRouter connected)) ''b:2'' r" using sample_requests by (simp add: connected_simps)
  from pipeline_roundtrip [OF connected_simps(1) s connected_simps(2,3), of "[]" "''b:2''" "[]" 0 ?rs ?vs openEnv] k g d
  show ?thesis by (simp add: connected_simps raw del: runs.simps)
qed

end
