(* ===== verification/Engine_Limits.thy ===== *)
theory Engine_Limits
  imports Engine_Roundtrip
begin

text \<open>
  Behaviours of the event loop at its edges that differ from what the code intends, as lemmas about
  the handlers.
\<close>

text \<open>A client that was turned away was not counted, but its leaving is: the limit of clients drifts.\<close>

lemma rejected_client_uncounted:
  assumes "0 < enMaxClients en" "enMaxClients en \<le> enNumClients en" "enClients en c = None"
  shows "runs (engineStep env) [EvClientOpen c, EvClientClose c] en =
    Some (en\<lparr>enNumClients := enNumClients en - 1\<rparr>,
          [writeTo c (EncodeError ''ERR max number of clients reached''), CloseClient c, StatDec])"
  using assms by (simp add: onClientOpen_def onClientClose_def)

text \<open>An \<^verbatim>\<open>EXEC\<close> without commands is answered at once, before replies that are still owed.\<close>

lemma empty_exec_overtakes:
  assumes "ccState (cx en c) = stateMulti" "ccTxQueue (cx en c) = []" "\<not> ccTxErr (cx en c)"
  shows "execMulti env c en = (updClient c endTx en, [writeTo c (EncodeValue (Some (ArrayV [])))], ActNone)"
  using assms by (simp add: execMulti_def Let_def)

text \<open>A successful \<^verbatim>\<open>AUTH\<close> option of \<^verbatim>\<open>HELLO\<close> has a reply of its own: the client gets two replies.\<close>

lemma hello_auth_two_replies:
  assumes "cfgClientPassword (eeCfg env) = pw" "pw \<noteq> []" "respQueue (queueOf en c) = []" "enClients en c = Some cc"
  shows "fst (snd (handleHELLO env c [''HELLO'', ''2'', ''AUTH'', u, pw] en)) =
    [writeTo c (EncodeSimpleString ''OK''), writeTo c (helloReply (ccId cc))]"
proof -
  have "to_upper ''AUTH'' = ''AUTH''" by code_simp
  then show ?thesis
    using assms by (simp add: handleHELLO_def handleAUTH_def reply_def writeImmediate_def queueOf_def updClient_def cx_def)
qed

text \<open>The reply to \<^verbatim>\<open>WATCH\<close> puts the client back into the watching state, even after a \<^verbatim>\<open>MULTI\<close> in between.\<close>

lemma fillInLoop_clients: "enClients (fst (fillInLoop c i d en)) = enClients en"
  by (simp add: fillInLoop_def setQueue_def case_prod_unfold split: option.split)

lemma watch_reply_ends_multi:
  assumes "enClients en c = Some cc" "\<not> IsError v"
  shows "map_option ccState (enClients (fst (watchAgainReply c i v en)) c) = Some stateWatch"
  using assms by (simp add: watchAgainReply_def fillInLoop_clients enClients_updClient)

text \<open>
  When the node refuses the password on the connection of a blocking command, the error goes to
  the slot of the last \<^verbatim>\<open>WATCH\<close>, and the client stays blocked.
\<close>

lemma blocking_auth_failure_stuck:
  assumes "IsError v" "enClients en c = Some cc" "enBackends en b = Some bc" "\<not> bcIsSub bc" "ccState cc = stateBlocking"
  shows "authReply c b v en = fillInLoop c (ccPendingWatchSlot cc) (EncodeError (''ERR backend auth failed: '' @ Error v)) en"
    and "map_option ccState (enClients (fst (authReply c b v en)) c) = Some stateBlocking"
  using assms by (simp_all add: authReply_def fillInLoop_clients Let_def)

text \<open>A number of keys close to the largest integer wraps around and the slice of the keys panics.\<close>

lemma extractBlockingKeys_panics:
  "extractBlockingKeys \<lparr>Args = [''BLMPOP'', ''0'', ''9223372036854775807'', ''k'', ''LEFT''], Raw = [], Cmd = ''BLMPOP''\<rparr> = None"
proof -
  have "fmt_int 9223372036854775807 = ''9223372036854775807''" by (simp add: fmt_int_def fmt_nat.simps)
  then have "parse_int64 ''9223372036854775807'' = Some 9223372036854775807"
    using parse_int64_fmt_int [of 9223372036854775807] by (simp add: in_int64_def)
  moreover have "wrap64 (3 + 9223372036854775807) = - 9223372036854775806" by (simp add: wrap64_def)
  ultimately show ?thesis by (simp add: extractBlockingKeys_def Let_def)
qed

text \<open>\<^verbatim>\<open>RESET\<close> of a blocked client makes it normal again while the slot of the blocking command stays unanswered.\<close>

lemma reset_keeps_slots:
  "lsClients (enLoop (fst (resetClientState c en))) = lsClients (enLoop en)"
  by (simp add: resetClientState_def case_prod_unfold updClient_def Let_def)

end
