(* ===== verification/Server.thy ===== *)
theory Server
  imports Topology_Correct Router Pool Pipe
begin

text \<open>
  The program around the proxy: \<^verbatim>\<open>src/cmd/pluster/main.go\<close>, which makes the configuration from the
  command line and the configuration file, and \<^verbatim>\<open>src/pkg/server/server.go\<close>, which builds the parts,
  starts and stops them and removes the connection pools of nodes that left the cluster. Sockets,
  signals and the event loop library are parameters: what the operating system answers.
\<close>

section \<open>The command line\<close>

text \<open>The flags with their values, and the names of those that were given.\<close>

record flags =
  flPort :: int
  flBind :: bytes
  flPassword :: bytes
  flUsername :: bytes
  flPoolSize :: int
  flConfig :: bytes
  flLogLevel :: bytes
  flVersion :: bool
  flVisited :: "bytes list"

definition defaultFlags :: flags where
  "defaultFlags =
     \<lparr>flPort = 7777, flBind = ''0.0.0.0'', flPassword = [], flUsername = [], flPoolSize = 10, flConfig = [],
      flLogLevel = ''info'', flVersion = False, flVisited = []\<rparr>"

definition overrideFlag :: "flags \<Rightarrow> bytes \<Rightarrow> Config \<Rightarrow> Config" where
  "overrideFlag fl name cfg =
     (if name = ''port'' then cfg\<lparr>cfgPort := flPort fl\<rparr>
      else if name = ''bind'' then cfg\<lparr>cfgBind := flBind fl\<rparr>
      else if name = ''auth'' then cfg\<lparr>cfgPassword := flPassword fl\<rparr>
      else if name = ''auth-user'' then cfg\<lparr>cfgUsername := flUsername fl\<rparr>
      else if name = ''pool-size'' then cfg\<lparr>cfgPoolSize := flPoolSize fl\<rparr>
      else if name = ''log-level'' then cfg\<lparr>cfgLogLevel := flLogLevel fl\<rparr>
      else cfg)"

definition overrideFromFlags :: "flags \<Rightarrow> Config \<Rightarrow> Config" where
  "overrideFromFlags fl cfg = fold (overrideFlag fl) (flVisited fl) cfg"

datatype Level = LevelDebug | LevelInfo | LevelWarn | LevelError

definition initLogger :: "bytes \<Rightarrow> Level" where
  "initLogger level =
     (let l = to_lower level in
      if l = ''debug'' then LevelDebug
      else if l = ''warn'' \<or> l = ''warning'' then LevelWarn
      else if l = ''error'' then LevelError
      else LevelInfo)"

datatype startup = PrintVersion | LoadFailed cerr | PrintUsage | RunWith Config

definition mainConfig :: "(bytes \<Rightarrow> int option) \<Rightarrow> (bytes \<Rightarrow> bytes option) \<Rightarrow> flags \<Rightarrow> bytes list \<Rightarrow> startup" where
  "mainConfig parseDuration files fl args =
     (if flVersion fl then PrintVersion
      else if flConfig fl \<noteq> [] then
        (case Load parseDuration (files (flConfig fl)) of
           Inl e \<Rightarrow> LoadFailed e
         | Inr cfg \<Rightarrow> RunWith (overrideFromFlags fl cfg))
      else if args = [] then PrintUsage
      else RunWith ((FromArgs args [WithPort (flPort fl), WithPassword (flUsername fl) (flPassword fl), WithPoolSize (flPoolSize fl)])
                      \<lparr>cfgBind := flBind fl, cfgLogLevel := flLogLevel fl\<rparr>))"


section \<open>The server\<close>

text \<open>
  The topology is one object that the manager and the router hold; the router's is the current one.
\<close>

record Server =
  svCfg :: Config
  svTopoMgr :: Manager
  svPoolMgr :: PoolManager
  svPipeMgr :: PipelinedManager
  svRouter :: "unit Router"
  svAddr :: bytes
  svStopped :: bool

text \<open>\<^verbatim>\<open>New\<close>; the parameter is the error of making the handler, which starts a pool of goroutines.\<close>

definition NewServer :: "bytes option \<Rightarrow> Config \<Rightarrow> bytes + Server" where
  "NewServer handlerErr cfg =
     (if cfgEntryPoints cfg = [] then Inl ''no cluster entry points configured''
      else (let topoMgr = NewManager (cfgEntryPoints cfg) (cfgUsername cfg) (cfgPassword cfg);
                poolMgr = NewPoolManager (cfgUsername cfg) (cfgPassword cfg) (cfgPoolSize cfg);
                pipeMgr = NewPipelinedManager (pmUsername poolMgr) (pmPassword poolMgr) 16;
                r = SetReadMode (cfgReadMode cfg) (SetTopoRefresher (NewRouter (LoadTopo topoMgr) ()))
            in case handlerErr of
                 Some e \<Rightarrow> Inl (''create proxy handler: '' @ e)
               | None \<Rightarrow> Inr \<lparr>svCfg = cfg, svTopoMgr = topoMgr, svPoolMgr = poolMgr, svPipeMgr = pipeMgr, svRouter = r,
                              svAddr = [], svStopped = False\<rparr>))"

text \<open>The hook for nodes that left the cluster; the pools in the results are closed.\<close>

fun nodeRemovedHook :: "bytes list \<Rightarrow> Server \<Rightarrow> Server \<times> Pool list \<times> PipelinedPool list" where
  "nodeRemovedHook [] sv = (sv, [], [])"
| "nodeRemovedHook (addr # addrs) sv =
     (case RemovePool addr (pmReg (svPoolMgr sv)) of (reg, ps) \<Rightarrow>
      (case RemovePool addr (plmReg (svPipeMgr sv)) of (preg, pps) \<Rightarrow>
       (case nodeRemovedHook addrs
               (sv\<lparr>svPoolMgr := (svPoolMgr sv)\<lparr>pmReg := reg\<rparr>, svPipeMgr := (svPipeMgr sv)\<lparr>plmReg := preg\<rparr>\<rparr>) of
          (sv', ps', pps') \<Rightarrow> (sv', ps @ ps', pps @ pps'))))"

definition managerOf :: "Server \<Rightarrow> Manager" where
  "managerOf sv = (svTopoMgr sv)\<lparr>mgrTopo := rtTopo (svRouter sv)\<rparr>"

definition shareTopo :: "Manager \<Rightarrow> Server \<Rightarrow> Server" where
  "shareTopo m sv = sv\<lparr>svTopoMgr := m, svRouter := (svRouter sv)\<lparr>rtTopo := mgrTopo m\<rparr>\<rparr>"

text \<open>A round of the refresh loop in the running server.\<close>

definition serverRefresh :: "tenv \<Rightarrow> bool \<Rightarrow> Server \<Rightarrow> (Server \<times> Pool list \<times> PipelinedPool list) option" where
  "serverRefresh e tick sv =
     (case refreshRound e tick (managerOf sv) of
        None \<Rightarrow> None
      | Some (m, removed) \<Rightarrow> Some (nodeRemovedHook removed (shareTopo m sv)))"

definition numLoops :: "int \<Rightarrow> int \<Rightarrow> int" where
  "numLoops workers numCPU = (if workers \<le> 0 then (if numCPU > 8 then 8 else numCPU) else workers)"

datatype startErr = TopologyInit "terr list" | Listen bytes bytes | RunFailed bytes

text \<open>
  What \<^verbatim>\<open>Start\<close> meets: the network of the first refresh, the result of listening on an address, the
  number of processors, and an error of the event loops before they have booted.
\<close>

record startEnv =
  seNet :: tenv
  seListen :: "bytes \<Rightarrow> bytes + bytes"
  seNumCPU :: int
  seRunErr :: "bytes option"

definition serverStart :: "startEnv \<Rightarrow> Server \<Rightarrow> ((startErr + int) \<times> Server) option" where
  "serverStart e sv =
     (case Start (seNet e) (managerOf sv) of
        None \<Rightarrow> None
      | Some (Inl errs) \<Rightarrow> Some (Inl (TopologyInit errs), shareTopo ((managerOf sv)\<lparr>started := True\<rparr>) sv)
      | Some (Inr (m, removed)) \<Rightarrow>
         (let sv1 = fst (nodeRemovedHook removed (shareTopo m sv)); addr = Addr (svCfg sv) in
          case seListen e addr of
            Inl err \<Rightarrow> Some (Inl (Listen addr err), sv1)
          | Inr bound \<Rightarrow>
             (let sv2 = sv1\<lparr>svAddr := bound\<rparr> in
              case seRunErr e of
                Some err \<Rightarrow> Some (Inl (RunFailed err), sv2)
              | None \<Rightarrow> Some (Inr (numLoops (cfgWorkers (svCfg sv)) (seNumCPU e)), sv2))))"

text \<open>\<^verbatim>\<open>Stop\<close>: the pools in the result are closed; a second call closes a closed channel, which panics.\<close>

definition serverStop :: "Server \<Rightarrow> (Server \<times> PipelinedPool list \<times> Pool list) option" where
  "serverStop sv0 =
     (let sv = sv0\<lparr>svStopped := True\<rparr>;
          (preg, pps) = closeAll (plmReg (svPipeMgr sv));
          (reg, ps) = closeAll (pmReg (svPoolMgr sv))
      in case Stop (svTopoMgr sv) of
           None \<Rightarrow> None
         | Some m \<Rightarrow> Some (sv\<lparr>svPipeMgr := (svPipeMgr sv)\<lparr>plmReg := preg\<rparr>, svTopoMgr := m,
                              svPoolMgr := (svPoolMgr sv)\<lparr>pmReg := reg\<rparr>\<rparr>, pps, ps))"

definition serverAddr :: "Server \<Rightarrow> bytes" where
  "serverAddr sv = (if svAddr sv \<noteq> [] then svAddr sv else Addr (svCfg sv))"


section \<open>Start-up\<close>

text \<open>A flag that was given wins over the configuration file, the other options are as in the file.\<close>

lemma fold_overrideFlag:
  "cfgPort (fold (overrideFlag fl) names cfg) = (if ''port'' \<in> set names then flPort fl else cfgPort cfg)"
  "cfgBind (fold (overrideFlag fl) names cfg) = (if ''bind'' \<in> set names then flBind fl else cfgBind cfg)"
  "cfgPassword (fold (overrideFlag fl) names cfg) = (if ''auth'' \<in> set names then flPassword fl else cfgPassword cfg)"
  "cfgUsername (fold (overrideFlag fl) names cfg) = (if ''auth-user'' \<in> set names then flUsername fl else cfgUsername cfg)"
  "cfgPoolSize (fold (overrideFlag fl) names cfg) = (if ''pool-size'' \<in> set names then flPoolSize fl else cfgPoolSize cfg)"
  "cfgLogLevel (fold (overrideFlag fl) names cfg) = (if ''log-level'' \<in> set names then flLogLevel fl else cfgLogLevel cfg)"
  "cfgEntryPoints (fold (overrideFlag fl) names cfg) = cfgEntryPoints cfg"
  "cfgClientPassword (fold (overrideFlag fl) names cfg) = cfgClientPassword cfg"
  by (induction names arbitrary: cfg) (auto simp: overrideFlag_def)

lemmas overrideFromFlags_fields = fold_overrideFlag [where fl = fl and names = "flVisited fl" for fl, folded overrideFromFlags_def]

text \<open>\<^verbatim>\<open>main\<close> never asks for a server without entry points.\<close>

lemma main_has_entryPoints: "mainConfig p files fl args = RunWith cfg \<Longrightarrow> cfgEntryPoints cfg \<noteq> []"
  by (auto simp: mainConfig_def Load_def FromArgs_def WithPort_def WithPassword_def WithPoolSize_def overrideFromFlags_fields
      split: if_splits option.splits sum.splits)

lemma main_server_made: "mainConfig p files fl args = RunWith cfg \<Longrightarrow> \<exists>sv. NewServer None cfg = Inr sv \<and> svCfg sv = cfg"
  by (simp add: NewServer_def main_has_entryPoints Let_def)

text \<open>A start that failed leaves the manager marked as started: the next one succeeds without a topology.\<close>

lemma start_retry_unloaded:
  assumes "Start (seNet e) (managerOf sv) = Some (Inl errs)" "\<not> started (svTopoMgr sv)" "serverStart e sv = Some (r, sv')"
  shows "Start e' (managerOf sv') = Some (Inr (managerOf sv', []))" "mgrTopo (managerOf sv') = mgrTopo (managerOf sv)"
  using assms by (auto simp: serverStart_def shareTopo_def managerOf_def Start_def)


section \<open>Pools follow the topology\<close>

lemma map_of_RemovePool:
  "map_of (fst (RemovePool addr reg)) = (map_of reg)(addr := None, addr @ roSuffix := None)"
  by (auto simp: RemovePool_def remove_def fun_eq_iff split: option.split)

text \<open>The keys of the pools of an address.\<close>

definition poolKeys :: "bytes set \<Rightarrow> bytes set" where
  "poolKeys addrs = addrs \<union> (\<lambda>a. a @ roSuffix) ` addrs"

lemma hook_pools:
  "nodeRemovedHook addrs sv = (sv', ps, pps) \<Longrightarrow>
   map_of (pmReg (svPoolMgr sv')) key = (if key \<in> poolKeys (set addrs) then None else map_of (pmReg (svPoolMgr sv)) key) \<and>
   map_of (plmReg (svPipeMgr sv')) key = (if key \<in> poolKeys (set addrs) then None else map_of (plmReg (svPipeMgr sv)) key) \<and>
   svTopoMgr sv' = svTopoMgr sv \<and> svRouter sv' = svRouter sv"
proof (induction addrs arbitrary: sv ps pps)
  case Nil
  then show ?case by (simp add: poolKeys_def)
next
  case (Cons addr addrs)
  let ?reg = "fst (RemovePool addr (pmReg (svPoolMgr sv)))" and ?preg = "fst (RemovePool addr (plmReg (svPipeMgr sv)))"
  let ?sv = "sv\<lparr>svPoolMgr := (svPoolMgr sv)\<lparr>pmReg := ?reg\<rparr>, svPipeMgr := (svPipeMgr sv)\<lparr>plmReg := ?preg\<rparr>\<rparr>"
  from Cons.prems obtain ps' pps' where h: "nodeRemovedHook addrs ?sv = (sv', ps', pps')" by (auto split: prod.splits)
  have "map_of (pmReg (svPoolMgr sv')) key = (if key \<in> poolKeys (set addrs) then None else map_of ?reg key) \<and>
      map_of (plmReg (svPipeMgr sv')) key = (if key \<in> poolKeys (set addrs) then None else map_of ?preg key) \<and>
      svTopoMgr sv' = svTopoMgr sv \<and> svRouter sv' = svRouter sv"
    using Cons.IH [OF h] by simp
  then show ?case by (auto simp: map_of_RemovePool poolKeys_def)
qed

text \<open>The nodes that a round reports as gone are those that the new topology lacks.\<close>

lemma refreshAll_Inr: "refreshAll e eps m errs = Some (Inr r) \<Longrightarrow> \<exists>ep \<in> set eps. refreshFrom e m ep = Some (Inr r)"
  by (induction eps arbitrary: errs) (auto split: option.splits sum.splits)

definition nodeAddrs :: "Topology \<Rightarrow> bytes set" where
  "nodeAddrs t = fst ` set (snNodes (tSnap t))"

lemma refreshRound_removed:
  assumes "refreshRound e tick m = Some (m', removed)" "\<And>i. map_iter (envOrd e i)"
    and "snFingerprint (tSnap (mgrTopo m')) \<noteq> snFingerprint (tSnap (mgrTopo m))"
  shows "set removed = nodeAddrs (mgrTopo m) - nodeAddrs (mgrTopo m')"
proof -
  let ?m = "if tick then m else m\<lparr>refreshCh := False\<rparr>"
  have t: "mgrTopo ?m = mgrTopo m" by simp
  from assms(1,3) t obtain "refresh e ?m = Some (Inr (m', removed))"
    by (auto simp: refreshRound_def Let_def split: if_splits option.splits sum.splits)
  then obtain ep where "refreshFrom e ?m ep = Some (Inr (m', removed))" using refreshAll_Inr by (fastforce simp: refresh_def)
  then obtain nodes slots raw where
    p: "parseClusterNodes (envOrd e 0) (envInner e) raw = Some (nodes, slots)"
      "mgrTopo m' = Update (envOrd e 2) (mgrTopo ?m) nodes slots (topoFingerprint (envOrd e 1) nodes)"
      "topoFingerprint (envOrd e 1) nodes \<noteq> snFingerprint (tSnap (mgrTopo ?m)) \<longrightarrow> entryPoints m' = sort (envOrd e 3 (map fst nodes)) \<and>
       removed = filter (\<lambda>a. map_of nodes a = None) (envOrd e 4 (map fst (snNodes (tSnap (mgrTopo ?m)))))"
    by (rule refreshFrom_ok)
  with assms(3) t have "removed = filter (\<lambda>a. map_of nodes a = None) (envOrd e 4 (map fst (snNodes (tSnap (mgrTopo m)))))" by simp
  with p(2) show ?thesis using assms(2) by (auto simp: nodeAddrs_def map_iter_set map_of_eq_None_iff)
qed

text \<open>
  C23. Connection pools follow the topology: after a round of the refresh loop manager and router hold
  the same topology; when it has changed, the nodes that were in the old one and are not in the
  new one have no pool left, neither for writing nor for reading, in either of the two managers,
  and every other pool is kept.
\<close>

theorem refresh_removes_pools:
  assumes "serverRefresh e tick sv = Some (sv', ps, pps)" "\<And>i. map_iter (envOrd e i)"
    and "snFingerprint (tSnap (rtTopo (svRouter sv'))) \<noteq> snFingerprint (tSnap (rtTopo (svRouter sv)))"
  shows "let gone = poolKeys (nodeAddrs (rtTopo (svRouter sv)) - nodeAddrs (rtTopo (svRouter sv'))) in
    mgrTopo (svTopoMgr sv') = rtTopo (svRouter sv') \<and>
    (\<forall>key. map_of (pmReg (svPoolMgr sv')) key = (if key \<in> gone then None else map_of (pmReg (svPoolMgr sv)) key)) \<and>
    (\<forall>key. map_of (plmReg (svPipeMgr sv')) key = (if key \<in> gone then None else map_of (plmReg (svPipeMgr sv)) key))"
proof -
  from assms(1) obtain m removed where r: "refreshRound e tick (managerOf sv) = Some (m, removed)"
    and h: "nodeRemovedHook removed (shareTopo m sv) = (sv', ps, pps)"
    by (auto simp: serverRefresh_def split: option.splits)
  note k = hook_pools [OF h]
  have t: "rtTopo (svRouter sv') = mgrTopo m" "svTopoMgr sv' = m" using k by (simp_all add: shareTopo_def)
  have "set removed = nodeAddrs (mgrTopo (managerOf sv)) - nodeAddrs (mgrTopo m)"
    by (rule refreshRound_removed [OF r assms(2)]) (use assms(3) t in \<open>simp add: managerOf_def\<close>)
  with k t show ?thesis by (simp add: managerOf_def shareTopo_def Let_def)
qed

definition sampleServer :: Server where
  "sampleServer =
     (let t = NewTopology\<lparr>tSnap := (tSnap NewTopology)\<lparr>snNodes := [(''h:1'', newNode ''m'' ''h:1'')], snFingerprint := ''f''\<rparr>\<rparr>;
          pm = NewPoolManager [] [] 4; ppm = NewPipelinedManager [] [] 16
      in \<lparr>svCfg = Default, svTopoMgr = (NewManager [''h:9''] [] [])\<lparr>mgrTopo := t\<rparr>,
          svPoolMgr = pm\<lparr>pmReg := [(''h:1'', newPool pm ''h:1'' False), (''h:2#ro'', newPool pm ''h:2'' True)]\<rparr>,
          svPipeMgr = ppm\<lparr>plmReg := [(''h:1#ro'', newPipelinedPool ppm ''h:1'' True)]\<rparr>,
          svRouter = NewRouter t (), svAddr = [], svStopped = False\<rparr>)"

text \<open>A cluster whose only node has left: the server that is asked knows no nodes.\<close>

theorem refresh_removes_pools_witness:
  "\<exists>sv' ps pps. serverRefresh \<lparr>envOrd = (\<lambda>_. sampleOrder), envInner = (\<lambda>_. sampleOrder), envNet = (\<lambda>_. Some ([], EncodeBulkString []))\<rparr> True sampleServer
       = Some (sv', ps, pps) \<and>
     map_of (pmReg (svPoolMgr sv')) ''h:1'' = None \<and> map_of (plmReg (svPipeMgr sv')) ''h:1#ro'' = None \<and>
     map_of (pmReg (svPoolMgr sv')) ''h:2#ro'' \<noteq> None"
proof -
  let ?e = "\<lparr>envOrd = (\<lambda>_. sampleOrder), envInner = (\<lambda>_. sampleOrder), envNet = (\<lambda>_. Some ([], EncodeBulkString []))\<rparr>"
  have f: "fetchClusterNodes (EncodeBulkString []) = Inr []" by code_simp
  have "split_char LF (trim_space []) = [[]]" "trim_space [] = []" by code_simp+
  then obtain slots where p: "parseClusterNodes sampleOrder (\<lambda>_. sampleOrder) [] = Some ([], slots)"
    by (simp add: parseClusterNodes_def parseNodeLine_def sampleOrder_def)
  have fp: "topoFingerprint sampleOrder [] = []" by (simp add: topoFingerprint_def sampleOrder_def)
  obtain m removed where r: "refreshRound ?e True (managerOf sampleServer) = Some (m, removed)" "tSnap (mgrTopo m) = tSnap (Update sampleOrder (rtTopo (svRouter sampleServer)) [] slots [])"
    using f p fp by (auto simp: refreshRound_def refresh_def refreshFrom_def sampleServer_def managerOf_def NewManager_def NewRouter_def onTopologyChanged_def Let_def)
  obtain sv' ps pps where h: "nodeRemovedHook removed (shareTopo m sampleServer) = (sv', ps, pps)" by (rule prod_cases3)
  then have s: "serverRefresh ?e True sampleServer = Some (sv', ps, pps)" by (simp add: serverRefresh_def r)
  have t: "rtTopo (svRouter sv') = mgrTopo m" using hook_pools [OF h] by (simp add: shareTopo_def)
  have n: "nodeAddrs (rtTopo (svRouter sampleServer)) = {''h:1''}" "nodeAddrs (mgrTopo m) = {}"
    "snFingerprint (tSnap (mgrTopo m)) \<noteq> snFingerprint (tSnap (rtTopo (svRouter sampleServer)))"
    by (simp_all add: nodeAddrs_def r(2) Update_def sampleServer_def NewRouter_def Let_def)
  have "map_iter (envOrd ?e i)" for i by (simp add: map_iter_def sampleOrder_def)
  from refresh_removes_pools [OF s this] t n have
    "map_of (pmReg (svPoolMgr sv')) key = (if key \<in> {''h:1'', ''h:1#ro''} then None else map_of (pmReg (svPoolMgr sampleServer)) key) \<and>
     map_of (plmReg (svPipeMgr sv')) key = (if key \<in> {''h:1'', ''h:1#ro''} then None else map_of (plmReg (svPipeMgr sampleServer)) key)" for key
    by (simp add: poolKeys_def roSuffix_def Let_def)
  with s show ?thesis by (auto simp: sampleServer_def Let_def)
qed

end
