(* ===== verification/Spec2Isabelle.thy ===== *)
theory Spec2Isabelle
  imports Crc16 Resp_Correct Request Resp_IO Command Topology_Correct RespQueue BackendMux_Wire
    Config Router_Claims Router_Scan Router_Bounds PubsubHub_Correct MultiKey BlockingPool Pool_Correct
    Pipe_Correct Stats Engine_Limits Server
begin

text \<open>
  A verification library for pluster, a proxy for Redis Cluster: clients speak to it as to one
  Redis server, it finds the node that serves a key, follows redirections, splits requests over
  nodes and keeps transactions, blocking commands and subscriptions on connections of their own.

  \<^bold>\<open>The program and its parts.\<close> An event loop (\<^verbatim>\<open>src/pkg/engine/\<close>) serves client connections. A
  read is cut into requests by the parser (\<^verbatim>\<open>src/pkg/proto/resp.go\<close>); the dispatch answers a
  request itself, or routes it by the slot of its key (\<^verbatim>\<open>crc16.go\<close>, \<^verbatim>\<open>command.go\<close>) and the topology
  (\<^verbatim>\<open>src/pkg/cluster/topology.go\<close>) to the multiplexed connection of a node (\<^verbatim>\<open>backend_mux.go\<close>), or
  hands it to the router (\<^verbatim>\<open>src/pkg/router/router.go\<close>), which works in goroutines on pooled
  connections (\<^verbatim>\<open>src/pkg/pool/\<close>). Replies come back in any order and leave through the reply queue
  of the client in the order of its requests. The topology manager refreshes the topology and
  reports nodes that left; the server (\<^verbatim>\<open>src/pkg/server/\<close>) then removes their pools. The program
  starts from flags and a configuration file (\<^verbatim>\<open>src/cmd/pluster/main.go\<close>, \<^verbatim>\<open>src/pkg/config/\<close>).

  \<^bold>\<open>Conventions.\<close> A Go string or byte slice is a \<^typ>\<open>string\<close>; \<^verbatim>\<open>int\<close> and \<^verbatim>\<open>int64\<close> are \<^typ>\<open>int\<close> with
  the wrap-around \<^const>\<open>wrap64\<close> written where the code can leave the range, the checksum is a
  16-bit word. A Go map is an association list or a function; the order in which the code ranges
  over a map, the order of goroutines, and the answers of the network are parameters. A nil
  pointer is \<^term>\<open>None\<close>; a panic is a value (\<^term>\<open>None\<close>, or an error of its own), never left out.
  A connection is a number; what a handler does to the outside is a list of effects, and what
  the outside answers is a later event. A method keeps its Go name where Isabelle allows it.

  \<^bold>\<open>Shared theories.\<close> \<open>Prelude\<close> and \<open>Go_Strings\<close> hold bytes, integers and the functions of the Go
  packages \<^verbatim>\<open>strconv\<close>, \<^verbatim>\<open>strings\<close> and \<^verbatim>\<open>bytes\<close>; \<open>Alist_Extra\<close> association lists; \<open>Runs\<close> runs of a step
  function, with the locales \<open>step_invariant\<close> and \<open>step_simulation\<close> that carry invariants and
  simulations from steps to runs (interpreted for the hub, the pools, the pipelined connections
  and the event loop); \<open>Codec\<close> the contract of the parsers with the read loops, locales
  \<open>stable_decoder\<close> and \<open>codec\<close> (interpreted for values and for requests).

  \<^bold>\<open>Protocol.\<close> \<open>Resp\<close>, \<open>Resp_Parse\<close>, \<open>Resp_Correct\<close>, \<open>Request\<close> and \<open>Resp_IO\<close> model \<^verbatim>\<open>resp.go\<close>: values,
  encoders, \<^verbatim>\<open>ParseValue\<close>, \<^verbatim>\<open>ScanValue\<close>, \<^verbatim>\<open>ParseRequest\<close>, the stream reader and writer. Parsing inverts
  encoding, does not depend on how the bytes are cut into reads, and always returns, with progress
  or with an error that has its cause in the buffer; the allocation-free scanner agrees with the
  parser; a pipeline is taken apart exactly, and a request has the arguments its bytes carry. \<open>Crc16\<close>
  models \<^verbatim>\<open>crc16.go\<close> and shows where its table agrees with CRC-16/XMODEM, which it does not in the
  entries 64 to 119. \<open>Command\<close> models the command table of \<^verbatim>\<open>command.go\<close>: the keys of a request are the
  arguments at the positions of its entry, and every valid request of a keyed command has one.

  \<^bold>\<open>Topology.\<close> \<open>Topology\<close> and \<open>Topology_Correct\<close> model \<^verbatim>\<open>topology.go\<close>: the parser of \<^verbatim>\<open>CLUSTER NODES\<close>
  recovers a printed cluster and never leaves dangling references, the published snapshot does
  not depend on the order of maps, up to the order in which a master lists its replicas, a refresh
  uses the first entry point that answers.

  \<^bold>\<open>The event loop.\<close> \<open>RespQueue\<close> is the reply queue of a client: replies leave in order, each once,
  and as soon as possible. \<open>BackendMux\<close>, \<open>BackendMux_Correct\<close> and \<open>BackendMux_Wire\<close> model
  \<^verbatim>\<open>backend_mux.go\<close>: no request is lost or answered twice, none follows more than 16 redirections
  (the relation \<^const>\<open>hop\<close>), bytes and pending entries stay in the same order unless an \<^verbatim>\<open>ASK\<close> intervenes. \<open>MultiKey\<close> has the grouping,
  splitting and merging of requests with several keys. \<open>Glob\<close>, \<open>PubsubHub\<close> and \<open>PubsubHub_Correct\<close>
  model \<^verbatim>\<open>pubsub_hub.go\<close>: the hub refines a set of subscriptions, and what a publication makes it
  write is, as a multiset, one message per subscription concerned.
  \<open>BlockingPool\<close> models \<^verbatim>\<open>blocking_pool.go\<close>, with the locale \<open>idle_stack\<close>; \<open>Stats\<close> models \<^verbatim>\<open>stats.go\<close>
  with the interleavings of its atomic operations; \<open>Client_State\<close> has the states of a client.

  The handler itself is the record \<open>engine\<close> of \<open>Engine\<close>, with \<open>clientCtx\<close> and \<open>backendCtx\<close> as in
  \<^verbatim>\<open>handler.go\<close>. \<open>Engine_Local\<close> (commands the proxy answers), \<open>Engine_Route\<close> (routing, blocking
  commands) and \<open>Engine_Dispatch\<close> (transactions, subscriptions, \<^verbatim>\<open>handleNormal\<close>,
  \<^verbatim>\<open>dispatchClientRequest\<close>) model \<^verbatim>\<open>handler_routing.go\<close>, \<^verbatim>\<open>handler_blocking.go\<close>, \<^verbatim>\<open>handler_tx.go\<close> and
  \<^verbatim>\<open>handler_pubsub.go\<close>; \<open>Engine_Events\<close> and \<open>Engine_Step\<close> model the callbacks of \<^verbatim>\<open>handler.go\<close> as the
  step function \<^const>\<open>engineStep\<close> over events. The function values that Go stores to be called when
  a reply comes are constructors of the datatypes \<open>respond\<close>, \<open>dialFor\<close> and \<open>job\<close>. \<open>Engine_Frame\<close>,
  \<open>Engine_Auth\<close> and \<open>Engine_Gate\<close> show that a client that has not authenticated reaches no node,
  over all runs; \<open>Engine_Replies\<close> that every request leads to exactly one reply; \<open>Engine_Tx\<close> that
  a transaction is queued, sent to the one node of its first keys and executed as a whole;
  \<open>Engine_Roundtrip\<close> follows a pipeline from the client's bytes to the node and back;
  \<open>Engine_Limits\<close> has the corner cases in which the code does not do what it means to.

  \<^bold>\<open>Router and pools.\<close> \<open>Router\<close>, \<open>Router_Exec\<close> and \<open>Router_Pipeline\<close> model \<^verbatim>\<open>router.go\<close>, with the nodes
  as parameters; \<open>Router_Correct\<close>, \<open>Router_Claims\<close>, \<open>Router_Scan\<close> and \<open>Router_Bounds\<close> show that \<^verbatim>\<open>MGET\<close> and
  \<^verbatim>\<open>MSET\<close> over many nodes act as on one store, that \<^verbatim>\<open>SCAN\<close> visits every master and ends, that a
  pipeline fills every position, and how many exchanges a request makes at most. \<open>Registry\<close>,
  \<open>Pool\<close>, \<open>Pool_Correct\<close>, \<open>Pipe\<close> and \<open>Pipe_Correct\<close> model \<^verbatim>\<open>src/pkg/pool/\<close>, with the locale
  \<open>pool_factory\<close> for the two kinds of pools: pools stay within their bounds under any
  interleaving, and a pipelined connection matches replies with requests.

  \<^bold>\<open>Program.\<close> \<open>Config\<close> models \<^verbatim>\<open>config.go\<close> (a printed configuration is loaded back); \<open>Server\<close> models
  \<^verbatim>\<open>server.go\<close> and the configuration part of \<^verbatim>\<open>main.go\<close>: pools follow the topology, flags win over the
  file, the server is never made without entry points.

  \<^bold>\<open>Bounds and fuel.\<close> The value parser recurses on nested arrays with fuel one more than the length
  of the input, which \<open>parseValueAt_fuel\<close> shows to be enough; the read loops have fuel one more
  than the length of the buffer, each message taking at least a byte (\<open>clientLoop_fuel\<close>,
  \<open>dedTraffic_fuel\<close>). Buffers in theorems about parsing are at most \<^const>\<open>maxAlloc\<close> bytes, the
  largest slice of Go (\<^const>\<open>go_slice\<close>).

  \<^bold>\<open>Not modelled.\<close> Sockets, timers, signals, logging and the profiling server: pure input and
  output. The libraries gnet (its events and calls are events and effects here) and ants (a
  submitted job is an effect). The buffers and object pools that only save allocations. The
  event loops other than the one at hand: they share with it only the number of clients, the
  limit and the statistics; clients of other loops would be further events that change the
  number. Handlers find a topology that has been loaded, as the server serves only then, so the
  branches for a missing one are left out. Accessors that return a field have no definition.
\<close>

end
